(* ===== verification/Prelude.thy ===== *)
theory Prelude
  imports Main "HOL-Library.Word"
begin

text \<open>
  Shared vocabulary of the development: the names of the machine types, the outcome type of
  C code that can abort, and generic lemmas on words, residues and lists that the component
  theories use.

  A C function that can abort (a failed \<open>rpc_assert\<close> or \<open>assert\<close>, a fatal
  \<open>ZF_LOGF\<close>), that would dereference a null pointer, index an array outside its bounds,
  shift by too much, or spin for ever, returns a value of \<open>'a res\<close>: \<open>Inl\<close> of the
  fault, or \<open>Inr\<close> of the result. Integer error codes of the source stay integers.
\<close>

unbundle bit_operations_syntax

named_theorems res_simps \<open>rewriting outcomes of code that can abort\<close>
named_theorems queue_simps \<open>unfolding the queue operations\<close>

type_synonym u8 = "8 word"
type_synonym u16 = "16 word"
type_synonym u32 = "32 word"
type_synonym u64 = "64 word"

text \<open>\<open>typedef unsigned long seL4_Word\<close> on AArch64.\<close>

type_synonym seL4_Word = "64 word"

datatype fault =
    Assert_failed
  | Null_deref
  | Out_of_bounds
  | Shift_too_far
  | Fatal
  | No_return

type_synonym 'a res = "fault + 'a"

definition andthen :: "'a res \<Rightarrow> ('a \<Rightarrow> 'b res) \<Rightarrow> 'b res" where
  "andthen m f = (case m of Inl e \<Rightarrow> Inl e | Inr x \<Rightarrow> f x)"

text \<open>\<open>assert(cond); rest\<close>\<close>

definition asserting :: "bool \<Rightarrow> 'a res \<Rightarrow> 'a res" where
  "asserting c m = (if c then m else Inl Assert_failed)"

text \<open>A loop that does not return is the fault \<open>No_return\<close>.\<close>

definition of_loop :: "'a option \<Rightarrow> 'a res" where
  "of_loop x = (case x of None \<Rightarrow> Inl No_return | Some y \<Rightarrow> Inr y)"

text \<open>Reading and writing an array element.\<close>

definition array_get :: "'a list \<Rightarrow> nat \<Rightarrow> 'a res" where
  "array_get xs i = (if i < length xs then Inr (xs ! i) else Inl Out_of_bounds)"

definition array_set :: "'a list \<Rightarrow> nat \<Rightarrow> 'a \<Rightarrow> 'a list res" where
  "array_set xs i x = (if i < length xs then Inr (xs[i := x]) else Inl Out_of_bounds)"

lemma andthen_simps [simp, res_simps]:
  "andthen (Inl e) f = Inl e"
  "andthen (Inr x) f = f x"
  by (simp_all add: andthen_def)

lemma andthen_assoc [res_simps]:
  "andthen (andthen m f) g = andthen m (\<lambda>x. andthen (f x) g)"
  by (simp add: andthen_def split: sum.split)

lemma andthen_eq_Inr [res_simps]:
  "andthen m f = Inr y \<longleftrightarrow> (\<exists>x. m = Inr x \<and> f x = Inr y)"
  by (simp add: andthen_def split: sum.split)

lemma asserting_simps [simp, res_simps]:
  "asserting True m = m"
  "asserting False m = Inl Assert_failed"
  by (simp_all add: asserting_def)

lemma asserting_eq_Inr [res_simps]:
  "asserting c m = Inr y \<longleftrightarrow> c \<and> m = Inr y"
  by (simp add: asserting_def)

lemma of_loop_simps [simp, res_simps]:
  "of_loop None = Inl No_return"
  "of_loop (Some y) = Inr y"
  by (simp_all add: of_loop_def)

lemma array_get_in [simp]: "i < length xs \<Longrightarrow> array_get xs i = Inr (xs ! i)"
  by (simp add: array_get_def)

lemma array_set_in [simp]: "i < length xs \<Longrightarrow> array_set xs i x = Inr (xs[i := x])"
  by (simp add: array_set_def)

subsection \<open>Residues\<close>

text \<open>Two positions of one window of length \<open>n\<close> with the same residue are the same.\<close>

lemma mod_eq_in_window:
  assumes "a mod n = b mod (n::nat)" and "lo \<le> a" "a < lo + n" and "lo \<le> b" "b < lo + n"
  shows "a = b"
proof -
  have le: "x = y" if "x mod n = y mod n" "y \<le> x" "lo \<le> y" "x < lo + n" for x y
  proof -
    from that have "n dvd x - y" using mod_eq_dvd_iff_nat by blast
    moreover have "x - y < n" using that by arith
    ultimately have "x - y = 0" by (metis dvd_imp_le not_le not_gr_zero)
    with that show ?thesis by simp
  qed
  show ?thesis
    using le [of a b] le [of b a] assms by (metis nat_le_linear)
qed

subsection \<open>Words\<close>

lemma word_of_nat_eq_iff_small:
  assumes "a \<le> b" and "b - a < 2 ^ LENGTH('l::len)"
  shows "(of_nat a :: 'l word) = of_nat b \<longleftrightarrow> a = b"
proof
  assume "(of_nat a :: 'l word) = of_nat b"
  then have "unat (of_nat a :: 'l word) = unat (of_nat b :: 'l word)"
    by (rule arg_cong)
  then have "a mod 2 ^ LENGTH('l) = b mod 2 ^ LENGTH('l)"
    by (simp only: unat_of_nat)
  moreover have "b < a + 2 ^ LENGTH('l)" using assms by arith
  moreover have "a < a + 2 ^ LENGTH('l)" by simp
  ultimately show "a = b"
    using assms(1) by (blast intro: mod_eq_in_window)
qed simp

lemma unat_diff_of_nat:
  assumes "a \<le> b" and "b - a < 2 ^ LENGTH('l::len)"
  shows "unat (of_nat b - of_nat a :: 'l word) = b - a"
proof -
  have "(of_nat b - of_nat a :: 'l word) = of_nat (b - a)"
    using assms(1) by (simp add: of_nat_diff)
  then show ?thesis using assms(2) by (simp add: unat_of_nat)
qed

text \<open>Masking with \<open>RPCMSG_BUFFER_MASK\<close> is reduction modulo 32.\<close>

lemma unat_and_31: "unat (x AND 31 :: u32) = unat x mod 32"
proof -
  have "x AND 31 = take_bit 5 x"
    by (simp add: take_bit_eq_mask mask_eq_exp_minus_1)
  moreover have "unat (take_bit 5 x) = take_bit 5 (unat x)"
    by (rule unsigned_take_bit_eq)
  ultimately show ?thesis
    by (simp add: take_bit_eq_mod)
qed

lemma u32_mod_32: "unat (of_nat n :: u32) mod 32 = n mod 32"
  by (simp add: unat_of_nat mod_mod_cancel)

end
