(* ===== verification/Bitmap.thy ===== *)
theory Bitmap
  imports Prelude
begin

text \<open>
  The bitmap helpers of \<open>include/sel4/rpc_queue.h\<close> (the build outside the Linux kernel):
  \<open>_find_first_zero_bit\<close>, \<open>_set_bit\<close> and \<open>_clear_bit\<close> over an array of
  64-bit words. They are the free list of the message buffers of a request queue.
  \<open>bitmap_test\<close> reads one bit and is the specification the three are stated against.
\<close>

type_synonym bitmap = "u64 list"

subsection \<open>Definitions\<close>

text \<open>\<open>8 * sizeof(unsigned long)\<close>\<close>

definition n_bits :: nat where
  "n_bits = 64"

text \<open>\<open>DECLARE_BITMAP(name, bits)\<close>: the number of words of the array.\<close>

definition DECLARE_BITMAP :: "nat \<Rightarrow> nat" where
  "DECLARE_BITMAP bits = (bits + n_bits - 1) div n_bits"

text \<open>\<open>__builtin_ctzl\<close>, the number of trailing zero bits.\<close>

definition ctzl :: "u64 \<Rightarrow> nat" where
  "ctzl v = length (takeWhile (\<lambda>i. \<not> bit v i) [0..<n_bits])"

function find_first_zero_bit_from :: "bitmap \<Rightarrow> nat \<Rightarrow> nat \<Rightarrow> nat res" where
  "find_first_zero_bit_from addr n i =
     (if i * n_bits < n
      then andthen (array_get addr i) (\<lambda>w.
             let v = NOT w in
             if v \<noteq> 0 then Inr (min (i * n_bits + ctzl v) n)
             else find_first_zero_bit_from addr n (i + 1))
      else Inr n)"
  by pat_completeness auto
termination
  by (relation "measure (\<lambda>(addr, n, i). n - i * n_bits)") (auto simp: n_bits_def)

declare find_first_zero_bit_from.simps [simp del]

definition find_first_zero_bit :: "bitmap \<Rightarrow> nat \<Rightarrow> nat res" where
  "find_first_zero_bit addr sz = find_first_zero_bit_from addr sz 0"

definition bitmap_set_bit :: "nat \<Rightarrow> bitmap \<Rightarrow> bitmap res" where
  "bitmap_set_bit nr addr =
     (let mask = push_bit (nr mod n_bits) 1; a = nr div n_bits in
      andthen (array_get addr a) (\<lambda>w. array_set addr a (w OR mask)))"

definition bitmap_clear_bit :: "nat \<Rightarrow> bitmap \<Rightarrow> bitmap res" where
  "bitmap_clear_bit nr addr =
     (let mask = push_bit (nr mod n_bits) 1; a = nr div n_bits in
      andthen (array_get addr a) (\<lambda>w. array_set addr a (w AND NOT mask)))"

definition bitmap_test :: "bitmap \<Rightarrow> nat \<Rightarrow> bool" where
  "bitmap_test addr nr \<longleftrightarrow> bit (addr ! (nr div n_bits)) (nr mod n_bits)"

subsection \<open>Trailing zeros\<close>

lemma ctzl_spec:
  assumes "v \<noteq> 0"
  shows "ctzl v < n_bits" and "bit v (ctzl v)" and "\<forall>i < ctzl v. \<not> bit v i"
proof -
  let ?P = "\<lambda>i. \<not> bit v i"
  from assms obtain k where k: "bit v k" "k < n_bits"
    by (auto simp: bit_eq_iff n_bits_def dest: bit_imp_le_length)
  have "takeWhile ?P [0..<n_bits] \<noteq> [0..<n_bits]"
    using k by (auto simp: takeWhile_eq_all_conv)
  then have lt: "length (takeWhile ?P [0..<n_bits]) < length [0..<n_bits]"
    by (metis length_takeWhile_le le_neq_implies_less takeWhile_eq_take take_all_iff)
  then show "ctzl v < n_bits" by (simp add: ctzl_def)
  from nth_length_takeWhile [OF lt] lt show "bit v (ctzl v)"
    by (simp add: ctzl_def)
  show "\<forall>i < ctzl v. \<not> bit v i"
  proof (intro allI impI)
    fix i assume i: "i < ctzl v"
    with lt have "takeWhile ?P [0..<n_bits] ! i = i"
      by (simp add: ctzl_def takeWhile_nth)
    moreover have "takeWhile ?P [0..<n_bits] ! i \<in> set (takeWhile ?P [0..<n_bits])"
      using i by (simp add: ctzl_def)
    ultimately show "\<not> bit v i" by (metis set_takeWhileD)
  qed
qed

subsection \<open>One bit after an update\<close>

lemma bitmap_test_word:
  "i < n_bits \<Longrightarrow> bitmap_test addr (k * n_bits + i) \<longleftrightarrow> bit (addr ! k) i"
  by (simp add: bitmap_test_def n_bits_def)

lemma bitmap_set_bit_test:
  assumes "nr < length addr * n_bits"
  obtains addr' where "bitmap_set_bit nr addr = Inr addr'" "length addr' = length addr"
    "\<And>j. j < length addr * n_bits \<Longrightarrow> bitmap_test addr' j \<longleftrightarrow> j = nr \<or> bitmap_test addr j"
proof -
  let ?a = "nr div n_bits" and ?b = "nr mod n_bits"
  let ?addr' = "addr[?a := addr ! ?a OR push_bit ?b 1]"
  have a: "?a < length addr"
    using assms by (simp add: n_bits_def less_mult_imp_div_less)
  have "bitmap_test ?addr' j \<longleftrightarrow> j = nr \<or> bitmap_test addr j" if "j < length addr * n_bits" for j
  proof (cases "j div n_bits = ?a")
    case True
    then have "j mod n_bits = ?b \<longleftrightarrow> j = nr"
      by (metis div_mult_mod_eq)
    with True a show ?thesis
      by (auto simp: bitmap_test_def bit_or_iff bit_push_bit_iff bit_exp_iff n_bits_def)
  next
    case False
    then have "j \<noteq> nr" by auto
    with False show ?thesis by (simp add: bitmap_test_def)
  qed
  moreover have "bitmap_set_bit nr addr = Inr ?addr'"
    using a by (simp add: bitmap_set_bit_def Let_def)
  ultimately show ?thesis using that [of ?addr'] by simp
qed

lemma bitmap_clear_bit_test:
  assumes "nr < length addr * n_bits"
  obtains addr' where "bitmap_clear_bit nr addr = Inr addr'" "length addr' = length addr"
    "\<And>j. j < length addr * n_bits \<Longrightarrow> bitmap_test addr' j \<longleftrightarrow> j \<noteq> nr \<and> bitmap_test addr j"
proof -
  let ?a = "nr div n_bits" and ?b = "nr mod n_bits"
  let ?addr' = "addr[?a := addr ! ?a AND NOT (push_bit ?b 1)]"
  have a: "?a < length addr"
    using assms by (simp add: n_bits_def less_mult_imp_div_less)
  have "bitmap_test ?addr' j \<longleftrightarrow> j \<noteq> nr \<and> bitmap_test addr j" if "j < length addr * n_bits" for j
  proof (cases "j div n_bits = ?a")
    case True
    then have "j mod n_bits = ?b \<longleftrightarrow> j = nr"
      by (metis div_mult_mod_eq)
    with True a show ?thesis
      by (auto simp: bitmap_test_def bit_and_iff bit_not_iff bit_push_bit_iff bit_exp_iff n_bits_def
          dest: bit_imp_le_length)
  next
    case False
    then have "j \<noteq> nr" by auto
    with False show ?thesis by (simp add: bitmap_test_def)
  qed
  moreover have "bitmap_clear_bit nr addr = Inr ?addr'"
    using a by (simp add: bitmap_clear_bit_def Let_def)
  ultimately show ?thesis using that [of ?addr'] by simp
qed

subsection \<open>The search\<close>

lemma set_below:
  assumes "i < length addr" "\<forall>j < i * n_bits. bitmap_test addr j" "\<forall>l < k. bit (addr ! i) l" "k \<le> n_bits" "j < i * n_bits + k"
  shows "bitmap_test addr j"
proof (cases "j < i * n_bits")
  case True
  with assms(2) show ?thesis by blast
next
  case False
  with assms have "bitmap_test addr (i * n_bits + (j - i * n_bits))"
    by (subst bitmap_test_word) auto
  with False show ?thesis by simp
qed

lemma find_first_zero_bit_from_spec:
  assumes "n \<le> length addr * n_bits" and "\<forall>j < i * n_bits. bitmap_test addr j"
    and "i * n_bits < n + n_bits"
  shows "\<exists>r \<le> n. find_first_zero_bit_from addr n i = Inr r \<and>
           (\<forall>j < r. bitmap_test addr j) \<and> (r < n \<longrightarrow> \<not> bitmap_test addr r)"
  using assms
proof (induction addr n i rule: find_first_zero_bit_from.induct)
  case (1 addr n i)
  show ?case
  proof (cases "i * n_bits < n")
    case False
    with "1.prems" show ?thesis
      by (auto simp: find_first_zero_bit_from.simps [of addr n i])
  next
    case True
    then have i: "i < length addr"
      using "1.prems"(1) by (metis less_le_trans mult_less_cancel2)
    let ?v = "NOT (addr ! i)"
    note low = set_below [OF i "1.prems"(2)]
    show ?thesis
    proof (cases "?v = 0")
      case False
      note c = ctzl_spec [OF False]
      have bits: "\<forall>l < ctzl ?v. bit (addr ! i) l"
        using c by (auto simp: bit_not_iff n_bits_def)
      have "\<not> bitmap_test addr (i * n_bits + ctzl ?v)"
        using c by (subst bitmap_test_word) (auto simp: bit_not_iff)
      moreover have "\<forall>j < i * n_bits + ctzl ?v. bitmap_test addr j"
        using low [OF bits] c(1) by simp
      moreover have "find_first_zero_bit_from addr n i = Inr (min (i * n_bits + ctzl ?v) n)"
        using True False i by (simp add: find_first_zero_bit_from.simps [of addr n i] Let_def)
      ultimately show ?thesis by (auto simp: min_def)
    next
      case True': True
      then have "addr ! i = -1"
        by (metis bit.double_compl bit.compl_zero)
      then have "\<forall>l < n_bits. bit (addr ! i) l"
        by (simp add: n_bits_def)
      then have "\<forall>j < (i + 1) * n_bits. bitmap_test addr j"
        using low [of n_bits] by (simp add: algebra_simps)
      moreover have "(i + 1) * n_bits < n + n_bits"
        using True by simp
      ultimately show ?thesis
        using "1.IH" [OF True refl] "1.prems"(1) i True True'
        by (simp add: find_first_zero_bit_from.simps [of addr n i] Let_def)
    qed
  qed
qed

lemma find_first_zero_bit_spec:
  assumes "sz \<le> length addr * n_bits"
  obtains r where "find_first_zero_bit addr sz = Inr r" "r \<le> sz"
    "\<forall>j < r. bitmap_test addr j" "r < sz \<Longrightarrow> \<not> bitmap_test addr r"
  using find_first_zero_bit_from_spec [OF assms, of 0] that
  by (auto simp: find_first_zero_bit_def n_bits_def)

end
