(* ===== verification/Rpc_Queue.thy ===== *)
theory Rpc_Queue
  imports Bitmap
begin

text \<open>
  The bounded ring of \<open>include/sel4/rpc_queue.h\<close> (lines 100 to 342): markers, bounds, the
  queue itself, and \<open>rpcmsg_enqueue\<close> and \<open>rpcmsg_dequeue\<close> over any element
  function, executed by one thread without interference. \<open>Rpc_Concurrent\<close> runs the same
  code one memory access at a time and shows that these definitions are its uninterrupted runs.

  Positions and counts are 32-bit words that wrap around. \<open>queue_ids\<close> reads the queue as a
  list of message ids; the lemmas state enqueue as appending to that list and dequeue as
  removing its head, at every position of the counters.
\<close>

subsection \<open>Messages, markers and the queue\<close>

definition RPCMSG_BUFFER_SIZE :: nat where
  "RPCMSG_BUFFER_SIZE = 32"

definition RPCMSG_BUFFER_MASK :: u32 where
  "RPCMSG_BUFFER_MASK = of_nat RPCMSG_BUFFER_SIZE - 1"

definition RPCMSG_HTD_MAX :: u32 where
  "RPCMSG_HTD_MAX = of_nat (RPCMSG_BUFFER_SIZE div 4)"

record rpcmsg =
  mr0 :: seL4_Word
  mr1 :: seL4_Word
  mr2 :: seL4_Word
  mr3 :: seL4_Word

record rpcmsg_buffer =
  messages :: "rpcmsg list"

text \<open>
  \<open>union rpcmsg_marker\<close>: \<open>val\<close> overlays \<open>pos\<close>, and \<open>raw\<close> is the
  64-bit image of both fields.
\<close>

record rpcmsg_marker =
  pos :: u32
  count :: u32

definition raw :: "rpcmsg_marker \<Rightarrow> u64" where
  "raw m = push_bit 32 (ucast (count m)) OR ucast (pos m)"

abbreviation val :: "rpcmsg_marker \<Rightarrow> u32" where
  "val \<equiv> pos"

record rpcmsg_queue_bound =
  tail :: rpcmsg_marker
  head :: rpcmsg_marker

record rpcmsg_queue =
  prod_b :: rpcmsg_queue_bound
  cons_b :: rpcmsg_queue_bound
  ring :: "u16 list"

text \<open>A \<open>rpcmsg_t *\<close> is null or an element offset from \<open>buffer->messages\<close>.\<close>

type_synonym rpcmsg_ptr = "int option"

definition zero_msg :: rpcmsg where
  "zero_msg = \<lparr>mr0 = 0, mr1 = 0, mr2 = 0, mr3 = 0\<rparr>"

definition zero_bound :: rpcmsg_queue_bound where
  "zero_bound = \<lparr>tail = \<lparr>pos = 0, count = 0\<rparr>, head = \<lparr>pos = 0, count = 0\<rparr>\<rparr>"

definition rpcmsg_queue_init :: "rpcmsg_queue \<Rightarrow> rpcmsg_queue" where
  "rpcmsg_queue_init q =
     \<lparr>prod_b = zero_bound, cons_b = zero_bound, ring = replicate RPCMSG_BUFFER_SIZE 0\<rparr>"

definition rpcmsg_buffer_init :: "rpcmsg_buffer \<Rightarrow> rpcmsg_buffer" where
  "rpcmsg_buffer_init b = \<lparr>messages = replicate RPCMSG_BUFFER_SIZE zero_msg\<rparr>"

definition rpcmsg_queue_full :: "rpcmsg_queue \<Rightarrow> bool" where
  "rpcmsg_queue_full q \<longleftrightarrow>
     of_nat RPCMSG_BUFFER_SIZE + val (tail (cons_b q)) - val (tail (prod_b q)) = 0"

definition rpcmsg_queue_empty :: "rpcmsg_queue \<Rightarrow> bool" where
  "rpcmsg_queue_empty q \<longleftrightarrow> val (head (prod_b q)) = val (head (cons_b q))"

text \<open>The pointer difference is truncated to 16 bits before the check.\<close>

definition rpcmsg_msg_to_id :: "rpcmsg_ptr \<Rightarrow> u16 res" where
  "rpcmsg_msg_to_id msg =
     (case msg of
        None \<Rightarrow> Inl Assert_failed
      | Some off \<Rightarrow>
          let i = (word_of_int off :: u16) in
          asserting (i < of_nat RPCMSG_BUFFER_SIZE) (Inr i))"

definition rpcmsg_id_to_msg :: "u16 \<Rightarrow> rpcmsg_ptr res" where
  "rpcmsg_id_to_msg i = asserting (i < of_nat RPCMSG_BUFFER_SIZE) (Inr (Some (uint i)))"

subsection \<open>Compare and swap\<close>

text \<open>
  Outside the kernel a failed \<open>__atomic_compare_exchange_n\<close> writes the value it found
  into the expected operand. The kernel macro compares the value \<open>arch_cmpxchg\<close> returns
  and leaves the expected operand as it was. The result is success, the new memory word and
  the new expected operand.
\<close>

datatype build = Userspace | Linux_kernel

definition atomic_compare_and_swap ::
  "build \<Rightarrow> rpcmsg_marker \<Rightarrow> rpcmsg_marker \<Rightarrow> rpcmsg_marker
     \<Rightarrow> bool \<times> rpcmsg_marker \<times> rpcmsg_marker" where
  "atomic_compare_and_swap bd p o' n =
     (if raw p = raw o' then (True, n, o')
      else (False, p, (case bd of Userspace \<Rightarrow> p | Linux_kernel \<Rightarrow> o')))"

subsection \<open>Acquiring an entry and committing it\<close>

definition must_wait :: "rpcmsg_queue_bound \<Rightarrow> rpcmsg_marker \<Rightarrow> bool" where
  "must_wait bound t \<longleftrightarrow> pos t - pos (head bound) > RPCMSG_HTD_MAX"

partial_function (option) rpcmsg_tail_wait ::
  "rpcmsg_queue_bound \<Rightarrow> rpcmsg_marker \<Rightarrow> rpcmsg_marker option" where
  "rpcmsg_tail_wait bound t =
     (if must_wait bound t then rpcmsg_tail_wait bound (tail bound) else Some t)"

definition next_marker :: "rpcmsg_marker \<Rightarrow> rpcmsg_marker" where
  "next_marker ot = \<lparr>pos = pos ot + 1, count = count ot + 1\<rparr>"

definition prod_entries :: "rpcmsg_queue \<Rightarrow> rpcmsg_marker \<Rightarrow> u32" where
  "prod_entries q ot = of_nat RPCMSG_BUFFER_SIZE + pos (head (cons_b q)) - pos ot"

definition cons_entries :: "rpcmsg_queue \<Rightarrow> rpcmsg_marker \<Rightarrow> u32" where
  "cons_entries q ot = pos (head (prod_b q)) - pos ot"

partial_function (option) acquire_prod_loop ::
  "build \<Rightarrow> rpcmsg_queue \<Rightarrow> rpcmsg_marker \<Rightarrow> (int \<times> u32 \<times> rpcmsg_queue) option" where
  "acquire_prod_loop bd q ot =
     Option.bind (rpcmsg_tail_wait (prod_b q) ot) (\<lambda>ot.
       if prod_entries q ot = 0 then Some (-1, pos ot, q)
       else
         case atomic_compare_and_swap bd (tail (prod_b q)) ot (next_marker ot) of
           (ok, t, ot') \<Rightarrow>
             if ok then Some (0, pos ot, q\<lparr>prod_b := (prod_b q)\<lparr>tail := t\<rparr>\<rparr>)
             else acquire_prod_loop bd q ot')"

definition rpcmsg_acquire_prod_entry ::
  "build \<Rightarrow> rpcmsg_queue \<Rightarrow> (int \<times> u32 \<times> rpcmsg_queue) option" where
  "rpcmsg_acquire_prod_entry bd q = acquire_prod_loop bd q (tail (prod_b q))"

partial_function (option) acquire_cons_loop ::
  "build \<Rightarrow> rpcmsg_queue \<Rightarrow> rpcmsg_marker \<Rightarrow> (int \<times> u32 \<times> rpcmsg_queue) option" where
  "acquire_cons_loop bd q ot =
     Option.bind (rpcmsg_tail_wait (cons_b q) ot) (\<lambda>ot.
       if cons_entries q ot = 0 then Some (-1, pos ot, q)
       else
         case atomic_compare_and_swap bd (tail (cons_b q)) ot (next_marker ot) of
           (ok, t, ot') \<Rightarrow>
             if ok then Some (0, pos ot, q\<lparr>cons_b := (cons_b q)\<lparr>tail := t\<rparr>\<rparr>)
             else acquire_cons_loop bd q ot')"

definition rpcmsg_acquire_cons_entry ::
  "build \<Rightarrow> rpcmsg_queue \<Rightarrow> (int \<times> u32 \<times> rpcmsg_queue) option" where
  "rpcmsg_acquire_cons_entry bd q = acquire_cons_loop bd q (tail (cons_b q))"

definition commit_marker :: "rpcmsg_marker \<Rightarrow> rpcmsg_marker \<Rightarrow> rpcmsg_marker" where
  "commit_marker oh t =
     (let nh = oh\<lparr>count := count oh + 1\<rparr> in
      if count nh = count t then nh\<lparr>pos := pos t\<rparr> else nh)"

partial_function (option) commit_loop ::
  "build \<Rightarrow> rpcmsg_queue_bound \<Rightarrow> rpcmsg_marker \<Rightarrow> rpcmsg_queue_bound option" where
  "commit_loop bd bound oh =
     (case atomic_compare_and_swap bd (head bound) oh (commit_marker oh (tail bound)) of
        (ok, h, oh') \<Rightarrow>
          if ok then Some (bound\<lparr>head := h\<rparr>) else commit_loop bd bound oh')"

definition rpcmsg_commit_update :: "build \<Rightarrow> rpcmsg_queue_bound \<Rightarrow> rpcmsg_queue_bound option" where
  "rpcmsg_commit_update bd bound = commit_loop bd bound (head bound)"

subsection \<open>Enqueue and dequeue\<close>

type_synonym 'd enqueue_elem_fn =
  "rpcmsg_queue \<Rightarrow> rpcmsg_buffer \<Rightarrow> u32 \<Rightarrow> 'd \<Rightarrow> (rpcmsg_queue \<times> rpcmsg_buffer) res"

type_synonym 'd dequeue_elem_fn = "rpcmsg_queue \<Rightarrow> rpcmsg_buffer \<Rightarrow> u32 \<Rightarrow> 'd res"

definition rpcmsg_enqueue ::
  "build \<Rightarrow> 'd enqueue_elem_fn \<Rightarrow> rpcmsg_queue \<Rightarrow> rpcmsg_buffer \<Rightarrow> 'd
     \<Rightarrow> (int \<times> rpcmsg_queue \<times> rpcmsg_buffer) res" where
  "rpcmsg_enqueue bd enqueue_fn q b data =
     andthen (of_loop (rpcmsg_acquire_prod_entry bd q)) (\<lambda>(err, entry, q).
       if err \<noteq> 0 then Inr (-1, q, b)
       else
         andthen (enqueue_fn q b (entry AND RPCMSG_BUFFER_MASK) data) (\<lambda>(q, b).
           andthen (of_loop (rpcmsg_commit_update bd (prod_b q))) (\<lambda>p.
             Inr (0, q\<lparr>prod_b := p\<rparr>, b))))"

text \<open>The second component is what was stored through \<open>data\<close>, if anything.\<close>

definition rpcmsg_dequeue ::
  "build \<Rightarrow> 'd dequeue_elem_fn \<Rightarrow> rpcmsg_queue \<Rightarrow> rpcmsg_buffer
     \<Rightarrow> (int \<times> 'd option \<times> rpcmsg_queue) res" where
  "rpcmsg_dequeue bd dequeue_fn q b =
     andthen (of_loop (rpcmsg_acquire_cons_entry bd q)) (\<lambda>(err, entry, q).
       if err \<noteq> 0 then Inr (-1, None, q)
       else
         andthen (dequeue_fn q b (entry AND RPCMSG_BUFFER_MASK)) (\<lambda>data.
           andthen (of_loop (rpcmsg_commit_update bd (cons_b q))) (\<lambda>c.
             Inr (0, Some data, q\<lparr>cons_b := c\<rparr>))))"

subsection \<open>The queue as a list of ids\<close>

text \<open>No operation is in progress on a bound when its head has caught up with its tail.\<close>

definition settled :: "rpcmsg_queue_bound \<Rightarrow> bool" where
  "settled bound \<longleftrightarrow> head bound = tail bound"

definition queue_len :: "rpcmsg_queue \<Rightarrow> nat" where
  "queue_len q = unat (pos (head (prod_b q)) - pos (head (cons_b q)))"

definition queue_slot :: "rpcmsg_queue \<Rightarrow> nat \<Rightarrow> nat" where
  "queue_slot q i = (unat (pos (head (cons_b q))) + i) mod RPCMSG_BUFFER_SIZE"

definition queue_ids :: "rpcmsg_queue \<Rightarrow> u16 list" where
  "queue_ids q = map (\<lambda>i. ring q ! queue_slot q i) [0..<queue_len q]"

definition queue_ok :: "rpcmsg_queue \<Rightarrow> bool" where
  "queue_ok q \<longleftrightarrow> settled (prod_b q) \<and> settled (cons_b q) \<and>
     length (ring q) = RPCMSG_BUFFER_SIZE \<and> queue_len q \<le> RPCMSG_BUFFER_SIZE"

lemma raw_inject [simp]: "raw m = raw m' \<longleftrightarrow> m = m'"
proof
  assume r: "raw m = raw m'"
  have bits: "bit (raw x) i \<longleftrightarrow> (if i < 32 then bit (pos x) i else bit (count x) (i - 32))"
    for x :: rpcmsg_marker and i
    by (auto simp: raw_def bit_or_iff bit_push_bit_iff bit_unsigned_iff dest: bit_imp_le_length)
  have "pos m = pos m'"
  proof (rule bit_eqI)
    fix i :: nat assume "possible_bit TYPE(u32) i"
    then show "bit (pos m) i \<longleftrightarrow> bit (pos m') i"
      using bits [of m i] bits [of m' i] r by simp
  qed
  moreover have "count m = count m'"
  proof (rule bit_eqI)
    fix i :: nat
    show "bit (count m) i \<longleftrightarrow> bit (count m') i"
      using bits [of m "i + 32"] bits [of m' "i + 32"] r by simp
  qed
  ultimately show "m = m'" by simp
qed simp

lemma cas_same [simp]: "atomic_compare_and_swap bd p p n = (True, n, p)"
  by (simp add: atomic_compare_and_swap_def)

lemma tail_wait_settled:
  assumes "settled b"
  shows "rpcmsg_tail_wait b (tail b) = Some (tail b)"
  using assms
  by (subst rpcmsg_tail_wait.simps)
    (simp add: must_wait_def settled_def RPCMSG_HTD_MAX_def RPCMSG_BUFFER_SIZE_def)

text \<open>
  With more than \<open>RPCMSG_HTD_MAX\<close> entries in flight and nobody else running, the wait
  does not end.
\<close>

lemma tail_wait_spins:
  assumes "must_wait b (tail b)"
  shows "rpcmsg_tail_wait b (tail b) = None"
proof (rule ccontr)
  assume "rpcmsg_tail_wait b (tail b) \<noteq> None"
  then obtain r where r: "rpcmsg_tail_wait b (tail b) = Some r" by blast
  have "\<not> (b' = b \<and> t = tail b)" if "rpcmsg_tail_wait b' t = Some r'" for b' t r'
  proof (rule rpcmsg_tail_wait.raw_induct
      [where P = "\<lambda>b' t _. \<not> (b' = b \<and> t = tail b)", OF _ that])
    fix f b' t r'
    assume "\<And>b' t r'. f b' t = Some r' \<Longrightarrow> \<not> (b' = b \<and> t = tail b)"
      and "(if must_wait b' t then f b' (tail b') else Some t) = Some r'"
    then show "\<not> (b' = b \<and> t = tail b)" using assms by (auto split: if_splits)
  qed
  with r show False by blast
qed

lemma commit_after_acquire:
  assumes "settled b"
  shows "rpcmsg_commit_update bd (b\<lparr>tail := next_marker (tail b)\<rparr>) =
           Some \<lparr>tail = next_marker (tail b), head = next_marker (tail b)\<rparr>"
  using assms
  by (simp add: rpcmsg_commit_update_def commit_loop.simps settled_def commit_marker_def
      next_marker_def Let_def)

lemma queue_len_full:
  assumes "queue_ok q"
  shows "prod_entries q (tail (prod_b q)) = 0 \<longleftrightarrow> queue_len q = RPCMSG_BUFFER_SIZE"
proof -
  let ?d = "pos (head (prod_b q)) - pos (head (cons_b q))"
  have "prod_entries q (tail (prod_b q)) = 32 - ?d"
    using assms by (simp add: queue_ok_def settled_def prod_entries_def RPCMSG_BUFFER_SIZE_def)
  moreover have "(32 - ?d = 0) \<longleftrightarrow> unat ?d = 32"
    using word_unat_eq_iff [of ?d 32] by auto
  ultimately show ?thesis by (simp add: queue_len_def RPCMSG_BUFFER_SIZE_def)
qed

lemma queue_len_empty:
  assumes "queue_ok q"
  shows "cons_entries q (tail (cons_b q)) = 0 \<longleftrightarrow> queue_len q = 0"
  using assms by (auto simp: queue_ok_def settled_def cons_entries_def queue_len_def unat_eq_0)

subsection \<open>One operation on a settled queue\<close>

text \<open>The queue with one id appended, and with its first id removed.\<close>

definition push_id :: "rpcmsg_queue \<Rightarrow> u16 \<Rightarrow> rpcmsg_queue" where
  "push_id q i =
     (let m = next_marker (tail (prod_b q)) in
      q\<lparr>prod_b := \<lparr>tail = m, head = m\<rparr>,
        ring := (ring q)[queue_slot q (queue_len q) := i]\<rparr>)"

definition pop_id :: "rpcmsg_queue \<Rightarrow> rpcmsg_queue" where
  "pop_id q = (let m = next_marker (tail (cons_b q)) in q\<lparr>cons_b := \<lparr>tail = m, head = m\<rparr>\<rparr>)"

definition acquired_prod :: "rpcmsg_queue \<Rightarrow> rpcmsg_queue" where
  "acquired_prod q = q\<lparr>prod_b := (prod_b q)\<lparr>tail := next_marker (tail (prod_b q))\<rparr>\<rparr>"

definition acquired_cons :: "rpcmsg_queue \<Rightarrow> rpcmsg_queue" where
  "acquired_cons q = q\<lparr>cons_b := (cons_b q)\<lparr>tail := next_marker (tail (cons_b q))\<rparr>\<rparr>"

lemma acquire_prod_entry:
  assumes "queue_ok q"
  shows "rpcmsg_acquire_prod_entry bd q =
     Some (if queue_len q = RPCMSG_BUFFER_SIZE then (-1, pos (tail (prod_b q)), q)
           else (0, pos (tail (prod_b q)), acquired_prod q))"
  using assms queue_len_full [OF assms]
  by (simp add: rpcmsg_acquire_prod_entry_def acquire_prod_loop.simps tail_wait_settled
      queue_ok_def acquired_prod_def)

lemma acquire_cons_entry:
  assumes "queue_ok q"
  shows "rpcmsg_acquire_cons_entry bd q =
     Some (if queue_len q = 0 then (-1, pos (tail (cons_b q)), q)
           else (0, pos (tail (cons_b q)), acquired_cons q))"
  using assms queue_len_empty [OF assms]
  by (simp add: rpcmsg_acquire_cons_entry_def acquire_cons_loop.simps tail_wait_settled
      queue_ok_def acquired_cons_def)

lemma unat_and_mask: "unat (x AND RPCMSG_BUFFER_MASK) = unat x mod RPCMSG_BUFFER_SIZE"
  by (simp add: RPCMSG_BUFFER_MASK_def RPCMSG_BUFFER_SIZE_def unat_and_31)

lemma prod_slot:
  assumes "queue_ok q"
  shows "unat (pos (tail (prod_b q)) AND RPCMSG_BUFFER_MASK) = queue_slot q (queue_len q)"
proof -
  let ?c = "pos (head (cons_b q))"
  have "pos (tail (prod_b q)) = of_nat (unat ?c + queue_len q)"
    using assms by (simp add: queue_len_def queue_ok_def settled_def)
  then show ?thesis
    by (simp only: unat_and_mask queue_slot_def RPCMSG_BUFFER_SIZE_def u32_mod_32)
qed

lemma cons_slot:
  assumes "queue_ok q"
  shows "unat (pos (tail (cons_b q)) AND RPCMSG_BUFFER_MASK) = queue_slot q 0"
  using assms by (simp add: unat_and_mask queue_slot_def queue_ok_def settled_def)

lemma queue_slot_less [simp]: "queue_slot q i < RPCMSG_BUFFER_SIZE"
  by (simp add: queue_slot_def RPCMSG_BUFFER_SIZE_def)

lemma queue_slot_inject:
  assumes "i < RPCMSG_BUFFER_SIZE" "j < RPCMSG_BUFFER_SIZE"
  shows "queue_slot q i = queue_slot q j \<longleftrightarrow> i = j"
proof
  let ?c = "unat (pos (head (cons_b q)))"
  assume "queue_slot q i = queue_slot q j"
  then have "?c + i = ?c + j"
    unfolding queue_slot_def using assms by (elim mod_eq_in_window [where lo = ?c]) auto
  then show "i = j" by simp
qed simp

lemma rpcmsg_enqueue_full:
  assumes "queue_ok q" "queue_len q = RPCMSG_BUFFER_SIZE"
  shows "rpcmsg_enqueue bd fn q b data = Inr (-1, q, b)"
  using assms by (simp add: rpcmsg_enqueue_def acquire_prod_entry)

lemma rpcmsg_dequeue_empty:
  assumes "queue_ok q" "queue_len q = 0"
  shows "rpcmsg_dequeue bd fn q b = Inr (-1, None, q)"
  using assms by (simp add: rpcmsg_dequeue_def acquire_cons_entry)

lemma rpcmsg_enqueue_room:
  assumes ok: "queue_ok q" and room: "queue_len q < RPCMSG_BUFFER_SIZE"
    and fn: "fn (acquired_prod q) b (pos (tail (prod_b q)) AND RPCMSG_BUFFER_MASK) data =
      Inr (acquired_prod q\<lparr>ring := (ring q)[queue_slot q (queue_len q) := i]\<rparr>, b')"
  shows "rpcmsg_enqueue bd fn q b data = Inr (0, push_id q i, b')"
  using assms commit_after_acquire [of "prod_b q" bd]
  by (simp add: rpcmsg_enqueue_def acquire_prod_entry push_id_def Let_def acquired_prod_def
      queue_ok_def)

lemma rpcmsg_enqueue_elem_fault:
  assumes "queue_ok q" "queue_len q < RPCMSG_BUFFER_SIZE"
    and "fn (acquired_prod q) b (pos (tail (prod_b q)) AND RPCMSG_BUFFER_MASK) data = Inl e"
  shows "rpcmsg_enqueue bd fn q b data = Inl e"
  using assms by (simp add: rpcmsg_enqueue_def acquire_prod_entry)

lemma rpcmsg_dequeue_nonempty:
  assumes ok: "queue_ok q" and nonempty: "queue_len q > 0"
    and fn: "fn (acquired_cons q) b (pos (tail (cons_b q)) AND RPCMSG_BUFFER_MASK) = Inr x"
  shows "rpcmsg_dequeue bd fn q b = Inr (0, Some x, pop_id q)"
  using assms commit_after_acquire [of "cons_b q" bd]
  by (simp add: rpcmsg_dequeue_def acquire_cons_entry pop_id_def Let_def acquired_cons_def
      queue_ok_def)

subsection \<open>Appending and removing\<close>

lemma queue_len_push_id:
  assumes "queue_ok q" "queue_len q < RPCMSG_BUFFER_SIZE"
  shows "queue_len (push_id q i) = queue_len q + 1"
proof -
  let ?d = "pos (head (prod_b q)) - pos (head (cons_b q))"
  have "pos (head (prod_b (push_id q i))) - pos (head (cons_b (push_id q i))) = ?d + 1"
    using assms(1) by (simp add: push_id_def Let_def next_marker_def queue_ok_def settled_def)
  moreover have "unat ?d < 32"
    using assms(2) by (simp add: queue_len_def RPCMSG_BUFFER_SIZE_def)
  ultimately show ?thesis
    by (simp add: queue_len_def unat_word_ariths)
qed

lemma queue_slot_push_id [simp]: "queue_slot (push_id q i) j = queue_slot q j"
  by (simp add: push_id_def queue_slot_def Let_def)

lemma queue_ids_push_id:
  assumes "queue_ok q" "queue_len q < RPCMSG_BUFFER_SIZE"
  shows "queue_ids (push_id q i) = queue_ids q @ [i]"
proof -
  have "ring (push_id q i) = (ring q)[queue_slot q (queue_len q) := i]"
    by (simp add: push_id_def Let_def)
  with assms show ?thesis
    by (auto simp: queue_ids_def queue_len_push_id queue_slot_inject queue_ok_def)
qed

lemma queue_ok_push_id:
  assumes "queue_ok q" "queue_len q < RPCMSG_BUFFER_SIZE"
  shows "queue_ok (push_id q i)"
  using assms queue_len_push_id [OF assms]
  by (simp add: queue_ok_def) (simp add: push_id_def settled_def Let_def)

lemma queue_len_pop_id:
  assumes "queue_ok q" "queue_len q > 0"
  shows "queue_len (pop_id q) = queue_len q - 1"
proof -
  let ?d = "pos (head (prod_b q)) - pos (head (cons_b q))"
  have "pos (head (prod_b (pop_id q))) - pos (head (cons_b (pop_id q))) = ?d - 1"
    using assms(1) by (simp add: pop_id_def Let_def next_marker_def queue_ok_def settled_def)
  moreover have "?d \<noteq> 0" using assms(2) by (auto simp: queue_len_def)
  ultimately show ?thesis
    by (simp add: queue_len_def unat_minus_one)
qed

lemma queue_slot_pop_id:
  assumes "queue_ok q"
  shows "queue_slot (pop_id q) j = queue_slot q (Suc j)"
proof -
  let ?c = "pos (head (cons_b q))"
  have "queue_slot (pop_id q) j = (unat (?c + 1) mod 32 + j) mod 32"
    using assms by (simp add: queue_slot_def pop_id_def Let_def next_marker_def queue_ok_def
        settled_def RPCMSG_BUFFER_SIZE_def mod_simps)
  also have "unat (?c + 1) mod 32 = (unat ?c + 1) mod 32"
    using u32_mod_32 [of "unat ?c + 1"] by (simp add: add.commute)
  finally show ?thesis
    by (simp add: queue_slot_def RPCMSG_BUFFER_SIZE_def mod_simps)
qed

lemma queue_ids_pop_id:
  assumes "queue_ok q" "queue_len q > 0"
  shows "queue_ids q = ring q ! queue_slot q 0 # queue_ids (pop_id q)"
proof -
  obtain n where n: "queue_len q = Suc n" using assms(2) by (cases "queue_len q") auto
  have "ring (pop_id q) = ring q" by (simp add: pop_id_def Let_def)
  moreover have "[0..<Suc n] = 0 # map Suc [0..<n]"
    by (simp add: upt_conv_Cons map_Suc_upt del: upt_Suc)
  ultimately show ?thesis
    using assms n
    by (simp add: queue_ids_def queue_len_pop_id queue_slot_pop_id o_def del: upt_Suc)
qed

lemma queue_ok_pop_id:
  assumes "queue_ok q" "queue_len q > 0"
  shows "queue_ok (pop_id q)"
  using assms queue_len_pop_id [OF assms]
  by (auto simp: queue_ok_def) (simp_all add: pop_id_def settled_def Let_def)

lemma length_queue_ids [simp]: "length (queue_ids q) = queue_len q"
  by (simp add: queue_ids_def)

lemma queue_init_ok: "queue_ok (rpcmsg_queue_init q)" "queue_ids (rpcmsg_queue_init q) = []"
  by (simp_all add: queue_ok_def rpcmsg_queue_init_def settled_def zero_bound_def queue_len_def
      queue_ids_def)

lemma rpcmsg_queue_empty_iff:
  "queue_ok q \<Longrightarrow> rpcmsg_queue_empty q \<longleftrightarrow> queue_ids q = []"
  by (auto simp: rpcmsg_queue_empty_def queue_ids_def queue_len_def unat_eq_0)

lemma rpcmsg_queue_full_iff:
  assumes "queue_ok q"
  shows "rpcmsg_queue_full q \<longleftrightarrow> length (queue_ids q) = RPCMSG_BUFFER_SIZE"
  using queue_len_full [OF assms] assms
  by (simp add: rpcmsg_queue_full_def prod_entries_def queue_ok_def settled_def)

end
