(* ===== verification/Rpc_Concurrent.thy ===== *)
theory Rpc_Concurrent
  imports Rpc_Queue
begin

text \<open>
  The queue of \<open>include/sel4/rpc_queue.h\<close> shared by any number of producers and consumers.
  A step of a thread is one access to the shared memory (a load, a compare-and-swap, the access
  to the ring), so a run interleaves \<open>rpcmsg_enqueue\<close> and \<open>rpcmsg_dequeue\<close> calls of
  all threads in any order; \<open>build_of i\<close> says whether thread \<open>i\<close> runs the kernel build of
  the compare-and-swap. Accesses are sequentially consistent.

  The state carries auxiliary variables that no code reads: how many entries each side has
  acquired, published and committed as unbounded numbers, which entries are in flight, the value
  each entry was enqueued with, and what each thread last read. The 32-bit counters are these
  numbers modulo \<open>2 ^ 32\<close>. A run is \<open>fresh\<close> when no thread sleeps between a load and its
  compare-and-swap while \<open>2 ^ 32\<close> other operations complete; without that, a 32-bit counter
  that came back to its old value would let a stale compare-and-swap succeed.
\<close>

subsection \<open>Threads and the shared state\<close>

datatype side = Producer | Consumer

text \<open>
  Where a thread is. The \<open>u16\<close> is the id a producer enqueues, and from the ring access on
  the id a consumer received.
\<close>

datatype pc =
    Idle
  | Load side u16
  | Wait side u16 rpcmsg_marker
  | Reload side u16
  | Check side u16 rpcmsg_marker
  | Cas side u16 rpcmsg_marker
  | Access side u16 u32
  | Commit_load side u16
  | Commit_tail side u16 rpcmsg_marker
  | Commit_cas side u16 rpcmsg_marker rpcmsg_marker
  | Done side u16 int

record sys =
  shared :: rpcmsg_queue
  pc :: "nat \<Rightarrow> pc"
  acq :: "side \<Rightarrow> nat"
  pub :: "side \<Rightarrow> nat"
  com :: "side \<Rightarrow> nat"
  in_flight :: "side \<Rightarrow> nat set"
  log :: "nat \<Rightarrow> u16"
  snap :: "nat \<Rightarrow> nat"
  csnap :: "nat \<Rightarrow> nat"
  ent :: "nat \<Rightarrow> nat"

fun bnd :: "side \<Rightarrow> rpcmsg_queue \<Rightarrow> rpcmsg_queue_bound" where
  "bnd Producer q = prod_b q"
| "bnd Consumer q = cons_b q"

fun set_bnd :: "side \<Rightarrow> rpcmsg_queue_bound \<Rightarrow> rpcmsg_queue \<Rightarrow> rpcmsg_queue" where
  "set_bnd Producer b q = q\<lparr>prod_b := b\<rparr>"
| "set_bnd Consumer b q = q\<lparr>cons_b := b\<rparr>"

fun entries :: "side \<Rightarrow> rpcmsg_queue \<Rightarrow> rpcmsg_marker \<Rightarrow> u32" where
  "entries Producer q ot = prod_entries q ot"
| "entries Consumer q ot = cons_entries q ot"

definition goto :: "nat \<Rightarrow> pc \<Rightarrow> sys \<Rightarrow> sys" where
  "goto i p s = s\<lparr>pc := (pc s)(i := p)\<rparr>"

definition load_tail :: "nat \<Rightarrow> side \<Rightarrow> u16 \<Rightarrow> sys \<Rightarrow> sys" where
  "load_tail i sd d s =
     goto i (Wait sd d (tail (bnd sd (shared s)))) (s\<lparr>snap := (snap s)(i := acq s sd)\<rparr>)"

definition step_wait :: "nat \<Rightarrow> side \<Rightarrow> u16 \<Rightarrow> rpcmsg_marker \<Rightarrow> sys \<Rightarrow> sys" where
  "step_wait i sd d ot s =
     (if must_wait (bnd sd (shared s)) ot then goto i (Reload sd d) s else goto i (Check sd d ot) s)"

definition step_check :: "nat \<Rightarrow> side \<Rightarrow> u16 \<Rightarrow> rpcmsg_marker \<Rightarrow> sys \<Rightarrow> sys" where
  "step_check i sd d ot s =
     (if entries sd (shared s) ot = 0 then goto i (Done sd d (-1)) s else goto i (Cas sd d ot) s)"

definition step_cas :: "build \<Rightarrow> nat \<Rightarrow> side \<Rightarrow> u16 \<Rightarrow> rpcmsg_marker \<Rightarrow> sys \<Rightarrow> sys" where
  "step_cas bd i sd d ot s =
     (let b = bnd sd (shared s) in
      case atomic_compare_and_swap bd (tail b) ot (next_marker ot) of (ok, t, ot') \<Rightarrow>
        if ok then
          goto i (Access sd d (pos ot))
            (s\<lparr>shared := set_bnd sd (b\<lparr>tail := t\<rparr>) (shared s),
               acq := (acq s)(sd := acq s sd + 1),
               in_flight := (in_flight s)(sd := insert (acq s sd) (in_flight s sd)),
               ent := (ent s)(i := acq s sd),
               log := (if sd = Producer then (log s)(acq s sd := d) else log s)\<rparr>)
        else
          goto i (Wait sd d ot')
            (s\<lparr>snap := (snap s)(i := (case bd of Userspace \<Rightarrow> acq s sd | Linux_kernel \<Rightarrow> snap s i))\<rparr>))"

definition step_access :: "nat \<Rightarrow> side \<Rightarrow> u16 \<Rightarrow> u32 \<Rightarrow> sys \<Rightarrow> sys" where
  "step_access i sd d e s =
     (let k = unat (e AND RPCMSG_BUFFER_MASK) in
      case sd of
        Producer \<Rightarrow> goto i (Commit_load sd d) (s\<lparr>shared := (shared s)\<lparr>ring := (ring (shared s))[k := d]\<rparr>\<rparr>)
      | Consumer \<Rightarrow> goto i (Commit_load sd (ring (shared s) ! k)) s)"

definition step_commit_cas ::
  "build \<Rightarrow> nat \<Rightarrow> side \<Rightarrow> u16 \<Rightarrow> rpcmsg_marker \<Rightarrow> rpcmsg_marker \<Rightarrow> sys \<Rightarrow> sys" where
  "step_commit_cas bd i sd d oh t s =
     (let b = bnd sd (shared s) in
      case atomic_compare_and_swap bd (head b) oh (commit_marker oh t) of (ok, h, oh') \<Rightarrow>
        if ok then
          goto i (Done sd d 0)
            (s\<lparr>shared := set_bnd sd (b\<lparr>head := h\<rparr>) (shared s),
               com := (com s)(sd := com s sd + 1),
               in_flight := (in_flight s)(sd := in_flight s sd - {ent s i}),
               pub := (if count oh + 1 = count t then (pub s)(sd := snap s i) else pub s)\<rparr>)
        else
          goto i (Commit_tail sd d oh')
            (s\<lparr>csnap := (csnap s)(i := (case bd of Userspace \<Rightarrow> com s sd | Linux_kernel \<Rightarrow> csnap s i))\<rparr>))"

fun thread_step :: "build \<Rightarrow> nat \<Rightarrow> sys \<Rightarrow> pc \<Rightarrow> sys" where
  "thread_step bd i s Idle = s"
| "thread_step bd i s (Load sd d) = load_tail i sd d s"
| "thread_step bd i s (Wait sd d ot) = step_wait i sd d ot s"
| "thread_step bd i s (Reload sd d) = load_tail i sd d s"
| "thread_step bd i s (Check sd d ot) = step_check i sd d ot s"
| "thread_step bd i s (Cas sd d ot) = step_cas bd i sd d ot s"
| "thread_step bd i s (Access sd d e) = step_access i sd d e s"
| "thread_step bd i s (Commit_load sd d) =
     goto i (Commit_tail sd d (head (bnd sd (shared s)))) (s\<lparr>csnap := (csnap s)(i := com s sd)\<rparr>)"
| "thread_step bd i s (Commit_tail sd d oh) =
     goto i (Commit_cas sd d oh (tail (bnd sd (shared s)))) (s\<lparr>snap := (snap s)(i := acq s sd)\<rparr>)"
| "thread_step bd i s (Commit_cas sd d oh t) = step_commit_cas bd i sd d oh t s"
| "thread_step bd i s (Done sd d rc) = goto i Idle s"

inductive sys_step :: "(nat \<Rightarrow> build) \<Rightarrow> sys \<Rightarrow> sys \<Rightarrow> bool" for build_of where
  call: "pc s i = Idle \<Longrightarrow> sys_step build_of s (goto i (Load sd d) s)"
| run: "pc s i \<noteq> Idle \<Longrightarrow> sys_step build_of s (thread_step (build_of i) i s (pc s i))"

definition init_sys :: sys where
  "init_sys =
     \<lparr>shared = \<lparr>prod_b = zero_bound, cons_b = zero_bound, ring = replicate RPCMSG_BUFFER_SIZE 0\<rparr>,
      pc = (\<lambda>_. Idle), acq = (\<lambda>_. 0), pub = (\<lambda>_. 0), com = (\<lambda>_. 0), in_flight = (\<lambda>_. {}),
      log = (\<lambda>_. 0), snap = (\<lambda>_. 0), csnap = (\<lambda>_. 0), ent = (\<lambda>_. 0)\<rparr>"

fun fresh_thread :: "sys \<Rightarrow> nat \<Rightarrow> pc \<Rightarrow> bool" where
  "fresh_thread s i (Wait sd d ot) = (acq s sd - snap s i < 2 ^ 32)"
| "fresh_thread s i (Check sd d ot) = (acq s sd - snap s i < 2 ^ 32)"
| "fresh_thread s i (Cas sd d ot) = (acq s sd - snap s i < 2 ^ 32)"
| "fresh_thread s i (Commit_tail sd d oh) = (com s sd - csnap s i < 2 ^ 32)"
| "fresh_thread s i (Commit_cas sd d oh t) = (com s sd - csnap s i < 2 ^ 32)"
| "fresh_thread s i _ = True"

definition fresh :: "sys \<Rightarrow> bool" where
  "fresh s \<longleftrightarrow> (\<forall>i. fresh_thread s i (pc s i))"

inductive reachable :: "(nat \<Rightarrow> build) \<Rightarrow> sys \<Rightarrow> bool" for build_of where
  start: "reachable build_of init_sys"
| step: "reachable build_of s \<Longrightarrow> sys_step build_of s t \<Longrightarrow> fresh t \<Longrightarrow> reachable build_of t"

subsection \<open>The invariant\<close>

definition mk :: "nat \<Rightarrow> rpcmsg_marker" where
  "mk n = \<lparr>pos = of_nat n, count = of_nat n\<rparr>"

fun other :: "side \<Rightarrow> side" where
  "other Producer = Consumer"
| "other Consumer = Producer"

text \<open>One side: its two markers, and the entries in flight between them.\<close>

definition side_ok :: "sys \<Rightarrow> side \<Rightarrow> bool" where
  "side_ok s sd \<longleftrightarrow>
     bnd sd (shared s) = \<lparr>tail = mk (acq s sd), head = \<lparr>pos = of_nat (pub s sd), count = of_nat (com s sd)\<rparr>\<rparr> \<and>
     finite (in_flight s sd) \<and> in_flight s sd \<subseteq> {pub s sd..<acq s sd} \<and>
     card (in_flight s sd) + com s sd = acq s sd \<and> pub s sd \<le> com s sd \<and>
     acq s sd \<le> pub s sd + 9 \<and> (in_flight s sd = {} \<longrightarrow> pub s sd = acq s sd)"

definition ring_ok :: "sys \<Rightarrow> bool" where
  "ring_ok s \<longleftrightarrow> length (ring (shared s)) = RPCMSG_BUFFER_SIZE \<and>
     acq s Consumer \<le> pub s Producer \<and> acq s Producer \<le> pub s Consumer + RPCMSG_BUFFER_SIZE"

fun room :: "sys \<Rightarrow> side \<Rightarrow> bool" where
  "room s Producer = (acq s Producer < pub s Consumer + RPCMSG_BUFFER_SIZE)"
| "room s Consumer = (acq s Consumer < pub s Producer)"

fun thread_ok :: "sys \<Rightarrow> nat \<Rightarrow> pc \<Rightarrow> bool" where
  "thread_ok s i (Wait sd d ot) = (snap s i \<le> acq s sd \<and> ot = mk (snap s i))"
| "thread_ok s i (Check sd d ot) =
     (snap s i \<le> acq s sd \<and> ot = mk (snap s i) \<and> (snap s i = acq s sd \<longrightarrow> acq s sd \<le> pub s sd + 8))"
| "thread_ok s i (Cas sd d ot) =
     (snap s i \<le> acq s sd \<and> ot = mk (snap s i) \<and>
      (snap s i = acq s sd \<longrightarrow> acq s sd \<le> pub s sd + 8 \<and> room s sd))"
| "thread_ok s i (Access sd d e) =
     (ent s i \<in> in_flight s sd \<and> e = of_nat (ent s i) \<and> (sd = Producer \<longrightarrow> log s (ent s i) = d))"
| "thread_ok s i (Commit_load sd d) = (ent s i \<in> in_flight s sd \<and> log s (ent s i) = d)"
| "thread_ok s i (Commit_tail sd d oh) =
     (ent s i \<in> in_flight s sd \<and> log s (ent s i) = d \<and> csnap s i \<le> com s sd \<and>
      count oh = of_nat (csnap s i) \<and> (csnap s i = com s sd \<longrightarrow> oh = head (bnd sd (shared s))))"
| "thread_ok s i (Commit_cas sd d oh t) =
     (ent s i \<in> in_flight s sd \<and> log s (ent s i) = d \<and> csnap s i \<le> com s sd \<and>
      count oh = of_nat (csnap s i) \<and> (csnap s i = com s sd \<longrightarrow> oh = head (bnd sd (shared s))) \<and>
      t = mk (snap s i) \<and> csnap s i < snap s i \<and> snap s i \<le> acq s sd \<and> ent s i < snap s i \<and>
      (csnap s i = com s sd \<and> Suc (csnap s i) = snap s i \<longrightarrow>
         in_flight s sd \<inter> {..<snap s i} = {ent s i}))"
| "thread_ok s i (Done sd d rc) = (rc = 0 \<longrightarrow> ent s i < acq s sd \<and> log s (ent s i) = d)"
| "thread_ok s i _ = True"

fun holds :: "side \<Rightarrow> pc \<Rightarrow> bool" where
  "holds sd (Access sd' d e) = (sd' = sd)"
| "holds sd (Commit_load sd' d) = (sd' = sd)"
| "holds sd (Commit_tail sd' d oh) = (sd' = sd)"
| "holds sd (Commit_cas sd' d oh t) = (sd' = sd)"
| "holds sd _ = False"

definition exclusive :: "sys \<Rightarrow> bool" where
  "exclusive s \<longleftrightarrow> (\<forall>sd i j. holds sd (pc s i) \<and> holds sd (pc s j) \<and> ent s i = ent s j \<longrightarrow> i = j)"

fun writing :: "pc \<Rightarrow> bool" where
  "writing (Access Producer d x) = True"
| "writing _ = False"

definition data_ok :: "sys \<Rightarrow> bool" where
  "data_ok s \<longleftrightarrow> (\<forall>e. pub s Consumer \<le> e \<and> e < acq s Producer \<and>
      \<not> (\<exists>i. writing (pc s i) \<and> ent s i = e) \<longrightarrow>
      ring (shared s) ! (e mod RPCMSG_BUFFER_SIZE) = log s e)"

definition sys_ok :: "sys \<Rightarrow> bool" where
  "sys_ok s \<longleftrightarrow> (\<forall>sd. side_ok s sd) \<and> ring_ok s \<and> (\<forall>i. thread_ok s i (pc s i)) \<and> exclusive s \<and> data_ok s"

lemmas sys_ok_defs = side_ok_def ring_ok_def exclusive_def data_ok_def

subsection \<open>Threads that do not move\<close>

text \<open>How the shared part may change under a thread that stands still.\<close>

definition evolves :: "sys \<Rightarrow> sys \<Rightarrow> bool" where
  "evolves s t \<longleftrightarrow>
     (\<forall>sd. acq s sd \<le> acq t sd \<and> pub s sd \<le> pub t sd \<and> com s sd \<le> com t sd \<and>
        (com t sd = com s sd \<longrightarrow> head (bnd sd (shared t)) = head (bnd sd (shared s)) \<and>
           in_flight t sd \<inter> {..<acq s sd} = in_flight s sd)) \<and>
     (\<forall>e < acq s Producer. log t e = log s e)"

lemma evolves_refl: "(\<And>sd. side_ok s sd) \<Longrightarrow> evolves s s"
  by (fastforce simp: evolves_def side_ok_def)

lemma in_flight_bounds:
  assumes "side_ok s sd" "e \<in> in_flight s sd"
  shows "pub s sd \<le> e" "e < acq s sd"
  using assms by (auto simp: side_ok_def)

lemma acq_le_producer:
  assumes "\<And>sd. side_ok s sd" "ring_ok s"
  shows "acq s sd \<le> acq s Producer"
  using assms(1) [of Producer] assms(2) by (cases sd) (auto simp: side_ok_def ring_ok_def)

lemma evolvesD:
  assumes ev: "evolves s t" and sides: "\<And>sd. side_ok s sd" and ring: "ring_ok s"
  shows "acq s sd \<le> acq t sd" "pub s sd \<le> pub t sd" "com s sd \<le> com t sd"
    "com t sd = com s sd \<Longrightarrow> head (bnd sd (shared t)) = head (bnd sd (shared s))"
    "com t sd = com s sd \<Longrightarrow> in_flight t sd \<inter> {..<acq s sd} = in_flight s sd"
    "room s sd \<Longrightarrow> acq t sd = acq s sd \<Longrightarrow> room t sd" "e < acq s sd \<Longrightarrow> log t e = log s e"
proof -
  have mono: "acq s sd \<le> acq t sd" "pub s sd \<le> pub t sd" "com s sd \<le> com t sd" for sd using ev by (auto simp: evolves_def)
  from mono [of sd] show "acq s sd \<le> acq t sd" "pub s sd \<le> pub t sd" "com s sd \<le> com t sd" .
  show "room t sd" if "room s sd" "acq t sd = acq s sd" using that mono by (cases sd) (auto intro: less_le_trans)
  show "log t e = log s e" if "e < acq s sd" using ev that acq_le_producer [OF sides ring, of sd] by (auto simp: evolves_def)
qed (use ev in \<open>auto simp: evolves_def\<close>)

lemma thread_ok_other:
  assumes ev: "evolves s t" and sides: "\<And>sd. side_ok s sd" and ring: "ring_ok s"
    and same: "snap t j = snap s j" "csnap t j = csnap s j" "ent t j = ent s j"
    and held: "\<And>sd. holds sd p \<Longrightarrow> ent s j \<in> in_flight s sd \<Longrightarrow> ent s j \<in> in_flight t sd"
    and ok: "thread_ok s j p"
  shows "thread_ok t j p"
proof -
  note E = evolvesD [OF ev sides ring]
  note mono = E(1-3) and quiet = E(4,5) and rm = E(6)
  have log: "log t e = log s e" if "e \<in> in_flight s sd" for e sd
    using E(7) in_flight_bounds(2) [OF sides that] by blast
  show ?thesis
  proof (cases p)
    case (Wait sd d ot)
    with ok same mono(1) [of sd] show ?thesis by auto
  next
    case (Check sd d ot)
    with ok same mono [of sd] show ?thesis by auto
  next
    case (Cas sd d ot)
    with ok same mono [of sd] rm [of sd] show ?thesis by auto
  next
    case (Access sd d e)
    with ok same held [of sd] log [of "ent s j" sd] show ?thesis by auto
  next
    case (Commit_load sd d)
    with ok same held [of sd] log [of "ent s j" sd] show ?thesis by auto
  next
    case (Commit_tail sd d oh)
    with ok have c: "com t sd = com s sd" if "csnap s j = com t sd"
      using that mono(3) [of sd] by simp
    have "ent s j \<in> in_flight t sd" "log t (ent s j) = d" "csnap s j \<le> com t sd"
      using ok Commit_tail held [of sd] log [of "ent s j" sd] mono(3) [of sd] by auto
    with Commit_tail ok same c quiet(1) [of sd] show ?thesis by auto
  next
    case (Commit_cas sd d oh t')
    with ok have c: "com t sd = com s sd" if "csnap s j = com t sd"
      using that mono(3) [of sd] by simp
    from Commit_cas ok have le: "snap s j \<le> acq s sd" by simp
    have "in_flight t sd \<inter> {..<snap s j} = in_flight s sd \<inter> {..<snap s j}" if "com t sd = com s sd"
      by (subst quiet(2) [OF that, symmetric]) (use le in auto)
    moreover have "ent s j \<in> in_flight t sd" "log t (ent s j) = d" "csnap s j \<le> com t sd"
      "snap s j \<le> acq t sd"
      using ok Commit_cas held [of sd] log [of "ent s j" sd] mono [of sd] by auto
    ultimately show ?thesis
      using Commit_cas ok same c quiet(1) [of sd] by auto
  next
    case (Done sd d rc)
    have "log t (ent s j) = log s (ent s j)" if "rc = 0"
      using ok Done that E(7) [of "ent s j" sd] by simp
    with Done ok same mono(1) [of sd] show ?thesis by auto
  qed simp_all
qed

lemma sys_okD:
  assumes "sys_ok s"
  shows "side_ok s sd" "ring_ok s" "thread_ok s i (pc s i)" "exclusive s" "data_ok s"
  using assms by (auto simp: sys_ok_def)

text \<open>
  The data stay in place under a step that writes no ring slot, if every entry that is complete after it
  was complete before.
\<close>

lemma data_ok_carry:
  assumes "data_ok s" "ring (shared t) = ring (shared s)" "pub s Consumer \<le> pub t Consumer"
    "\<And>e. e < acq t Producer \<Longrightarrow> \<not> (\<exists>j. writing (pc t j) \<and> ent t j = e) \<Longrightarrow>
      e < acq s Producer \<and> \<not> (\<exists>j. writing (pc s j) \<and> ent s j = e) \<and> log t e = log s e"
  shows "data_ok t"
  unfolding data_ok_def
proof (intro allI impI)
  fix e assume e: "pub t Consumer \<le> e \<and> e < acq t Producer \<and> \<not> (\<exists>j. writing (pc t j) \<and> ent t j = e)"
  with assms(4) [of e] have "e < acq s Producer" "\<not> (\<exists>j. writing (pc s j) \<and> ent s j = e)" "log t e = log s e" by blast+
  moreover have "pub s Consumer \<le> e" using e assms(3) by linarith
  ultimately show "ring (shared t) ! (e mod RPCMSG_BUFFER_SIZE) = log t e"
    using assms(1,2) unfolding data_ok_def by simp
qed

text \<open>A step that changes nothing but where thread \<open>i\<close> is and what it has read.\<close>

lemma local_step:
  assumes ok: "sys_ok s" and shared: "shared t = shared s" "acq t = acq s" "pub t = pub s"
      "com t = com s" "in_flight t = in_flight s" "log t = log s" "ent t = ent s"
    and pc: "pc t = (pc s)(i := p)"
    and others: "\<And>j. j \<noteq> i \<Longrightarrow> snap t j = snap s j \<and> csnap t j = csnap s j"
    and mine: "thread_ok t i p"
    and held: "\<And>sd. holds sd p \<Longrightarrow> holds sd (pc s i)"
    and not_writing: "\<not> writing (pc s i)" "\<not> writing p"
  shows "sys_ok t"
proof -
  note sides = sys_okD(1) [OF ok] and D = sys_okD [OF ok]
  have st: "side_ok t sd" for sd using sides [of sd] shared by (simp add: side_ok_def)
  have "ring_ok t" using D(2) shared by (simp add: ring_ok_def)
  moreover have "exclusive t"
    unfolding exclusive_def
  proof (intro allI impI)
    fix sd j k assume h: "holds sd (pc t j) \<and> holds sd (pc t k) \<and> ent t j = ent t k"
    have "holds sd (pc s x)" if "holds sd (pc t x)" for x
      using that held [of sd] pc by (cases "x = i") auto
    with h D(4) shared show "j = k" unfolding exclusive_def by metis
  qed
  moreover have "data_ok t"
  proof -
    have "writing (pc t j) \<longleftrightarrow> writing (pc s j)" for j
      using pc not_writing by (cases "j = i") auto
    with D(5) shared show ?thesis by (simp add: data_ok_def)
  qed
  moreover have "thread_ok t j (pc t j)" for j
  proof (cases "j = i")
    case True
    with mine pc show ?thesis by simp
  next
    case False
    have ev: "evolves s t"
      using sides shared by (fastforce simp: evolves_def side_ok_def)
    have "thread_ok t j (pc s j)"
      by (rule thread_ok_other [OF ev sides D(2)]) (use others [OF False] shared D(3) in simp_all)
    with False pc show ?thesis by simp
  qed
  ultimately show ?thesis using st by (simp add: sys_ok_def)
qed

subsection \<open>What a thread learns from a load\<close>

lemma tail_is: "side_ok s sd \<Longrightarrow> tail (bnd sd (shared s)) = mk (acq s sd)"
  and head_is: "side_ok s sd \<Longrightarrow> head (bnd sd (shared s)) = \<lparr>pos = of_nat (pub s sd), count = of_nat (com s sd)\<rparr>"
  by (simp_all add: side_ok_def)

lemma not_must_wait:
  assumes "side_ok s sd" "\<not> must_wait (bnd sd (shared s)) (mk (acq s sd))"
  shows "acq s sd \<le> pub s sd + 8"
proof -
  from assms(1) have le: "pub s sd \<le> acq s sd" "acq s sd - pub s sd \<le> 9" by (auto simp: side_ok_def)
  then have "unat (of_nat (acq s sd) - of_nat (pub s sd) :: u32) = acq s sd - pub s sd"
    by (intro unat_diff_of_nat) auto
  with assms show ?thesis
    by (simp add: must_wait_def head_is mk_def RPCMSG_HTD_MAX_def RPCMSG_BUFFER_SIZE_def word_less_nat_alt)
qed

lemma entries_room:
  assumes "\<And>sd. side_ok s sd" "ring_ok s" "entries sd (shared s) (mk (acq s sd)) \<noteq> 0"
  shows "room s sd"
proof (cases sd)
  case Producer
  from head_is [OF assms(1), of Consumer] assms(3) Producer
  have "(of_nat (pub s Consumer + RPCMSG_BUFFER_SIZE) :: u32) \<noteq> of_nat (acq s Producer)"
    by (auto simp: prod_entries_def mk_def algebra_simps)
  then have "acq s Producer \<noteq> pub s Consumer + RPCMSG_BUFFER_SIZE" by metis
  with assms(2) Producer show ?thesis by (simp add: ring_ok_def)
next
  case Consumer
  from head_is [OF assms(1), of Producer] assms(3) Consumer
  have "(of_nat (pub s Producer) :: u32) \<noteq> of_nat (acq s Consumer)"
    by (auto simp: cons_entries_def mk_def)
  then have "acq s Consumer \<noteq> pub s Producer" by metis
  with assms(2) Consumer show ?thesis by (simp add: ring_ok_def)
qed

lemma in_flight_count:
  assumes "side_ok s sd" "e \<in> in_flight s sd"
  shows "com s sd < acq s sd" "acq s sd = Suc (com s sd) \<Longrightarrow> in_flight s sd = {e}"
proof -
  from assms have f: "finite (in_flight s sd)" and c: "card (in_flight s sd) + com s sd = acq s sd"
    by (auto simp: side_ok_def)
  from f assms(2) have "card (in_flight s sd) > 0" by (auto simp: card_gt_0_iff)
  with c show "com s sd < acq s sd" by simp
  show "in_flight s sd = {e}" if "acq s sd = Suc (com s sd)"
  proof -
    from that c have "card (in_flight s sd) = 1" by simp
    with assms(2) show ?thesis by (auto simp: card_1_singleton_iff)
  qed
qed

lemma slot_of_entry: "unat ((of_nat e :: u32) AND RPCMSG_BUFFER_MASK) = e mod RPCMSG_BUFFER_SIZE"
  by (simp add: unat_and_mask RPCMSG_BUFFER_SIZE_def u32_mod_32)

lemma consumer_reads_log:
  assumes ok: "sys_ok s" and e: "ent s i \<in> in_flight s Consumer"
  shows "ring (shared s) ! (ent s i mod RPCMSG_BUFFER_SIZE) = log s (ent s i)"
proof -
  note D = sys_okD [OF ok]
  from in_flight_bounds [OF D(1) e] have b: "pub s Consumer \<le> ent s i" "ent s i < acq s Consumer" .
  have p: "acq s Consumer \<le> pub s Producer" "pub s Producer \<le> acq s Producer"
    using D(2) D(1) [of Producer] by (auto simp: ring_ok_def side_ok_def)
  have "\<not> (\<exists>j. writing (pc s j) \<and> ent s j = ent s i)"
  proof
    assume "\<exists>j. writing (pc s j) \<and> ent s j = ent s i"
    then obtain j where j: "writing (pc s j)" "ent s j = ent s i" by blast
    then have "ent s j \<in> in_flight s Producer"
      using D(3) [of j] by (cases "pc s j" rule: writing.cases) auto
    from in_flight_bounds(1) [OF D(1) this] j b p show False by simp
  qed
  with b p D(5) show ?thesis by (simp add: data_ok_def)
qed

subsection \<open>Steps that leave the shared state alone\<close>

definition moved :: "nat \<Rightarrow> pc \<Rightarrow> nat \<Rightarrow> nat \<Rightarrow> sys \<Rightarrow> sys" where
  "moved i p a b s = s\<lparr>pc := (pc s)(i := p), snap := (snap s)(i := a), csnap := (csnap s)(i := b)\<rparr>"

lemma goto_here: "goto i p s = moved i p (snap s i) (csnap s i) s"
  by (simp add: goto_def moved_def)

lemma goto_moved:
  "goto i p (s\<lparr>snap := (snap s)(i := a)\<rparr>) = moved i p a (csnap s i) s"
  "goto i p (s\<lparr>csnap := (csnap s)(i := b)\<rparr>) = moved i p (snap s i) b s"
  by (simp_all add: goto_def moved_def)

lemma moved_simps [simp]:
  "shared (moved i p a b s) = shared s" "acq (moved i p a b s) = acq s" "pub (moved i p a b s) = pub s"
  "com (moved i p a b s) = com s" "in_flight (moved i p a b s) = in_flight s"
  "log (moved i p a b s) = log s" "ent (moved i p a b s) = ent s"
  "snap (moved i p a b s) i = a" "csnap (moved i p a b s) i = b"
  "pc (moved i p a b s) = (pc s)(i := p)"
  by (simp_all add: moved_def)

lemma room_moved [simp]: "room (moved i p a b s) sd = room s sd"
  by (cases sd) simp_all

lemma moved_ok:
  assumes "sys_ok s" "thread_ok (moved i p a b s) i p" "\<And>sd. holds sd p \<Longrightarrow> holds sd (pc s i)"
    "\<not> writing (pc s i)" "\<not> writing p"
  shows "sys_ok (moved i p a b s)"
  by (rule local_step [where s = s and i = i and p = p]) (use assms in \<open>simp_all add: moved_def\<close>)

lemma call_ok:
  assumes "sys_ok s" "pc s i = Idle"
  shows "sys_ok (goto i (Load sd d) s)"
  unfolding goto_here by (rule moved_ok) (use assms in simp_all)

lemma load_tail_ok:
  assumes "sys_ok s" "\<not> writing (pc s i)"
  shows "sys_ok (load_tail i sd d s)"
  unfolding load_tail_def goto_moved
  by (rule moved_ok) (use assms in \<open>simp_all add: tail_is sys_okD\<close>)

lemma step_wait_ok:
  assumes ok: "sys_ok s" and pc: "pc s i = Wait sd d ot"
  shows "sys_ok (step_wait i sd d ot s)"
proof (cases "must_wait (bnd sd (shared s)) ot")
  case True
  have "sys_ok (goto i (Reload sd d) s)"
    unfolding goto_here by (rule moved_ok) (use ok pc in simp_all)
  with True show ?thesis by (simp add: step_wait_def)
next
  case False
  have t: "thread_ok s i (Wait sd d ot)" using sys_okD(3) [OF ok, of i] pc by simp
  then have "snap s i = acq s sd \<longrightarrow> acq s sd \<le> pub s sd + 8"
    using not_must_wait [OF sys_okD(1) [OF ok], of sd] False by auto
  with t have "sys_ok (goto i (Check sd d ot) s)"
    unfolding goto_here by (intro moved_ok [OF ok]) (use pc in simp_all)
  with False show ?thesis by (simp add: step_wait_def)
qed

lemma step_check_ok:
  assumes ok: "sys_ok s" and pc: "pc s i = Check sd d ot"
  shows "sys_ok (step_check i sd d ot s)"
proof (cases "entries sd (shared s) ot = 0")
  case True
  have "sys_ok (goto i (Done sd d (-1)) s)"
    unfolding goto_here by (rule moved_ok) (use ok pc in simp_all)
  with True show ?thesis by (simp add: step_check_def)
next
  case False
  note D = sys_okD [OF ok]
  have t: "thread_ok s i (Check sd d ot)" using D(3) [of i] pc by simp
  then have "snap s i = acq s sd \<longrightarrow> room s sd"
    using entries_room [OF D(1,2), of sd] False by auto
  with t have "sys_ok (goto i (Cas sd d ot) s)"
    unfolding goto_here by (intro moved_ok [OF ok]) (use pc in simp_all)
  with False show ?thesis by (simp add: step_check_def)
qed

lemma commit_load_ok:
  assumes ok: "sys_ok s" and pc: "pc s i = Commit_load sd d"
  shows "sys_ok (thread_step bd i s (Commit_load sd d))"
proof -
  have "thread_ok s i (Commit_load sd d)" using sys_okD(3) [OF ok, of i] pc by simp
  then show ?thesis
    unfolding thread_step.simps goto_moved
    by (intro moved_ok [OF ok]) (use pc head_is [OF sys_okD(1) [OF ok], of sd] in simp_all)
qed

lemma commit_tail_ok:
  assumes ok: "sys_ok s" and pc: "pc s i = Commit_tail sd d oh"
  shows "sys_ok (thread_step bd i s (Commit_tail sd d oh))"
proof -
  note D = sys_okD [OF ok]
  from D(3) [of i] pc have t: "thread_ok s i (Commit_tail sd d oh)" by simp
  then have e: "ent s i \<in> in_flight s sd" by simp
  note c = in_flight_count [OF D(1) e] and b = in_flight_bounds(2) [OF D(1) e]
  have "csnap s i < acq s sd" using t c(1) by simp
  moreover have "in_flight s sd \<inter> {..<acq s sd} = {ent s i}" if "acq s sd = Suc (com s sd)"
    using c(2) [OF that] b by simp
  ultimately show ?thesis
    unfolding thread_step.simps goto_moved
    by (intro moved_ok [OF ok]) (use pc t b tail_is [OF D(1), of sd] in auto)
qed

lemma done_ok:
  assumes "sys_ok s" "pc s i = Done sd d rc"
  shows "sys_ok (thread_step bd i s (Done sd d rc))"
  unfolding thread_step.simps goto_here by (rule moved_ok) (use assms in simp_all)

lemma consumer_access_ok:
  assumes ok: "sys_ok s" and pc: "pc s i = Access Consumer d e"
  shows "sys_ok (step_access i Consumer d e s)"
proof -
  from sys_okD(3) [OF ok, of i] pc
  have e: "ent s i \<in> in_flight s Consumer" "e = of_nat (ent s i)" by auto
  show ?thesis
    unfolding step_access_def Let_def side.simps goto_here
    by (intro moved_ok [OF ok]) (use pc e consumer_reads_log [OF ok e(1)] in \<open>simp_all add: slot_of_entry\<close>)
qed

lemma cas_failed_ok:
  assumes ok: "sys_ok s" and pc: "pc s i = Cas sd d ot" and ne: "tail (bnd sd (shared s)) \<noteq> ot"
  shows "sys_ok (step_cas bd i sd d ot s)"
proof -
  note D = sys_okD [OF ok]
  from D(3) [of i] pc have "snap s i \<le> acq s sd" "ot = mk (snap s i)" by auto
  then have "sys_ok (moved i (Wait sd d (case bd of Userspace \<Rightarrow> tail (bnd sd (shared s)) | Linux_kernel \<Rightarrow> ot))
      (case bd of Userspace \<Rightarrow> acq s sd | Linux_kernel \<Rightarrow> snap s i) (csnap s i) s)"
    by (intro moved_ok [OF ok]) (use pc tail_is [OF D(1), of sd] in \<open>simp_all split: build.split\<close>)
  with ne show ?thesis
    by (simp add: step_cas_def Let_def atomic_compare_and_swap_def goto_moved)
qed

lemma commit_cas_failed_ok:
  assumes ok: "sys_ok s" and pc: "pc s i = Commit_cas sd d oh t" and ne: "head (bnd sd (shared s)) \<noteq> oh"
  shows "sys_ok (step_commit_cas bd i sd d oh t s)"
proof -
  note D = sys_okD [OF ok]
  from D(3) [of i] pc have "thread_ok s i (Commit_cas sd d oh t)" by simp
  then have "sys_ok (moved i (Commit_tail sd d (case bd of Userspace \<Rightarrow> head (bnd sd (shared s)) | Linux_kernel \<Rightarrow> oh))
      (snap s i) (case bd of Userspace \<Rightarrow> com s sd | Linux_kernel \<Rightarrow> csnap s i) s)"
    by (intro moved_ok [OF ok]) (use pc head_is [OF D(1), of sd] in \<open>simp_all split: build.split\<close>)
  with ne show ?thesis
    by (simp add: step_commit_cas_def Let_def atomic_compare_and_swap_def goto_moved)
qed

subsection \<open>Acquiring an entry\<close>

lemma set_bnd_simps [simp]:
  "bnd sd (set_bnd sd b q) = b" "sd \<noteq> sd' \<Longrightarrow> bnd sd' (set_bnd sd b q) = bnd sd' q"
  "ring (set_bnd sd b q) = ring q"
  by (cases sd; cases sd'; simp)+

lemma mk_inject:
  assumes "a \<le> b" "b - a < 2 ^ 32"
  shows "mk a = mk b \<longleftrightarrow> a = b"
  using word_of_nat_eq_iff_small [of a b, where 'l = 32] assms by (auto simp: mk_def)

lemma next_marker_mk [simp]: "next_marker (mk n) = mk (Suc n)"
  by (simp add: next_marker_def mk_def add.commute)

lemma mk_sel [simp]: "pos (mk n) = of_nat n" "count (mk n) = of_nat n"
  by (simp_all add: mk_def)

text \<open>The state after a successful compare-and-swap on a tail.\<close>

definition acquired :: "nat \<Rightarrow> side \<Rightarrow> u16 \<Rightarrow> sys \<Rightarrow> sys" where
  "acquired i sd d s =
     s\<lparr>shared := set_bnd sd ((bnd sd (shared s))\<lparr>tail := mk (Suc (acq s sd))\<rparr>) (shared s),
       pc := (pc s)(i := Access sd d (of_nat (acq s sd))),
       acq := (acq s)(sd := acq s sd + 1),
       in_flight := (in_flight s)(sd := insert (acq s sd) (in_flight s sd)),
       ent := (ent s)(i := acq s sd),
       log := (if sd = Producer then (log s)(acq s sd := d) else log s)\<rparr>"

lemma acquired_side_ok:
  assumes "side_ok s sd'" "sd' = sd \<Longrightarrow> acq s sd \<le> pub s sd + 8"
  shows "side_ok (acquired i sd d s) sd'"
proof (cases "sd' = sd")
  case False
  with assms(1) show ?thesis by (simp add: side_ok_def acquired_def)
next
  case True
  with assms have s: "side_ok s sd" and le: "acq s sd \<le> pub s sd + 8" by auto
  then have "acq s sd \<notin> in_flight s sd" "finite (in_flight s sd)" "pub s sd \<le> acq s sd"
    by (auto simp: side_ok_def)
  with s le True show ?thesis by (auto simp: side_ok_def acquired_def)
qed

lemma acquired_evolves:
  assumes "\<And>sd. side_ok s sd"
  shows "evolves s (acquired i sd d s)"
  unfolding evolves_def
proof (intro conjI allI impI)
  fix sd'
  have f: "in_flight s sd' \<subseteq> {..<acq s sd'}" using assms [of sd'] by (auto simp: side_ok_def)
  show "in_flight (acquired i sd d s) sd' \<inter> {..<acq s sd'} = in_flight s sd'"
    using f by (auto simp: acquired_def)
  show "head (bnd sd' (shared (acquired i sd d s))) = head (bnd sd' (shared s))"
    by (cases "sd' = sd") (simp_all add: acquired_def)
qed (auto simp: acquired_def)

lemma acquired_exclusive:
  assumes "exclusive s" "\<And>j sd. holds sd (pc s j) \<Longrightarrow> ent s j < acq s sd"
  shows "exclusive (acquired i sd d s)"
  unfolding exclusive_def
proof (intro allI impI)
  fix sd' j k
  assume "holds sd' (pc (acquired i sd d s) j) \<and> holds sd' (pc (acquired i sd d s) k) \<and> ent (acquired i sd d s) j = ent (acquired i sd d s) k"
  then show "j = k"
    using assms(2) [of sd' j] assms(2) [of sd' k] assms(1)
    by (cases "j = i"; cases "k = i") (auto simp: acquired_def exclusive_def)
qed

lemma acquired_data_ok:
  assumes "data_ok s" "\<not> writing (pc s i)"
  shows "data_ok (acquired i sd d s)"
proof (rule data_ok_carry [OF assms(1)])
  let ?t = "acquired i sd d s"
  fix e assume e: "e < acq ?t Producer" "\<not> (\<exists>j. writing (pc ?t j) \<and> ent ?t j = e)"
  have new: "sd = Producer \<Longrightarrow> e \<noteq> acq s Producer" using e(2) by (auto simp: acquired_def dest: spec [of _ i])
  then have "e < acq s Producer" using e(1) by (auto simp: acquired_def split: if_splits)
  moreover have "\<not> (writing (pc s j) \<and> ent s j = e)" for j
  proof
    assume j: "writing (pc s j) \<and> ent s j = e"
    with assms(2) have "j \<noteq> i" by auto
    with j have "writing (pc ?t j) \<and> ent ?t j = e" by (simp add: acquired_def)
    with e(2) show False by blast
  qed
  ultimately show "e < acq s Producer \<and> \<not> (\<exists>j. writing (pc s j) \<and> ent s j = e) \<and> log ?t e = log s e"
    by (auto simp: acquired_def)
qed (simp_all add: acquired_def)

lemma acquired_ok:
  assumes ok: "sys_ok s" and pc: "pc s i = Cas sd d ot" and snap: "acq s sd = snap s i"
  shows "sys_ok (acquired i sd d s)"
proof -
  let ?t = "acquired i sd d s"
  note D = sys_okD [OF ok]
  from D(3) [of i] pc snap have rm: "room s sd" and le: "acq s sd \<le> pub s sd + 8" by auto
  have below: "ent s j < acq s sd'" if "holds sd' (pc s j)" for j sd'
  proof -
    have "ent s j \<in> in_flight s sd'"
      using D(3) [of j] that by (cases "pc s j") auto
    then show ?thesis by (rule in_flight_bounds(2) [OF D(1)])
  qed
  have "side_ok ?t sd'" for sd' using acquired_side_ok [OF D(1)] le by simp
  moreover have "ring_ok ?t"
    using D(2) rm by (cases sd) (auto simp: ring_ok_def acquired_def)
  moreover have "exclusive ?t" by (rule acquired_exclusive [OF D(4) below])
  moreover have "data_ok ?t" by (rule acquired_data_ok [OF D(5)]) (simp add: pc)
  moreover have "thread_ok ?t j (pc ?t j)" for j
  proof (cases "j = i")
    case True
    then show ?thesis by (simp add: acquired_def)
  next
    case False
    have "thread_ok ?t j (pc s j)"
      by (rule thread_ok_other [OF acquired_evolves [OF D(1)] D(1,2)])
        (use False D(3) [of j] in \<open>auto simp: acquired_def\<close>)
    with False show ?thesis by (simp add: acquired_def)
  qed
  ultimately show ?thesis by (simp add: sys_ok_def)
qed

lemma step_cas_ok:
  assumes ok: "sys_ok s" and pc: "pc s i = Cas sd d ot" and fresh: "fresh s"
  shows "sys_ok (step_cas bd i sd d ot s)"
proof (cases "tail (bnd sd (shared s)) = ot")
  case False
  with ok pc show ?thesis by (rule cas_failed_ok)
next
  case True
  note D = sys_okD [OF ok]
  from D(3) [of i] pc have t: "snap s i \<le> acq s sd" "ot = mk (snap s i)" by auto
  from fresh have "fresh_thread s i (pc s i)" by (auto simp: fresh_def)
  then have "acq s sd - snap s i < 2 ^ 32" unfolding pc fresh_thread.simps .
  moreover have "mk (snap s i) = mk (acq s sd)"
    using t(2) True tail_is [OF D(1), of sd] by metis
  ultimately have eq: "acq s sd = snap s i"
    using mk_inject [OF t(1)] by metis
  then have ot: "ot = mk (acq s sd)" using t by simp
  have "step_cas bd i sd d ot s = acquired i sd d s"
    unfolding step_cas_def Let_def True unfolding ot
    by (simp add: acquired_def goto_def)
  with acquired_ok [OF ok pc eq] show ?thesis by simp
qed

subsection \<open>Writing an entry\<close>

text \<open>The state after the producer of an entry has written it.\<close>

definition written :: "nat \<Rightarrow> u16 \<Rightarrow> sys \<Rightarrow> sys" where
  "written i d s =
     s\<lparr>shared := (shared s)\<lparr>ring := (ring (shared s))[ent s i mod RPCMSG_BUFFER_SIZE := d]\<rparr>,
       pc := (pc s)(i := Commit_load Producer d)\<rparr>"

lemma written_data_ok:
  assumes ok: "sys_ok s" and e: "ent s i \<in> in_flight s Producer" "log s (ent s i) = d"
  shows "data_ok (written i d s)"
  unfolding data_ok_def
proof (intro allI impI)
  let ?t = "written i d s" and ?k = "ent s i mod RPCMSG_BUFFER_SIZE"
  note D = sys_okD [OF ok]
  fix x
  assume x: "pub ?t Consumer \<le> x \<and> x < acq ?t Producer \<and> \<not> (\<exists>j. writing (pc ?t j) \<and> ent ?t j = x)"
  have len: "length (ring (shared s)) = RPCMSG_BUFFER_SIZE" using D(2) by (simp add: ring_ok_def)
  show "ring (shared ?t) ! (x mod RPCMSG_BUFFER_SIZE) = log ?t x"
  proof (cases "x = ent s i")
    case True
    with len e(2) show ?thesis by (simp add: written_def RPCMSG_BUFFER_SIZE_def)
  next
    case False
    have "pub s Consumer \<le> acq s Consumer" "pub s Producer \<le> ent s i" "ent s i < acq s Producer"
      using in_flight_bounds [OF D(1) e(1)] D(1) [of Consumer] by (auto simp: side_ok_def)
    with D(2) x have "x mod RPCMSG_BUFFER_SIZE = ?k \<Longrightarrow> x = ent s i"
      by (elim mod_eq_in_window [where lo = "pub s Consumer"]) (auto simp: ring_ok_def written_def)
    with False have "?k \<noteq> x mod RPCMSG_BUFFER_SIZE" by metis
    then have "ring (shared ?t) ! (x mod RPCMSG_BUFFER_SIZE) = ring (shared s) ! (x mod RPCMSG_BUFFER_SIZE)"
      by (simp add: written_def)
    moreover have "\<not> (\<exists>j. writing (pc s j) \<and> ent s j = x)"
    proof
      assume "\<exists>j. writing (pc s j) \<and> ent s j = x"
      then obtain j where j: "writing (pc s j)" "ent s j = x" by blast
      with False have "writing (pc ?t j)" "ent ?t j = x" by (auto simp: written_def)
      with x show False by blast
    qed
    ultimately show ?thesis
      using D(5) x unfolding data_ok_def by (simp add: written_def)
  qed
qed

lemma producer_access_ok:
  assumes ok: "sys_ok s" and pc: "pc s i = Access Producer d e"
  shows "sys_ok (step_access i Producer d e s)"
proof -
  let ?t = "written i d s"
  note D = sys_okD [OF ok]
  from D(3) [of i] pc have e: "ent s i \<in> in_flight s Producer" "e = of_nat (ent s i)" "log s (ent s i) = d"
    by auto
  have step: "step_access i Producer d e s = ?t"
    by (simp add: step_access_def Let_def e slot_of_entry goto_def written_def)
  have bnd: "bnd sd (shared ?t) = bnd sd (shared s)" for sd by (cases sd) (simp_all add: written_def)
  have ev: "evolves s ?t"
    using D(1) bnd by (fastforce simp: evolves_def side_ok_def written_def)
  have "side_ok ?t sd" for sd using D(1) [of sd] bnd [of sd] by (simp add: side_ok_def written_def)
  moreover have "ring_ok ?t" using D(2) by (simp add: ring_ok_def written_def)
  moreover have "exclusive ?t"
  proof -
    have "holds sd (pc ?t j) = holds sd (pc s j)" for sd j using pc by (simp add: written_def)
    with D(4) show ?thesis by (simp add: exclusive_def written_def)
  qed
  moreover have "thread_ok ?t j (pc ?t j)" for j
  proof (cases "j = i")
    case True
    with e show ?thesis by (simp add: written_def)
  next
    case False
    have "thread_ok ?t j (pc s j)"
      by (rule thread_ok_other [OF ev D(1,2)]) (use False D(3) in \<open>simp_all add: written_def\<close>)
    with False show ?thesis by (simp add: written_def)
  qed
  ultimately show ?thesis unfolding step using written_data_ok [OF ok e(1,3)] by (simp add: sys_ok_def)
qed

subsection \<open>Committing an entry\<close>

text \<open>The state after a successful compare-and-swap on a head.\<close>

definition committed :: "nat \<Rightarrow> side \<Rightarrow> u16 \<Rightarrow> nat \<Rightarrow> sys \<Rightarrow> sys" where
  "committed i sd d p s =
     s\<lparr>shared := set_bnd sd ((bnd sd (shared s))\<lparr>head := \<lparr>pos = of_nat p, count = of_nat (Suc (com s sd))\<rparr>\<rparr>) (shared s),
       pc := (pc s)(i := Done sd d 0),
       com := (com s)(sd := com s sd + 1),
       in_flight := (in_flight s)(sd := in_flight s sd - {ent s i}),
       pub := (pub s)(sd := p)\<rparr>"

text \<open>
  What the published position may become: the position of a tail read when this was the only
  entry in flight below it, or the old position while another entry is in flight.
\<close>

definition publishes :: "sys \<Rightarrow> nat \<Rightarrow> side \<Rightarrow> nat \<Rightarrow> bool" where
  "publishes s i sd p \<longleftrightarrow>
     (p = Suc (com s sd) \<and> p \<le> acq s sd \<and> in_flight s sd \<inter> {..<p} = {ent s i}) \<or>
     (p = pub s sd \<and> Suc (com s sd) < acq s sd)"

lemma publishes_bounds:
  assumes "publishes s i sd p" "pub s sd \<le> com s sd"
  shows "pub s sd \<le> p" "p \<le> Suc (com s sd)"
  using assms unfolding publishes_def by (elim disjE conjE; linarith)+

lemma committed_side_ok:
  assumes s: "side_ok s sd'" and e: "ent s i \<in> in_flight s sd" and p: "publishes s i sd p"
  shows "side_ok (committed i sd d p s) sd'"
proof (cases "sd' = sd")
  case False
  with s show ?thesis by (simp add: side_ok_def committed_def)
next
  case True
  with s have s: "side_ok s sd" by simp
  let ?F = "in_flight s sd - {ent s i}"
  from s have f: "finite (in_flight s sd)" "in_flight s sd \<subseteq> {pub s sd..<acq s sd}"
    "card (in_flight s sd) + com s sd = acq s sd" "pub s sd \<le> com s sd" "acq s sd \<le> pub s sd + 9"
    by (auto simp: side_ok_def)
  have card: "card ?F + Suc (com s sd) = acq s sd"
    using f(1,3) e card_Suc_Diff1 [OF f(1) e] by simp
  note le = publishes_bounds [OF p f(4)]
  have sub: "?F \<subseteq> {p..<acq s sd}"
  proof
    fix x assume x: "x \<in> ?F"
    with f(2) have "x < acq s sd" "pub s sd \<le> x" by auto
    moreover have "p \<le> x"
    proof (rule ccontr)
      assume "\<not> p \<le> x"
      then have "x \<in> in_flight s sd \<inter> {..<p}" "x \<noteq> ent s i" using x by auto
      moreover have "p \<noteq> pub s sd" using \<open>pub s sd \<le> x\<close> \<open>\<not> p \<le> x\<close> by simp
      ultimately show False using p unfolding publishes_def by blast
    qed
    ultimately show "x \<in> {p..<acq s sd}" by simp
  qed
  have empty: "?F = {} \<longrightarrow> p = acq s sd"
  proof
    assume "?F = {}"
    then have "card ?F = 0" by (metis card.empty)
    then have "acq s sd = Suc (com s sd)" using card by linarith
    with p show "p = acq s sd" unfolding publishes_def by linarith
  qed
  have "bnd sd (shared (committed i sd d p s)) =
      \<lparr>tail = mk (acq s sd), head = \<lparr>pos = of_nat p, count = of_nat (Suc (com s sd))\<rparr>\<rparr>"
    using s by (simp add: side_ok_def committed_def)
  moreover have "acq s sd \<le> p + 9" using le(1) f(5) by simp
  ultimately show ?thesis
    unfolding side_ok_def True using card le(2) sub empty f(1) by (simp add: committed_def)
qed

lemma committed_evolves:
  assumes sides: "\<And>sd. side_ok s sd" and le: "pub s sd \<le> p"
  shows "evolves s (committed i sd d p s)"
  unfolding evolves_def
proof (intro conjI allI impI)
  fix sd'
  assume "com (committed i sd d p s) sd' = com s sd'"
  then have ne: "sd' \<noteq> sd" by (auto simp: committed_def)
  then show "head (bnd sd' (shared (committed i sd d p s))) = head (bnd sd' (shared s))"
    by (simp add: committed_def)
  show "in_flight (committed i sd d p s) sd' \<inter> {..<acq s sd'} = in_flight s sd'"
    using ne sides [of sd'] by (auto simp: committed_def side_ok_def)
qed (use le in \<open>auto simp: committed_def\<close>)

lemma committed_ok:
  assumes ok: "sys_ok s" and pc: "pc s i = Commit_cas sd d oh t" and p: "publishes s i sd p"
  shows "sys_ok (committed i sd d p s)"
proof -
  let ?t = "committed i sd d p s"
  note D = sys_okD [OF ok]
  from D(3) [of i] pc have e: "ent s i \<in> in_flight s sd" "log s (ent s i) = d" by auto
  have "pub s sd \<le> com s sd" using D(1) [of sd] by (simp add: side_ok_def)
  note le = publishes_bounds(1) [OF p this]
  have ents: "ent ?t = ent s" and same: "ring (shared ?t) = ring (shared s)" "acq ?t = acq s" "log ?t = log s"
    by (simp_all add: committed_def)
  have "side_ok ?t sd'" for sd' by (rule committed_side_ok [OF D(1) e(1) p])
  moreover have "ring_ok ?t"
  proof -
    have "pub s sd' \<le> pub ?t sd'" for sd' using le by (simp add: committed_def)
    from this [of Producer] this [of Consumer] D(2) same show ?thesis by (simp add: ring_ok_def)
  qed
  moreover have sub: "holds sd' (pc ?t j) \<Longrightarrow> holds sd' (pc s j) \<and> j \<noteq> i" for sd' j
    by (cases "j = i") (simp_all add: committed_def)
  then have "exclusive ?t"
    using D(4) ents unfolding exclusive_def by metis
  moreover have "data_ok ?t"
  proof (rule data_ok_carry [OF D(5) same(1)])
    show "pub s Consumer \<le> pub ?t Consumer" using le by (auto simp: committed_def)
    have "writing (pc ?t j) \<longleftrightarrow> writing (pc s j)" for j using pc by (simp add: committed_def)
    then show "e < acq s Producer \<and> \<not> (\<exists>j. writing (pc s j) \<and> ent s j = e) \<and> log ?t e = log s e"
      if "e < acq ?t Producer" "\<not> (\<exists>j. writing (pc ?t j) \<and> ent ?t j = e)" for e
      using that ents same(2,3) by simp
  qed
  moreover have "thread_ok ?t j (pc ?t j)" for j
  proof (cases "j = i")
    case True
    with e in_flight_bounds(2) [OF D(1) e(1)] show ?thesis by (simp add: committed_def)
  next
    case False
    have ev: "evolves s ?t" by (rule committed_evolves [OF D(1) le])
    have "thread_ok ?t j (pc s j)"
    proof (rule thread_ok_other [OF ev D(1,2)])
      fix sd' assume "holds sd' (pc s j)" "ent s j \<in> in_flight s sd'"
      moreover have "holds sd (pc s i)" using pc by simp
      ultimately show "ent s j \<in> in_flight ?t sd'"
        using False D(4) by (cases "sd' = sd") (auto simp: committed_def exclusive_def)
    qed (use D(3) in \<open>simp_all add: committed_def\<close>)
    with False show ?thesis by (simp add: committed_def)
  qed
  ultimately show ?thesis by (simp add: sys_ok_def)
qed

text \<open>
  A thread whose compare-and-swap on the head succeeds has an up-to-date head, and its test for the
  last open entry compares the true counters.
\<close>

lemma commit_cas_current:
  assumes ok: "sys_ok s" and pc: "pc s i = Commit_cas sd d oh t" and fresh: "fresh s" and eq: "head (bnd sd (shared s)) = oh"
  shows "csnap s i = com s sd" "t = mk (snap s i)" "com s sd < snap s i" "snap s i \<le> acq s sd"
    "Suc (com s sd) = snap s i \<Longrightarrow> in_flight s sd \<inter> {..<snap s i} = {ent s i}"
    "count oh + 1 = count t \<longleftrightarrow> Suc (com s sd) = snap s i"
proof -
  note D = sys_okD [OF ok]
  have h: "thread_ok s i (Commit_cas sd d oh t)" using D(3) [of i] pc by simp
  from fresh have "fresh_thread s i (pc s i)" by (auto simp: fresh_def)
  then have fr: "com s sd - csnap s i < 2 ^ 32" unfolding pc fresh_thread.simps .
  have "(of_nat (csnap s i) :: u32) = of_nat (com s sd)"
    using h eq head_is [OF D(1), of sd] by (metis rpcmsg_marker.select_convs(2) thread_ok.simps(7))
  then show cs: "csnap s i = com s sd"
    using word_of_nat_eq_iff_small [of "csnap s i" "com s sd", where 'l = 32] h fr by simp
  show t: "t = mk (snap s i)" "com s sd < snap s i" "snap s i \<le> acq s sd" using h cs by simp_all
  show "in_flight s sd \<inter> {..<snap s i} = {ent s i}" if "Suc (com s sd) = snap s i" using h cs that by simp
  have sides: "pub s sd \<le> com s sd" "acq s sd \<le> pub s sd + 9" using D(1) [of sd] by (auto simp: side_ok_def)
  have "(of_nat (Suc (com s sd)) :: u32) = of_nat (snap s i) \<longleftrightarrow> Suc (com s sd) = snap s i"
    using word_of_nat_eq_iff_small [of "Suc (com s sd)" "snap s i", where 'l = 32] t sides by simp
  then show "count oh + 1 = count t \<longleftrightarrow> Suc (com s sd) = snap s i"
    unfolding t(1) eq [symmetric] head_is [OF D(1)] by (simp add: add.commute)
qed

lemma step_commit_cas_ok:
  assumes ok: "sys_ok s" and pc: "pc s i = Commit_cas sd d oh t" and fresh: "fresh s"
  shows "sys_ok (step_commit_cas bd i sd d oh t s)"
proof (cases "head (bnd sd (shared s)) = oh")
  case False
  with ok pc show ?thesis by (rule commit_cas_failed_ok)
next
  case True
  note C = commit_cas_current [OF ok pc fresh True]
  define p where "p = (if Suc (com s sd) = snap s i then snap s i else pub s sd)"
  have "publishes s i sd p"
  proof (cases "Suc (com s sd) = snap s i")
    case True
    with C(4,5) show ?thesis unfolding publishes_def p_def by simp
  next
    case False
    then show ?thesis unfolding publishes_def p_def using C(3,4) by (intro disjI2) simp
  qed
  then have "sys_ok (committed i sd d p s)" by (rule committed_ok [OF ok pc])
  moreover have "step_commit_cas bd i sd d oh t s = committed i sd d p s"
  proof -
    have "oh = \<lparr>pos = of_nat (pub s sd), count = of_nat (com s sd)\<rparr>"
      using True head_is [OF sys_okD(1) [OF ok], of sd] by simp
    with C(6) have "commit_marker oh t = \<lparr>pos = of_nat p, count = of_nat (Suc (com s sd))\<rparr>"
      by (cases "Suc (com s sd) = snap s i") (simp_all add: commit_marker_def p_def C(2) add.commute)
    moreover have "(if count oh + 1 = count t then (pub s)(sd := snap s i) else pub s) = (pub s)(sd := p)"
      using C(6) by (simp add: p_def)
    ultimately show ?thesis
      unfolding step_commit_cas_def Let_def True atomic_compare_and_swap_def
      by (simp add: committed_def goto_def)
  qed
  ultimately show ?thesis by simp
qed

subsection \<open>Every reachable state satisfies the invariant\<close>

lemma thread_step_ok:
  assumes ok: "sys_ok s" and fresh: "fresh s"
  shows "sys_ok (thread_step bd i s (pc s i))"
proof (cases "pc s i")
  case (Load sd d)
  with load_tail_ok [OF ok, of i sd d] show ?thesis by simp
next
  case (Reload sd d)
  with load_tail_ok [OF ok, of i sd d] show ?thesis by simp
next
  case (Access sd d e)
  with producer_access_ok [OF ok, of i d e] consumer_access_ok [OF ok, of i d e] show ?thesis
    by (cases sd) simp_all
qed (use ok fresh step_wait_ok step_check_ok step_cas_ok step_commit_cas_ok commit_load_ok commit_tail_ok done_ok
      in \<open>simp_all del: thread_step.simps(8,9,11)\<close>)

lemma sys_ok_init: "sys_ok init_sys"
proof -
  have "bnd sd (shared init_sys) = \<lparr>tail = mk 0, head = \<lparr>pos = 0, count = 0\<rparr>\<rparr>" for sd
    by (cases sd) (simp_all add: init_sys_def mk_def zero_bound_def)
  then have "side_ok init_sys sd" for sd by (simp add: side_ok_def init_sys_def)
  moreover have "ring_ok init_sys" by (simp add: ring_ok_def init_sys_def)
  ultimately show ?thesis by (simp add: sys_ok_def exclusive_def data_ok_def init_sys_def)
qed

lemma fresh_init: "fresh init_sys"
  by (simp add: fresh_def init_sys_def)

lemma reachable_ok:
  assumes "reachable build_of s"
  shows "sys_ok s \<and> fresh s"
  using assms
proof induction
  case start
  show ?case using sys_ok_init fresh_init ..
next
  case (step s t)
  then show ?case by (auto elim!: sys_step.cases intro: call_ok thread_step_ok)
qed

end
