(* ===== verification/Fifo.thy ===== *)
theory Fifo
  imports Rpc_Queue
begin

text \<open>
  The contract that users of a message queue rely on: a bounded first-in first-out buffer of
  \<open>RPCMSG_BUFFER_SIZE\<close> messages. \<open>fifo_run\<close> performs a sequence of operations on an
  implementation and collects what each returns; \<open>spec_run\<close> does the same on a list. The
  locale shows once that any implementation of the four laws answers every sequence of
  operations as the list does. \<open>Rpc_Messages\<close> interprets it for the event queue and for the
  request and reply queues.
\<close>

datatype 'm fifo_op = Send 'm | Recv

datatype 'm fifo_out = Sent int | Got "'m option"

fun fifo_run ::
  "('s \<Rightarrow> 'm \<Rightarrow> (int \<times> 's) res) \<Rightarrow> ('s \<Rightarrow> (int \<times> 'm option \<times> 's) res)
     \<Rightarrow> 's \<Rightarrow> 'm fifo_op list \<Rightarrow> ('m fifo_out list \<times> 's) res" where
  "fifo_run send recv s [] = Inr ([], s)"
| "fifo_run send recv s (Send m # ops) =
     andthen (send s m) (\<lambda>(rc, s).
       andthen (fifo_run send recv s ops) (\<lambda>(outs, s). Inr (Sent rc # outs, s)))"
| "fifo_run send recv s (Recv # ops) =
     andthen (recv s) (\<lambda>(rc, m, s).
       andthen (fifo_run send recv s ops) (\<lambda>(outs, s).
         Inr (Got (if rc = 0 then m else None) # outs, s)))"

fun spec_run :: "'m list \<Rightarrow> 'm fifo_op list \<Rightarrow> 'm fifo_out list \<times> 'm list" where
  "spec_run ms [] = ([], ms)"
| "spec_run ms (Send m # ops) =
     (if length ms < RPCMSG_BUFFER_SIZE
      then let (outs, ms') = spec_run (ms @ [m]) ops in (Sent 0 # outs, ms')
      else let (outs, ms') = spec_run ms ops in (Sent (-1) # outs, ms'))"
| "spec_run [] (Recv # ops) = (let (outs, ms') = spec_run [] ops in (Got None # outs, ms'))"
| "spec_run (m # ms) (Recv # ops) =
     (let (outs, ms') = spec_run ms ops in (Got (Some m) # outs, ms'))"

fun sends_ok :: "('m \<Rightarrow> bool) \<Rightarrow> 'm fifo_op list \<Rightarrow> bool" where
  "sends_ok P [] = True"
| "sends_ok P (Send m # ops) = (P m \<and> sends_ok P ops)"
| "sends_ok P (Recv # ops) = sends_ok P ops"

text \<open>Sending a batch into a list with room and taking it out again returns the batch.\<close>

lemma spec_run_append:
  "spec_run ms (xs @ ys) =
     (let (o1, ms1) = spec_run ms xs; (o2, ms2) = spec_run ms1 ys in (o1 @ o2, ms2))"
  by (induction ms xs rule: spec_run.induct) (simp_all add: Let_def split: prod.splits)

lemma spec_run_sends:
  "length ms + length xs \<le> RPCMSG_BUFFER_SIZE \<Longrightarrow>
     spec_run ms (map Send xs) = (replicate (length xs) (Sent 0), ms @ xs)"
  by (induction xs arbitrary: ms) auto

lemma spec_run_recvs:
  "spec_run xs (replicate (length xs) Recv) = (map (Got \<circ> Some) xs, [])"
  by (induction xs) auto

lemma sends_ok_append [simp]: "sends_ok P (xs @ ys) \<longleftrightarrow> sends_ok P xs \<and> sends_ok P ys"
  by (induction P xs rule: sends_ok.induct) auto

lemma sends_ok_batch: "sends_ok P (map Send xs) \<longleftrightarrow> (\<forall>x \<in> set xs. P x)"
  by (induction xs) auto

lemma sends_ok_recvs: "sends_ok P (replicate n Recv)"
  by (induction n) auto

locale bounded_fifo =
  fixes send :: "'s \<Rightarrow> 'm \<Rightarrow> (int \<times> 's) res"
    and recv :: "'s \<Rightarrow> (int \<times> 'm option \<times> 's) res"
    and contents :: "'s \<Rightarrow> 'm list"
    and ok :: "'s \<Rightarrow> bool"
    and sendable :: "'m \<Rightarrow> bool"
  assumes bounded: "ok s \<Longrightarrow> length (contents s) \<le> RPCMSG_BUFFER_SIZE"
    and send_room: "\<lbrakk>ok s; sendable m; length (contents s) < RPCMSG_BUFFER_SIZE\<rbrakk>
      \<Longrightarrow> \<exists>s'. send s m = Inr (0, s') \<and> ok s' \<and> contents s' = contents s @ [m]"
    and send_full: "\<lbrakk>ok s; length (contents s) = RPCMSG_BUFFER_SIZE\<rbrakk> \<Longrightarrow> send s m = Inr (-1, s)"
    and recv_some: "\<lbrakk>ok s; contents s = m # ms\<rbrakk>
      \<Longrightarrow> \<exists>s'. recv s = Inr (0, Some m, s') \<and> ok s' \<and> contents s' = ms"
    and recv_none: "\<lbrakk>ok s; contents s = []\<rbrakk> \<Longrightarrow> recv s = Inr (-1, None, s)"
begin

lemma run_simulates:
  assumes "ok s" and "sends_ok sendable ops"
  shows "\<exists>s'. fifo_run send recv s ops = Inr (fst (spec_run (contents s) ops), s') \<and>
           ok s' \<and> contents s' = snd (spec_run (contents s) ops)"
  using assms
proof (induction ops arbitrary: s)
  case Nil
  then show ?case by simp
next
  case (Cons op ops)
  show ?case
  proof (cases op)
    case (Send m)
    show ?thesis
    proof (cases "length (contents s) < RPCMSG_BUFFER_SIZE")
      case True
      with Cons.prems Send obtain s1
        where s1: "send s m = Inr (0, s1)" "ok s1" "contents s1 = contents s @ [m]"
        using send_room [of s m] by auto
      with Cons.IH [of s1] Cons.prems Send True show ?thesis
        by (auto split: prod.splits)
    next
      case False
      with Cons.prems bounded [of s] have "send s m = Inr (-1, s)"
        by (intro send_full) auto
      with Cons.IH [of s] Cons.prems Send False show ?thesis
        by (auto split: prod.splits)
    qed
  next
    case Recv
    show ?thesis
    proof (cases "contents s")
      case Nil
      with Cons.IH [of s] Cons.prems Recv recv_none [of s] show ?thesis
        by (auto split: prod.splits)
    next
      case (Cons m ms)
      with Cons.prems obtain s1
        where "recv s = Inr (0, Some m, s1)" "ok s1" "contents s1 = ms"
        using recv_some [of s m ms] by auto
      with Cons.IH [of s1] Cons.prems Recv Cons show ?thesis
        by (auto split: prod.splits)
    qed
  qed
qed

lemma batch_roundtrip:
  assumes "ok s" "contents s = []" "length xs \<le> RPCMSG_BUFFER_SIZE" "\<forall>x \<in> set xs. sendable x"
  shows "\<exists>s'. fifo_run send recv s (map Send xs @ replicate (length xs) Recv) =
           Inr (replicate (length xs) (Sent 0) @ map (Got \<circ> Some) xs, s') \<and>
           ok s' \<and> contents s' = []"
  using run_simulates [OF assms(1), of "map Send xs @ replicate (length xs) Recv"] assms
  by (simp add: spec_run_append spec_run_sends spec_run_recvs sends_ok_batch sends_ok_recvs)

end

end
