(* ===== verification/Slot_Pool.thy ===== *)
theory Slot_Pool
  imports Prelude
begin

text \<open>
  The contract of a pool of message slots: a slot that is lent is fresh, stays lent until it
  is reclaimed, and lending fails exactly when every slot is out. \<open>lend_many\<close> lends several
  slots in a row. \<open>Rpc_Messages\<close> interprets the locale for the bitmap of a request queue.
\<close>

primrec lend_many :: "('p \<Rightarrow> ('k option \<times> 'p) res) \<Rightarrow> nat \<Rightarrow> 'p \<Rightarrow> ('k option list \<times> 'p) res" where
  "lend_many lend 0 p = Inr ([], p)"
| "lend_many lend (Suc n) p =
     andthen (lend p) (\<lambda>(k, p). andthen (lend_many lend n p) (\<lambda>(ks, p). Inr (k # ks, p)))"

locale slot_pool =
  fixes lend :: "'p \<Rightarrow> ('k option \<times> 'p) res"
    and reclaim :: "'p \<Rightarrow> 'k \<Rightarrow> 'p res"
    and lent :: "'p \<Rightarrow> 'k set"
    and ok :: "'p \<Rightarrow> bool"
    and slots :: "'k set"
  assumes finite_slots: "finite slots"
    and lent_slots: "ok p \<Longrightarrow> lent p \<subseteq> slots"
    and lend_fresh: "\<lbrakk>ok p; lent p \<noteq> slots\<rbrakk>
      \<Longrightarrow> \<exists>k p'. lend p = Inr (Some k, p') \<and> ok p' \<and> k \<in> slots \<and> k \<notin> lent p \<and> lent p' = insert k (lent p)"
    and lend_exhausted: "\<lbrakk>ok p; lent p = slots\<rbrakk> \<Longrightarrow> lend p = Inr (None, p)"
    and reclaim_slot: "\<lbrakk>ok p; k \<in> slots\<rbrakk>
      \<Longrightarrow> \<exists>p'. reclaim p k = Inr p' \<and> ok p' \<and> lent p' = lent p - {k}"
begin

lemma lend_many_distinct:
  assumes "ok p" and "n \<le> card (slots - lent p)"
  shows "\<exists>ks p'. lend_many lend n p = Inr (map Some ks, p') \<and> ok p' \<and> length ks = n \<and> distinct ks \<and>
           set ks \<inter> lent p = {} \<and> lent p' = lent p \<union> set ks"
  using assms
proof (induction n arbitrary: p)
  case 0
  then show ?case by simp
next
  case (Suc n)
  then have "lent p \<noteq> slots" by auto
  with Suc.prems obtain k p1 where k: "lend p = Inr (Some k, p1)" "ok p1" "k \<in> slots" "k \<notin> lent p"
    "lent p1 = insert k (lent p)"
    using lend_fresh [of p] by blast
  then have "slots - lent p1 = slots - lent p - {k}" by auto
  then have "n \<le> card (slots - lent p1)"
    using Suc.prems k finite_slots by (simp add: card_Diff_singleton_if)
  then obtain ks p' where ks: "lend_many lend n p1 = Inr (map Some ks, p')" "ok p'" "length ks = n"
    "distinct ks" "set ks \<inter> lent p1 = {}" "lent p' = lent p1 \<union> set ks"
    using Suc.IH [OF k(2)] by blast
  then have "lend_many lend (Suc n) p = Inr (map Some (k # ks), p')" "distinct (k # ks)"
    "set (k # ks) \<inter> lent p = {}" "lent p' = lent p \<union> set (k # ks)"
    using k by auto
  with ks(2,3) show ?case by (metis length_Cons)
qed

lemma lend_reclaim:
  assumes "ok p" "lent p \<noteq> slots"
  shows "\<exists>k p1 p2. lend p = Inr (Some k, p1) \<and> reclaim p1 k = Inr p2 \<and> ok p2 \<and> lent p2 = lent p"
proof -
  from lend_fresh [OF assms] obtain k p1 where k: "lend p = Inr (Some k, p1)" "ok p1" "k \<in> slots"
    "k \<notin> lent p" "lent p1 = insert k (lent p)" by blast
  with reclaim_slot [OF k(2,3)] show ?thesis by auto
qed

end

end
