(* ===== verification/Rpc_Messages.thy ===== *)
theory Rpc_Messages
  imports Fifo Slot_Pool
begin

text \<open>
  The event queue and the request/reply queues of \<open>include/sel4/rpc_queue.h\<close> (lines 344
  to 631) over the shared memory of \<open>include/sel4/rpc.h\<close> (\<open>rpcmsg_iobuf_t\<close>: two
  message tables and four rings).

  A queue handle (\<open>rpcmsg_event_queue_t\<close>, \<open>rpcmsg_rpc_queue_t\<close>) holds two pointers
  into the shared memory; here they are indices. An event copies its message into the table
  slot of its ring entry. A request lends a table slot, found in the caller's bitmap, for the
  whole request-reply sequence, and only the slot number travels through the rings.
\<close>

subsection \<open>Shared memory and handles\<close>

record rpcmsg_iobuf =
  buffers :: "rpcmsg_buffer list"
  queues :: "rpcmsg_queue list"

record rpcmsg_queue_ref =
  buffer :: nat
  queue :: nat

type_synonym rpcmsg_event_queue = rpcmsg_queue_ref
type_synonym rpcmsg_rpc_queue = rpcmsg_queue_ref

definition load_queue :: "rpcmsg_iobuf \<Rightarrow> rpcmsg_queue_ref \<Rightarrow> (rpcmsg_queue \<times> rpcmsg_buffer) res" where
  "load_queue mem r =
     andthen (array_get (queues mem) (queue r)) (\<lambda>q.
     andthen (array_get (buffers mem) (buffer r)) (\<lambda>b. Inr (q, b)))"

definition store_queue ::
  "rpcmsg_iobuf \<Rightarrow> rpcmsg_queue_ref \<Rightarrow> rpcmsg_queue \<Rightarrow> rpcmsg_buffer \<Rightarrow> rpcmsg_iobuf" where
  "store_queue mem r q b =
     mem\<lparr>queues := (queues mem)[queue r := q], buffers := (buffers mem)[buffer r := b]\<rparr>"

definition RPCMSG_F_INIT_BUFFER :: int where "RPCMSG_F_INIT_BUFFER = 1"
definition RPCMSG_F_INIT_QUEUE :: int where "RPCMSG_F_INIT_QUEUE = 2"
definition RPCMSG_F_INIT_ALL :: int where "RPCMSG_F_INIT_ALL = NOT 0"

text \<open>\<open>_rpcmsg_queue_init(_ptr, _flags)\<close>\<close>

definition queue_init_flags :: "rpcmsg_iobuf \<Rightarrow> rpcmsg_queue_ref \<Rightarrow> int \<Rightarrow> rpcmsg_iobuf res" where
  "queue_init_flags mem r flags =
     andthen (load_queue mem r) (\<lambda>(q, b).
       let b = (if flags AND RPCMSG_F_INIT_BUFFER \<noteq> 0 then rpcmsg_buffer_init b else b);
           q = (if flags AND RPCMSG_F_INIT_QUEUE \<noteq> 0 then rpcmsg_queue_init q else q)
       in Inr (store_queue mem r q b))"

definition rpcmsg_call_queue_init :: "rpcmsg_iobuf \<Rightarrow> rpcmsg_rpc_queue \<Rightarrow> rpcmsg_iobuf res" where
  "rpcmsg_call_queue_init mem r = queue_init_flags mem r RPCMSG_F_INIT_ALL"

definition rpcmsg_recv_queue_init :: "rpcmsg_iobuf \<Rightarrow> rpcmsg_rpc_queue \<Rightarrow> rpcmsg_iobuf res" where
  "rpcmsg_recv_queue_init mem r = queue_init_flags mem r 0"

definition rpcmsg_fwd_queue_init :: "rpcmsg_iobuf \<Rightarrow> rpcmsg_rpc_queue \<Rightarrow> rpcmsg_iobuf res" where
  "rpcmsg_fwd_queue_init mem r = queue_init_flags mem r RPCMSG_F_INIT_QUEUE"

definition rpcmsg_reply_queue_init :: "rpcmsg_iobuf \<Rightarrow> rpcmsg_rpc_queue \<Rightarrow> rpcmsg_iobuf res" where
  "rpcmsg_reply_queue_init mem r = queue_init_flags mem r RPCMSG_F_INIT_QUEUE"

definition rpcmsg_event_txq_init :: "rpcmsg_iobuf \<Rightarrow> rpcmsg_event_queue \<Rightarrow> rpcmsg_iobuf res" where
  "rpcmsg_event_txq_init mem r = queue_init_flags mem r RPCMSG_F_INIT_ALL"

definition rpcmsg_event_rxq_init :: "rpcmsg_iobuf \<Rightarrow> rpcmsg_event_queue \<Rightarrow> rpcmsg_iobuf res" where
  "rpcmsg_event_rxq_init mem r = queue_init_flags mem r 0"

text \<open>
  \<open>_rpcmsg_queue(_ptr, _b, _q, _flags)\<close> and the handles built with it: the handle refers to table
  \<open>b\<close> and ring \<open>q\<close>, which the end that owns them resets.
\<close>

definition queue_setup :: "rpcmsg_iobuf \<Rightarrow> nat \<Rightarrow> nat \<Rightarrow> int \<Rightarrow> (rpcmsg_queue_ref \<times> rpcmsg_iobuf) res" where
  "queue_setup mem b q flags =
     (let r = \<lparr>buffer = b, queue = q\<rparr> in andthen (queue_init_flags mem r flags) (\<lambda>mem. Inr (r, mem)))"

definition rpcmsg_event_txq :: "rpcmsg_iobuf \<Rightarrow> nat \<Rightarrow> nat \<Rightarrow> (rpcmsg_event_queue \<times> rpcmsg_iobuf) res" where
  "rpcmsg_event_txq mem b q = queue_setup mem b q RPCMSG_F_INIT_ALL"

definition rpcmsg_event_rxq :: "rpcmsg_iobuf \<Rightarrow> nat \<Rightarrow> nat \<Rightarrow> (rpcmsg_event_queue \<times> rpcmsg_iobuf) res" where
  "rpcmsg_event_rxq mem b q = queue_setup mem b q 0"

definition rpcmsg_call_queue :: "rpcmsg_iobuf \<Rightarrow> nat \<Rightarrow> nat \<Rightarrow> (rpcmsg_rpc_queue \<times> rpcmsg_iobuf) res" where
  "rpcmsg_call_queue mem b q = queue_setup mem b q RPCMSG_F_INIT_ALL"

definition rpcmsg_recv_queue :: "rpcmsg_iobuf \<Rightarrow> nat \<Rightarrow> nat \<Rightarrow> (rpcmsg_rpc_queue \<times> rpcmsg_iobuf) res" where
  "rpcmsg_recv_queue mem b q = queue_setup mem b q 0"

definition rpcmsg_fwd_queue :: "rpcmsg_iobuf \<Rightarrow> nat \<Rightarrow> nat \<Rightarrow> (rpcmsg_rpc_queue \<times> rpcmsg_iobuf) res" where
  "rpcmsg_fwd_queue mem b q = queue_setup mem b q RPCMSG_F_INIT_QUEUE"

definition rpcmsg_reply_queue :: "rpcmsg_iobuf \<Rightarrow> nat \<Rightarrow> nat \<Rightarrow> (rpcmsg_rpc_queue \<times> rpcmsg_iobuf) res" where
  "rpcmsg_reply_queue mem b q = queue_setup mem b q RPCMSG_F_INIT_QUEUE"

text \<open>Reading and writing the message a pointer refers to.\<close>

definition read_msg :: "rpcmsg_buffer \<Rightarrow> rpcmsg_ptr \<Rightarrow> rpcmsg res" where
  "read_msg b p =
     (case p of
        None \<Rightarrow> Inl Null_deref
      | Some off \<Rightarrow> if off < 0 then Inl Out_of_bounds else array_get (messages b) (nat off))"

definition write_msg :: "rpcmsg_buffer \<Rightarrow> rpcmsg_ptr \<Rightarrow> rpcmsg \<Rightarrow> rpcmsg_buffer res" where
  "write_msg b p m =
     (case p of
        None \<Rightarrow> Inl Null_deref
      | Some off \<Rightarrow>
          if off < 0 then Inl Out_of_bounds
          else andthen (array_set (messages b) (nat off) m) (\<lambda>ms. Inr (b\<lparr>messages := ms\<rparr>)))"

subsection \<open>Events\<close>

definition rpcmsg_event_enqueue_fn :: "rpcmsg enqueue_elem_fn" where
  "rpcmsg_event_enqueue_fn q b ring_index data =
     andthen (rpcmsg_id_to_msg (ucast ring_index)) (\<lambda>msg.
     andthen (write_msg b msg data) (\<lambda>b.
     andthen (rpcmsg_msg_to_id msg) (\<lambda>i.
     andthen (array_set (ring q) (unat ring_index) i) (\<lambda>rg. Inr (q\<lparr>ring := rg\<rparr>, b)))))"

definition rpcmsg_event_tx ::
  "build \<Rightarrow> rpcmsg_event_queue \<Rightarrow> rpcmsg_iobuf \<Rightarrow> rpcmsg \<Rightarrow> (int \<times> rpcmsg_iobuf) res" where
  "rpcmsg_event_tx bd eq mem msg =
     andthen (load_queue mem eq) (\<lambda>(q, b).
     andthen (rpcmsg_enqueue bd rpcmsg_event_enqueue_fn q b msg) (\<lambda>(err, q, b).
       Inr (err, store_queue mem eq q b)))"

definition rpcmsg_event_dequeue_fn :: "rpcmsg dequeue_elem_fn" where
  "rpcmsg_event_dequeue_fn q b ring_index =
     andthen (array_get (ring q) (unat ring_index)) (\<lambda>i.
     andthen (rpcmsg_id_to_msg i) (\<lambda>msg. read_msg b msg))"

definition rpcmsg_event_rx ::
  "build \<Rightarrow> rpcmsg_event_queue \<Rightarrow> rpcmsg_iobuf \<Rightarrow> (int \<times> rpcmsg option \<times> rpcmsg_iobuf) res" where
  "rpcmsg_event_rx bd eq mem =
     andthen (load_queue mem eq) (\<lambda>(q, b).
     andthen (rpcmsg_dequeue bd rpcmsg_event_dequeue_fn q b) (\<lambda>(err, msg, q).
       Inr (err, msg, store_queue mem eq q b)))"

subsection \<open>Requests and replies\<close>

type_synonym rpcmsg_buffer_state = bitmap

definition rpcmsg_buffer_state_init :: "rpcmsg_buffer_state \<Rightarrow> rpcmsg_buffer_state" where
  "rpcmsg_buffer_state_init st = replicate (DECLARE_BITMAP RPCMSG_BUFFER_SIZE) 0"

definition rpcmsg_lend_buffer ::
  "rpcmsg_buffer_state \<Rightarrow> (rpcmsg_ptr \<times> rpcmsg_buffer_state) res" where
  "rpcmsg_lend_buffer st =
     andthen (find_first_zero_bit st RPCMSG_BUFFER_SIZE) (\<lambda>n.
       let i = (of_nat n :: u16) in
       if i \<ge> of_nat RPCMSG_BUFFER_SIZE then Inr (None, st)
       else
         andthen (bitmap_set_bit (unat i) st) (\<lambda>st.
         andthen (rpcmsg_id_to_msg i) (\<lambda>msg. Inr (msg, st))))"

definition rpcmsg_reclaim_buffer ::
  "rpcmsg_buffer_state \<Rightarrow> rpcmsg_ptr \<Rightarrow> rpcmsg_buffer_state res" where
  "rpcmsg_reclaim_buffer st msg =
     andthen (rpcmsg_msg_to_id msg) (\<lambda>i. bitmap_clear_bit (unat i) st)"

definition rpcmsg_rpc_enqueue_fn :: "rpcmsg_ptr enqueue_elem_fn" where
  "rpcmsg_rpc_enqueue_fn q b ring_index data =
     andthen (rpcmsg_msg_to_id data) (\<lambda>i.
     andthen (array_set (ring q) (unat ring_index) i) (\<lambda>rg. Inr (q\<lparr>ring := rg\<rparr>, b)))"

text \<open>\<open>rpcmsg_enqueue(rpc->queue, rpc->buffer, rpcmsg_rpc_enqueue_fn, msg)\<close>\<close>

definition rpc_enqueue ::
  "build \<Rightarrow> rpcmsg_rpc_queue \<Rightarrow> rpcmsg_iobuf \<Rightarrow> rpcmsg_ptr \<Rightarrow> (int \<times> rpcmsg_iobuf) res" where
  "rpc_enqueue bd rpc mem msg =
     andthen (load_queue mem rpc) (\<lambda>(q, b).
     asserting (msg \<noteq> None)
      (andthen (rpcmsg_enqueue bd rpcmsg_rpc_enqueue_fn q b msg) (\<lambda>(err, q, b).
        Inr (err, store_queue mem rpc q b))))"

definition rpcmsg_request ::
  "build \<Rightarrow> rpcmsg_rpc_queue \<Rightarrow> rpcmsg_buffer_state \<Rightarrow> rpcmsg_iobuf \<Rightarrow> rpcmsg
     \<Rightarrow> (int \<times> rpcmsg_buffer_state \<times> rpcmsg_iobuf) res" where
  "rpcmsg_request bd rpc st mem m =
     andthen (rpcmsg_lend_buffer st) (\<lambda>(msg, st).
     andthen (load_queue mem rpc) (\<lambda>(q, b).
     andthen (write_msg b msg m) (\<lambda>b.
     andthen (rpc_enqueue bd rpc (store_queue mem rpc q b) msg) (\<lambda>(err, mem).
       if err \<noteq> 0 then andthen (rpcmsg_reclaim_buffer st msg) (\<lambda>st. Inr (-1, st, mem))
       else andthen (rpcmsg_msg_to_id msg) (\<lambda>i. Inr (uint i, st, mem))))))"

definition rpcmsg_rpc_dequeue_fn :: "rpcmsg_ptr dequeue_elem_fn" where
  "rpcmsg_rpc_dequeue_fn q b ring_index =
     andthen (array_get (ring q) (unat ring_index)) (\<lambda>i. rpcmsg_id_to_msg i)"

text \<open>\<open>rpcmsg_dequeue(rpc->queue, rpc->buffer, rpcmsg_rpc_dequeue_fn, &msg)\<close>\<close>

definition rpc_dequeue ::
  "build \<Rightarrow> rpcmsg_rpc_queue \<Rightarrow> rpcmsg_iobuf
     \<Rightarrow> (int \<times> rpcmsg_ptr option \<times> rpcmsg_iobuf) res" where
  "rpc_dequeue bd rpc mem =
     andthen (load_queue mem rpc) (\<lambda>(q, b).
     andthen (rpcmsg_dequeue bd rpcmsg_rpc_dequeue_fn q b) (\<lambda>(err, msg, q).
       Inr (err, msg, store_queue mem rpc q b)))"

definition rpcmsg_receive ::
  "build \<Rightarrow> rpcmsg_rpc_queue \<Rightarrow> rpcmsg_iobuf \<Rightarrow> (rpcmsg_ptr \<times> rpcmsg_iobuf) res" where
  "rpcmsg_receive bd rpc mem =
     andthen (rpc_dequeue bd rpc mem) (\<lambda>(err, msg, mem).
       Inr (if err = 0 then (case msg of Some p \<Rightarrow> p | None \<Rightarrow> None) else None, mem))"

definition rpcmsg_reply ::
  "build \<Rightarrow> rpcmsg_rpc_queue \<Rightarrow> rpcmsg_iobuf \<Rightarrow> rpcmsg_ptr \<Rightarrow> (int \<times> rpcmsg_iobuf) res" where
  "rpcmsg_reply bd rpc mem msg = asserting (msg \<noteq> None) (rpc_enqueue bd rpc mem msg)"

text \<open>The transaction id, stored when there is a response.\<close>

definition rpcmsg_receive_response ::
  "build \<Rightarrow> rpcmsg_rpc_queue \<Rightarrow> rpcmsg_iobuf \<Rightarrow> (rpcmsg_ptr \<times> u16 option \<times> rpcmsg_iobuf) res" where
  "rpcmsg_receive_response bd rpc mem =
     andthen (rpc_dequeue bd rpc mem) (\<lambda>(err, msg, mem).
       let p = (case msg of Some p \<Rightarrow> p | None \<Rightarrow> None) in
       if err = 0
       then andthen (rpcmsg_msg_to_id p) (\<lambda>i. Inr (p, Some i, mem))
       else Inr (p, None, mem))"

definition rpcmsg_forward ::
  "build \<Rightarrow> rpcmsg_rpc_queue \<Rightarrow> rpcmsg_iobuf \<Rightarrow> rpcmsg_ptr \<Rightarrow> (int \<times> rpcmsg_iobuf) res" where
  "rpcmsg_forward bd rpc mem msg = asserting (msg \<noteq> None) (rpc_enqueue bd rpc mem msg)"

subsection \<open>The contents of a queue in shared memory\<close>

definition queue_at :: "rpcmsg_iobuf \<Rightarrow> rpcmsg_queue_ref \<Rightarrow> rpcmsg_queue" where
  "queue_at mem r = queues mem ! queue r"

definition buffer_at :: "rpcmsg_iobuf \<Rightarrow> rpcmsg_queue_ref \<Rightarrow> rpcmsg_buffer" where
  "buffer_at mem r = buffers mem ! buffer r"

definition ref_ok :: "rpcmsg_queue_ref \<Rightarrow> rpcmsg_iobuf \<Rightarrow> bool" where
  "ref_ok r mem \<longleftrightarrow> queue r < length (queues mem) \<and> buffer r < length (buffers mem) \<and>
     queue_ok (queue_at mem r) \<and> length (messages (buffer_at mem r)) = RPCMSG_BUFFER_SIZE"

text \<open>In an event ring every queued entry names its own slot.\<close>

definition event_ok :: "rpcmsg_event_queue \<Rightarrow> rpcmsg_iobuf \<Rightarrow> bool" where
  "event_ok r mem \<longleftrightarrow> ref_ok r mem \<and>
     (let q = queue_at mem r in
      \<forall>k < queue_len q. ring q ! queue_slot q k = of_nat (queue_slot q k))"

definition event_contents :: "rpcmsg_event_queue \<Rightarrow> rpcmsg_iobuf \<Rightarrow> rpcmsg list" where
  "event_contents r mem =
     map (\<lambda>i. messages (buffer_at mem r) ! unat i) (queue_ids (queue_at mem r))"

definition rpc_ok :: "rpcmsg_rpc_queue \<Rightarrow> rpcmsg_iobuf \<Rightarrow> bool" where
  "rpc_ok r mem \<longleftrightarrow> ref_ok r mem \<and> (\<forall>i \<in> set (queue_ids (queue_at mem r)). unat i < RPCMSG_BUFFER_SIZE)"

definition rpc_contents :: "rpcmsg_rpc_queue \<Rightarrow> rpcmsg_iobuf \<Rightarrow> rpcmsg_ptr list" where
  "rpc_contents r mem = map (\<lambda>i. Some (uint i)) (queue_ids (queue_at mem r))"

definition msg_ptr_ok :: "rpcmsg_ptr \<Rightarrow> bool" where
  "msg_ptr_ok p \<longleftrightarrow> (\<exists>i < RPCMSG_BUFFER_SIZE. p = Some (int i))"

lemma load_queue_ok: "ref_ok r mem \<Longrightarrow> load_queue mem r = Inr (queue_at mem r, buffer_at mem r)"
  by (simp add: load_queue_def ref_ok_def queue_at_def buffer_at_def)

lemma store_queue_at [simp]:
  assumes "ref_ok r mem"
  shows "queue_at (store_queue mem r q b) r = q" "buffer_at (store_queue mem r q b) r = b"
  using assms by (simp_all add: queue_at_def buffer_at_def store_queue_def ref_ok_def)

lemma store_queue_same [simp]: "store_queue mem r (queue_at mem r) (buffer_at mem r) = mem"
  by (simp add: store_queue_def queue_at_def buffer_at_def)

lemma store_queue_other:
  "queue r' \<noteq> queue r \<Longrightarrow> queue_at (store_queue mem r q b) r' = queue_at mem r'"
  "buffer r' \<noteq> buffer r \<Longrightarrow> buffer_at (store_queue mem r q b) r' = buffer_at mem r'"
  by (simp_all add: queue_at_def buffer_at_def store_queue_def)

lemma ref_ok_store:
  assumes "ref_ok r mem" "queue_ok q" "length (messages b) = RPCMSG_BUFFER_SIZE"
  shows "ref_ok r (store_queue mem r q b)"
  using assms
  by (simp add: ref_ok_def queue_at_def buffer_at_def store_queue_def)

subsection \<open>Element functions\<close>

lemma id_to_msg_ok [simp]:
  "unat i < RPCMSG_BUFFER_SIZE \<Longrightarrow> rpcmsg_id_to_msg i = Inr (Some (uint i))"
  by (simp add: rpcmsg_id_to_msg_def RPCMSG_BUFFER_SIZE_def word_less_nat_alt)

lemma msg_to_id_ok [simp]:
  "unat i < RPCMSG_BUFFER_SIZE \<Longrightarrow> rpcmsg_msg_to_id (Some (uint i)) = Inr i"
  by (simp add: rpcmsg_msg_to_id_def RPCMSG_BUFFER_SIZE_def word_less_nat_alt Let_def)

lemma msg_to_id_of_nat:
  "k < RPCMSG_BUFFER_SIZE \<Longrightarrow> rpcmsg_msg_to_id (Some (int k)) = Inr (of_nat k)"
  using msg_to_id_ok [of "of_nat k"]
  by (simp add: RPCMSG_BUFFER_SIZE_def unat_of_nat uint_nat)

lemma unat_of_slot: "k < RPCMSG_BUFFER_SIZE \<Longrightarrow> unat (of_nat k :: u16) = k"
  by (simp add: RPCMSG_BUFFER_SIZE_def unat_of_nat)

lemma uint_of_slot: "k < RPCMSG_BUFFER_SIZE \<Longrightarrow> uint (of_nat k :: u16) = int k"
  using unat_of_slot [of k] by (simp add: uint_nat)

lemma event_enqueue_fn_ok:
  assumes "unat x < RPCMSG_BUFFER_SIZE" "length (messages b) = RPCMSG_BUFFER_SIZE"
    "length (ring q) = RPCMSG_BUFFER_SIZE"
  shows "rpcmsg_event_enqueue_fn q b x m =
    Inr (q\<lparr>ring := (ring q)[unat x := of_nat (unat x)]\<rparr>, b\<lparr>messages := (messages b)[unat x := m]\<rparr>)"
proof -
  have x: "unat (ucast x :: u16) = unat x"
    using assms(1) by (simp add: unsigned_ucast_eq take_bit_nat_eq_self RPCMSG_BUFFER_SIZE_def)
  then show ?thesis
    using assms by (simp add: rpcmsg_event_enqueue_fn_def write_msg_def)
qed

lemma rpc_enqueue_fn_ok:
  assumes "k < RPCMSG_BUFFER_SIZE" "unat x < RPCMSG_BUFFER_SIZE" "length (ring q) = RPCMSG_BUFFER_SIZE"
  shows "rpcmsg_rpc_enqueue_fn q b x (Some (int k)) =
    Inr (q\<lparr>ring := (ring q)[unat x := of_nat k]\<rparr>, b)"
  using assms by (simp add: rpcmsg_rpc_enqueue_fn_def msg_to_id_of_nat)

lemma acquired_simps [simp]:
  "ring (acquired_prod q) = ring q" "ring (acquired_cons q) = ring q"
  by (simp_all add: acquired_prod_def acquired_cons_def)

lemma push_id_ring: "ring (push_id q i) = (ring q)[queue_slot q (queue_len q) := i]"
  by (simp add: push_id_def Let_def)

lemma pop_id_ring [simp]: "ring (pop_id q) = ring q"
  by (simp add: pop_id_def Let_def)

subsection \<open>Events are a bounded queue of messages\<close>

lemma event_tx_room:
  assumes ok: "event_ok r mem" and room: "queue_len (queue_at mem r) < RPCMSG_BUFFER_SIZE"
  defines "q \<equiv> queue_at mem r" and "b \<equiv> buffer_at mem r"
  defines "k \<equiv> queue_slot q (queue_len q)"
  shows "rpcmsg_event_tx bd r mem m =
    Inr (0, store_queue mem r (push_id q (of_nat k)) (b\<lparr>messages := (messages b)[k := m]\<rparr>))"
proof -
  from ok have r: "ref_ok r mem" by (simp add: event_ok_def)
  then have q: "queue_ok q" and len: "length (messages b) = RPCMSG_BUFFER_SIZE"
    "length (ring q) = RPCMSG_BUFFER_SIZE"
    by (simp_all add: ref_ok_def q_def b_def queue_ok_def)
  have slot: "unat (pos (tail (prod_b q)) AND RPCMSG_BUFFER_MASK) = k"
    using prod_slot [OF q] by (simp add: k_def)
  have "rpcmsg_enqueue bd rpcmsg_event_enqueue_fn q b m =
      Inr (0, push_id q (of_nat k), b\<lparr>messages := (messages b)[k := m]\<rparr>)"
  proof (rule rpcmsg_enqueue_room [OF q])
    show "queue_len q < RPCMSG_BUFFER_SIZE" using room by (simp add: q_def)
    show "rpcmsg_event_enqueue_fn (acquired_prod q) b
        (pos (tail (prod_b q)) AND RPCMSG_BUFFER_MASK) m =
      Inr (acquired_prod q\<lparr>ring := (ring q)[queue_slot q (queue_len q) := of_nat k]\<rparr>,
        b\<lparr>messages := (messages b)[k := m]\<rparr>)"
      using len slot k_def by (subst event_enqueue_fn_ok) simp_all
  qed
  with r show ?thesis
    by (simp add: rpcmsg_event_tx_def load_queue_ok q_def b_def)
qed

lemma event_ids:
  assumes "event_ok r mem" "j < queue_len (queue_at mem r)"
  shows "queue_ids (queue_at mem r) ! j = of_nat (queue_slot (queue_at mem r) j)"
  using assms by (simp add: event_ok_def queue_ids_def Let_def)

lemma event_contents_nth:
  assumes "event_ok r mem"
  shows "event_contents r mem =
    map (\<lambda>j. messages (buffer_at mem r) ! queue_slot (queue_at mem r) j) [0..<queue_len (queue_at mem r)]"
  using event_ids [OF assms]
  by (intro nth_equalityI) (simp_all add: event_contents_def unat_of_slot)

lemma event_tx_room_state:
  assumes ok: "event_ok r mem" and room: "queue_len (queue_at mem r) < RPCMSG_BUFFER_SIZE"
  shows "\<exists>mem'. rpcmsg_event_tx bd r mem m = Inr (0, mem') \<and> event_ok r mem' \<and>
           event_contents r mem' = event_contents r mem @ [m]"
proof -
  let ?q = "queue_at mem r" and ?b = "buffer_at mem r"
  let ?k = "queue_slot ?q (queue_len ?q)"
  let ?mem = "store_queue mem r (push_id ?q (of_nat ?k)) (?b\<lparr>messages := (messages ?b)[?k := m]\<rparr>)"
  from ok have r: "ref_ok r mem" by (simp add: event_ok_def)
  then have q: "queue_ok ?q" and len: "length (messages ?b) = RPCMSG_BUFFER_SIZE"
    "length (ring ?q) = RPCMSG_BUFFER_SIZE"
    by (simp_all add: ref_ok_def queue_ok_def)
  have at: "queue_at ?mem r = push_id ?q (of_nat ?k)"
    "buffer_at ?mem r = ?b\<lparr>messages := (messages ?b)[?k := m]\<rparr>"
    using r by simp_all
  have slots: "ring ?q ! queue_slot ?q j = of_nat (queue_slot ?q j)" if "j < queue_len ?q" for j
    using ok that by (simp add: event_ok_def Let_def)
  have new: "event_ok r ?mem"
    using r q len room slots unfolding event_ok_def Let_def at
    by (auto simp: ref_ok_store queue_ok_push_id queue_len_push_id push_id_ring
        queue_slot_inject nth_list_update less_Suc_eq)
  have "event_contents r ?mem = event_contents r mem @ [m]"
    unfolding event_contents_nth [OF new] event_contents_nth [OF ok] at
    using q room len by (auto simp: queue_len_push_id queue_slot_inject nth_list_update)
  with new event_tx_room [OF ok room, of bd m] show ?thesis by auto
qed

lemma event_rx_state:
  assumes ok: "event_ok r mem" and c: "event_contents r mem = m # ms"
  shows "\<exists>mem'. rpcmsg_event_rx bd r mem = Inr (0, Some m, mem') \<and> event_ok r mem' \<and>
           event_contents r mem' = ms"
proof -
  let ?q = "queue_at mem r" and ?b = "buffer_at mem r"
  let ?mem = "store_queue mem r (pop_id ?q) ?b"
  from ok have r: "ref_ok r mem" by (simp add: event_ok_def)
  then have q: "queue_ok ?q" and len: "length (messages ?b) = RPCMSG_BUFFER_SIZE"
    "length (ring ?q) = RPCMSG_BUFFER_SIZE"
    by (simp_all add: ref_ok_def queue_ok_def)
  from c have pos: "queue_len ?q > 0" by (cases "queue_len ?q") (auto simp: event_contents_def queue_ids_def)
  then have ids: "queue_ids ?q = ring ?q ! queue_slot ?q 0 # queue_ids (pop_id ?q)"
    by (rule queue_ids_pop_id [OF q])
  have first: "ring ?q ! queue_slot ?q 0 = of_nat (queue_slot ?q 0)"
    using ok pos by (simp add: event_ok_def Let_def)
  have "rpcmsg_event_dequeue_fn (acquired_cons ?q) ?b
      (pos (tail (cons_b ?q)) AND RPCMSG_BUFFER_MASK) = Inr (messages ?b ! queue_slot ?q 0)"
    using len first
    by (simp add: rpcmsg_event_dequeue_fn_def cons_slot [OF q] unat_of_slot read_msg_def uint_nat)
  then have "rpcmsg_dequeue bd rpcmsg_event_dequeue_fn ?q ?b =
      Inr (0, Some (messages ?b ! queue_slot ?q 0), pop_id ?q)"
    by (rule rpcmsg_dequeue_nonempty [OF q pos])
  moreover have "m = messages ?b ! queue_slot ?q 0"
    "ms = map (\<lambda>i. messages ?b ! unat i) (queue_ids (pop_id ?q))"
    using c first by (simp_all add: event_contents_def ids unat_of_slot)
  moreover have "event_ok r ?mem"
    using r ok pos queue_ok_pop_id [OF q pos]
    by (simp add: event_ok_def ref_ok_store Let_def queue_len_pop_id [OF q pos] queue_slot_pop_id [OF q] len)
  moreover have "event_contents r ?mem = map (\<lambda>i. messages ?b ! unat i) (queue_ids (pop_id ?q))"
    using r by (simp add: event_contents_def)
  ultimately show ?thesis
    using r by (simp add: rpcmsg_event_rx_def load_queue_ok)
qed

lemma event_ok_len:
  assumes "event_ok r mem"
  shows "length (event_contents r mem) = queue_len (queue_at mem r)"
    "queue_len (queue_at mem r) \<le> RPCMSG_BUFFER_SIZE"
  using assms by (simp_all add: event_contents_def event_ok_def ref_ok_def queue_ok_def)

interpretation events: bounded_fifo "\<lambda>mem m. rpcmsg_event_tx bd r mem m"
  "rpcmsg_event_rx bd r" "event_contents r" "event_ok r" "\<lambda>_. True"
  for bd :: build and r :: rpcmsg_event_queue
proof unfold_locales
  fix mem m ms
  assume ok: "event_ok r mem"
  then have r: "ref_ok r mem" and q: "queue_ok (queue_at mem r)"
    by (simp_all add: event_ok_def ref_ok_def)
  show "length (event_contents r mem) \<le> RPCMSG_BUFFER_SIZE"
    using event_ok_len [OF ok] by simp
  show "\<exists>s'. rpcmsg_event_tx bd r mem m = Inr (0, s') \<and> event_ok r s' \<and>
      event_contents r s' = event_contents r mem @ [m]"
    if "length (event_contents r mem) < RPCMSG_BUFFER_SIZE"
    using event_tx_room_state [OF ok] that event_ok_len [OF ok] by simp
  show "rpcmsg_event_tx bd r mem m = Inr (-1, mem)"
    if "length (event_contents r mem) = RPCMSG_BUFFER_SIZE"
    using that event_ok_len [OF ok]
    by (simp add: rpcmsg_event_tx_def load_queue_ok [OF r] rpcmsg_enqueue_full [OF q])
  show "\<exists>s'. rpcmsg_event_rx bd r mem = Inr (0, Some m, s') \<and> event_ok r s' \<and>
      event_contents r s' = ms" if "event_contents r mem = m # ms"
    using event_rx_state [OF ok that] .
  show "rpcmsg_event_rx bd r mem = Inr (-1, None, mem)" if "event_contents r mem = []"
    using that event_ok_len [OF ok]
    by (simp add: rpcmsg_event_rx_def load_queue_ok [OF r] rpcmsg_dequeue_empty [OF q])
qed

subsection \<open>Requests and replies are a bounded queue of message pointers\<close>

lemma rpc_enqueue_room:
  assumes ok: "rpc_ok r mem" and room: "queue_len (queue_at mem r) < RPCMSG_BUFFER_SIZE"
    and k: "k < RPCMSG_BUFFER_SIZE"
  shows "rpc_enqueue bd r mem (Some (int k)) =
     Inr (0, store_queue mem r (push_id (queue_at mem r) (of_nat k)) (buffer_at mem r))"
proof -
  let ?q = "queue_at mem r" and ?b = "buffer_at mem r"
  from ok have r: "ref_ok r mem" by (simp add: rpc_ok_def)
  then have q: "queue_ok ?q" and len: "length (ring ?q) = RPCMSG_BUFFER_SIZE"
    by (simp_all add: ref_ok_def queue_ok_def)
  have "rpcmsg_enqueue bd rpcmsg_rpc_enqueue_fn ?q ?b (Some (int k)) = Inr (0, push_id ?q (of_nat k), ?b)"
  proof (rule rpcmsg_enqueue_room [OF q room])
    show "rpcmsg_rpc_enqueue_fn (acquired_prod ?q) ?b
        (pos (tail (prod_b ?q)) AND RPCMSG_BUFFER_MASK) (Some (int k)) =
      Inr (acquired_prod ?q\<lparr>ring := (ring ?q)[queue_slot ?q (queue_len ?q) := of_nat k]\<rparr>, ?b)"
      using len k prod_slot [OF q] by (subst rpc_enqueue_fn_ok) simp_all
  qed
  with r show ?thesis by (simp add: rpc_enqueue_def load_queue_ok)
qed

lemma rpc_contents_push:
  assumes "rpc_ok r mem" "queue_len (queue_at mem r) < RPCMSG_BUFFER_SIZE" "k < RPCMSG_BUFFER_SIZE"
    "length (messages b) = RPCMSG_BUFFER_SIZE"
  defines "mem' \<equiv> store_queue mem r (push_id (queue_at mem r) (of_nat k)) b"
  shows "rpc_ok r mem'" "rpc_contents r mem' = rpc_contents r mem @ [Some (int k)]"
proof -
  from assms(1) have r: "ref_ok r mem" and q: "queue_ok (queue_at mem r)"
    by (simp_all add: rpc_ok_def ref_ok_def)
  have at: "queue_at mem' r = push_id (queue_at mem r) (of_nat k)"
    using r by (simp add: mem'_def)
  show "rpc_ok r mem'"
    unfolding rpc_ok_def at
    using assms(1-4) r q
    by (auto simp: mem'_def ref_ok_store queue_ok_push_id queue_ids_push_id rpc_ok_def unat_of_slot)
  show "rpc_contents r mem' = rpc_contents r mem @ [Some (int k)]"
    using uint_of_slot [OF assms(3)] unfolding rpc_contents_def at using assms(2) q by (simp add: queue_ids_push_id)
qed

lemma rpc_dequeue_state:
  assumes ok: "rpc_ok r mem" and c: "rpc_contents r mem = p # ps"
  defines "mem' \<equiv> store_queue mem r (pop_id (queue_at mem r)) (buffer_at mem r)"
  shows "rpc_dequeue bd r mem = Inr (0, Some p, mem')" "rpc_ok r mem'" "rpc_contents r mem' = ps"
    "msg_ptr_ok p"
proof -
  let ?q = "queue_at mem r" and ?b = "buffer_at mem r"
  from ok have r: "ref_ok r mem" by (simp add: rpc_ok_def)
  then have q: "queue_ok ?q" and len: "length (messages ?b) = RPCMSG_BUFFER_SIZE"
    "length (ring ?q) = RPCMSG_BUFFER_SIZE"
    by (simp_all add: ref_ok_def queue_ok_def)
  from c have pos: "queue_len ?q > 0" by (cases "queue_len ?q") (auto simp: rpc_contents_def queue_ids_def)
  note ids = queue_ids_pop_id [OF q pos]
  let ?i = "ring ?q ! queue_slot ?q 0"
  from ok have i: "unat ?i < RPCMSG_BUFFER_SIZE" by (simp add: rpc_ok_def ids)
  have "rpcmsg_rpc_dequeue_fn (acquired_cons ?q) ?b
      (pos (tail (cons_b ?q)) AND RPCMSG_BUFFER_MASK) = Inr (Some (uint ?i))"
    using len i by (simp add: rpcmsg_rpc_dequeue_fn_def cons_slot [OF q])
  from rpcmsg_dequeue_nonempty [where fn = rpcmsg_rpc_dequeue_fn, OF q pos this] c r
  show "rpc_dequeue bd r mem = Inr (0, Some p, mem')"
    by (simp add: rpc_dequeue_def load_queue_ok rpc_contents_def ids mem'_def)
  show "rpc_ok r mem'"
    using r ok ids len queue_ok_pop_id [OF q pos] by (simp add: rpc_ok_def mem'_def ref_ok_store)
  show "rpc_contents r mem' = ps"
    using r c by (simp add: rpc_contents_def ids mem'_def)
  from c have "p = Some (int (unat ?i))" by (simp add: rpc_contents_def ids)
  with i show "msg_ptr_ok p" unfolding msg_ptr_ok_def by blast
qed

lemma rpc_ok_len:
  assumes "rpc_ok r mem"
  shows "length (rpc_contents r mem) = queue_len (queue_at mem r)"
    "queue_len (queue_at mem r) \<le> RPCMSG_BUFFER_SIZE"
  using assms by (simp_all add: rpc_contents_def rpc_ok_def ref_ok_def queue_ok_def)

lemma rpc_enqueue_full:
  assumes "rpc_ok r mem" "length (rpc_contents r mem) = RPCMSG_BUFFER_SIZE" "msg \<noteq> None"
  shows "rpc_enqueue bd r mem msg = Inr (-1, mem)"
  using assms rpc_ok_len [of r mem]
  by (simp add: rpc_enqueue_def rpc_ok_def load_queue_ok ref_ok_def rpcmsg_enqueue_full)

lemma rpc_dequeue_empty:
  assumes "rpc_ok r mem" "rpc_contents r mem = []"
  shows "rpc_dequeue bd r mem = Inr (-1, None, mem)"
  using assms rpc_ok_len [of r mem]
  by (simp add: rpc_dequeue_def rpc_ok_def load_queue_ok ref_ok_def rpcmsg_dequeue_empty)

interpretation rpcs: bounded_fifo "\<lambda>mem off. rpcmsg_reply bd r mem (Some off)"
  "\<lambda>mem. andthen (rpc_dequeue bd r mem) (\<lambda>(err, p, mem). Inr (err, Option.bind p id, mem))"
  "\<lambda>mem. map the (rpc_contents r mem)" "rpc_ok r" "\<lambda>off. msg_ptr_ok (Some off)"
  for bd :: build and r :: rpcmsg_rpc_queue
proof unfold_locales
  fix mem off ms
  assume ok: "rpc_ok r mem"
  note len = rpc_ok_len [OF ok]
  from ok have b: "length (messages (buffer_at mem r)) = RPCMSG_BUFFER_SIZE"
    by (simp add: rpc_ok_def ref_ok_def)
  show "length (map the (rpc_contents r mem)) \<le> RPCMSG_BUFFER_SIZE" using len by simp
  show "\<exists>s'. rpcmsg_reply bd r mem (Some off) = Inr (0, s') \<and> rpc_ok r s' \<and>
      map the (rpc_contents r s') = map the (rpc_contents r mem) @ [off]"
    if o: "msg_ptr_ok (Some off)" and l: "length (map the (rpc_contents r mem)) < RPCMSG_BUFFER_SIZE"
  proof -
    from o obtain k where k: "off = int k" "k < RPCMSG_BUFFER_SIZE" by (auto simp: msg_ptr_ok_def)
    from l len have room: "queue_len (queue_at mem r) < RPCMSG_BUFFER_SIZE" by simp
    from rpc_enqueue_room [OF ok room k(2), of bd] rpc_contents_push [OF ok room k(2) b] k(1)
    show ?thesis by (simp add: rpcmsg_reply_def)
  qed
  show "rpcmsg_reply bd r mem (Some off) = Inr (-1, mem)"
    if "length (map the (rpc_contents r mem)) = RPCMSG_BUFFER_SIZE"
    using that rpc_enqueue_full [OF ok] by (simp add: rpcmsg_reply_def)
  show "\<exists>s'. andthen (rpc_dequeue bd r mem) (\<lambda>(err, p, mem). Inr (err, Option.bind p id, mem)) =
      Inr (0, Some off, s') \<and> rpc_ok r s' \<and> map the (rpc_contents r s') = ms"
    if c: "map the (rpc_contents r mem) = off # ms"
  proof -
    from c obtain p ps where ps: "rpc_contents r mem = p # ps" "the p = off" "map the ps = ms"
      by auto
    note d = rpc_dequeue_state [OF ok ps(1)]
    from d(4) ps(2) have "p = Some off" by (auto simp: msg_ptr_ok_def)
    with d ps(3) show ?thesis by simp
  qed
  show "andthen (rpc_dequeue bd r mem) (\<lambda>(err, p, mem). Inr (err, Option.bind p id, mem)) =
      Inr (-1, None, mem)" if "map the (rpc_contents r mem) = []"
    using that rpc_dequeue_empty [OF ok] by simp
qed

subsection \<open>Lending message slots\<close>

definition all_slots :: "int set" where
  "all_slots = int ` {..<RPCMSG_BUFFER_SIZE}"

definition state_ok :: "rpcmsg_buffer_state \<Rightarrow> bool" where
  "state_ok st \<longleftrightarrow> length st = DECLARE_BITMAP RPCMSG_BUFFER_SIZE"

definition lent :: "rpcmsg_buffer_state \<Rightarrow> int set" where
  "lent st = int ` {k. k < RPCMSG_BUFFER_SIZE \<and> bitmap_test st k}"

lemma slots_simps: "DECLARE_BITMAP RPCMSG_BUFFER_SIZE = 1"
  by (simp add: DECLARE_BITMAP_def RPCMSG_BUFFER_SIZE_def n_bits_def)

lemma state_ok_size: "state_ok st \<Longrightarrow> RPCMSG_BUFFER_SIZE \<le> length st * n_bits"
  by (simp add: state_ok_def slots_simps) (simp add: RPCMSG_BUFFER_SIZE_def n_bits_def)

lemma lent_iff [simp]: "int k \<in> lent st \<longleftrightarrow> k < RPCMSG_BUFFER_SIZE \<and> bitmap_test st k"
  by (auto simp: lent_def)

lemma lent_all_iff: "lent st = all_slots \<longleftrightarrow> (\<forall>k < RPCMSG_BUFFER_SIZE. bitmap_test st k)"
  unfolding lent_def all_slots_def inj_image_eq_iff [OF inj_of_nat] by auto

lemma lend_buffer_cases:
  assumes ok: "state_ok st"
  shows "(lent st = all_slots \<and> rpcmsg_lend_buffer st = Inr (None, st)) \<or>
    (\<exists>k st'. k < RPCMSG_BUFFER_SIZE \<and> rpcmsg_lend_buffer st = Inr (Some (int k), st') \<and> state_ok st' \<and>
       int k \<notin> lent st \<and> lent st' = insert (int k) (lent st) \<and> (\<forall>j < k. int j \<in> lent st))"
proof -
  obtain n where n: "find_first_zero_bit st RPCMSG_BUFFER_SIZE = Inr n" "n \<le> RPCMSG_BUFFER_SIZE"
    "\<forall>j < n. bitmap_test st j" "n < RPCMSG_BUFFER_SIZE \<Longrightarrow> \<not> bitmap_test st n"
    using find_first_zero_bit_spec [OF state_ok_size [OF ok]] by blast
  have cmp: "(of_nat n :: u16) \<ge> of_nat RPCMSG_BUFFER_SIZE \<longleftrightarrow> n = RPCMSG_BUFFER_SIZE"
    using n(2) by (auto simp: word_le_nat_alt unat_of_nat RPCMSG_BUFFER_SIZE_def)
  show ?thesis
  proof (cases "n = RPCMSG_BUFFER_SIZE")
    case True
    with n cmp show ?thesis
      by (simp add: rpcmsg_lend_buffer_def lent_all_iff Let_def)
  next
    case False
    with n(2) have lt: "n < RPCMSG_BUFFER_SIZE" by simp
    obtain st' where st': "bitmap_set_bit n st = Inr st'" "length st' = length st"
      "\<And>j. j < length st * n_bits \<Longrightarrow> bitmap_test st' j \<longleftrightarrow> j = n \<or> bitmap_test st j"
      using bitmap_set_bit_test [of n st] lt state_ok_size [OF ok] by (metis less_le_trans)
    then have bits: "bitmap_test st' j \<longleftrightarrow> j = n \<or> bitmap_test st j" if "j < RPCMSG_BUFFER_SIZE" for j
      using that state_ok_size [OF ok] by simp
    have "lent st' = insert (int n) (lent st)"
      using lt by (auto simp: lent_def bits)
    moreover have "rpcmsg_lend_buffer st = Inr (Some (int n), st')"
      using n(1) cmp False lt st'(1)
      by (simp add: rpcmsg_lend_buffer_def Let_def unat_of_slot uint_nat)
    ultimately show ?thesis
      using n lt st'(2) ok by (intro disjI2 exI [of _ n] exI [of _ st']) (auto simp: state_ok_def)
  qed
qed

lemma reclaim_buffer_ok:
  assumes ok: "state_ok st" and k: "k < RPCMSG_BUFFER_SIZE"
  shows "\<exists>st'. rpcmsg_reclaim_buffer st (Some (int k)) = Inr st' \<and> state_ok st' \<and>
           lent st' = lent st - {int k}"
proof -
  obtain st' where st': "bitmap_clear_bit k st = Inr st'" "length st' = length st"
    "\<And>j. j < length st * n_bits \<Longrightarrow> bitmap_test st' j \<longleftrightarrow> j \<noteq> k \<and> bitmap_test st j"
    using bitmap_clear_bit_test [of k st] k state_ok_size [OF ok] by (metis less_le_trans)
  then have "bitmap_test st' j \<longleftrightarrow> j \<noteq> k \<and> bitmap_test st j" if "j < RPCMSG_BUFFER_SIZE" for j
    using that state_ok_size [OF ok] by simp
  then have "lent st' = lent st - {int k}" by (auto simp: lent_def)
  with st' ok k show ?thesis
    by (simp add: rpcmsg_reclaim_buffer_def msg_to_id_of_nat unat_of_slot state_ok_def)
qed

interpretation pool: slot_pool rpcmsg_lend_buffer "\<lambda>st off. rpcmsg_reclaim_buffer st (Some off)"
  lent state_ok all_slots
proof unfold_locales
  show "finite all_slots" by (simp add: all_slots_def)
  fix st k
  assume ok: "state_ok st"
  show "lent st \<subseteq> all_slots" by (auto simp: lent_def all_slots_def)
  show "\<exists>k st'. rpcmsg_lend_buffer st = Inr (Some k, st') \<and> state_ok st' \<and> k \<in> all_slots \<and>
      k \<notin> lent st \<and> lent st' = insert k (lent st)" if "lent st \<noteq> all_slots"
  proof -
    from that lend_buffer_cases [OF ok] obtain k st' where k: "k < RPCMSG_BUFFER_SIZE"
      and r: "rpcmsg_lend_buffer st = Inr (Some (int k), st')" "state_ok st'" "int k \<notin> lent st"
        "lent st' = insert (int k) (lent st)" by blast
    from k have "int k \<in> all_slots" by (simp add: all_slots_def)
    with r show ?thesis by blast
  qed
  show "rpcmsg_lend_buffer st = Inr (None, st)" if "lent st = all_slots"
    using lend_buffer_cases [OF ok] that by (auto simp: all_slots_def)
  show "\<exists>st'. rpcmsg_reclaim_buffer st (Some k) = Inr st' \<and> state_ok st' \<and> lent st' = lent st - {k}"
    if "k \<in> all_slots"
    using that reclaim_buffer_ok [OF ok] by (auto simp: all_slots_def)
qed

subsection \<open>Requests\<close>

lemma write_msg_ok:
  "k < length (messages b) \<Longrightarrow> write_msg b (Some (int k)) m = Inr (b\<lparr>messages := (messages b)[k := m]\<rparr>)"
  by (simp add: write_msg_def)

lemma rpc_ok_write:
  fixes k :: nat and m :: rpcmsg
  assumes "rpc_ok r mem"
  defines "mem1 \<equiv> store_queue mem r (queue_at mem r) ((buffer_at mem r)\<lparr>messages := (messages (buffer_at mem r))[k := m]\<rparr>)"
  shows "rpc_ok r mem1" "rpc_contents r mem1 = rpc_contents r mem"
    "queue_at mem1 r = queue_at mem r"
    "buffer_at mem1 r = (buffer_at mem r)\<lparr>messages := (messages (buffer_at mem r))[k := m]\<rparr>"
  using assms ref_ok_store [of r mem "queue_at mem r"]
  by (simp_all add: rpc_ok_def rpc_contents_def ref_ok_def)

text \<open>The message table after writing message \<open>k\<close>.\<close>

abbreviation with_msg :: "rpcmsg_buffer \<Rightarrow> nat \<Rightarrow> rpcmsg \<Rightarrow> rpcmsg_buffer" where
  "with_msg b k m \<equiv> b\<lparr>messages := (messages b)[k := m]\<rparr>"

lemma request_sent_at:
  assumes st: "state_ok st" and ok: "rpc_ok r mem" and free: "lent st \<noteq> all_slots"
    and room: "length (rpc_contents r mem) < RPCMSG_BUFFER_SIZE"
  shows "\<exists>k st'. k < RPCMSG_BUFFER_SIZE \<and> rpcmsg_request bd r st mem m =
      Inr (int k, st', store_queue mem r (push_id (queue_at mem r) (of_nat k)) (with_msg (buffer_at mem r) k m)) \<and>
    state_ok st' \<and> int k \<notin> lent st \<and> lent st' = insert (int k) (lent st)"
proof -
  from free lend_buffer_cases [OF st] obtain k st' where k: "k < RPCMSG_BUFFER_SIZE"
    and l: "rpcmsg_lend_buffer st = Inr (Some (int k), st')" "state_ok st'" "int k \<notin> lent st"
      "lent st' = insert (int k) (lent st)" by blast
  let ?b = "with_msg (buffer_at mem r) k m"
  let ?mem1 = "store_queue mem r (queue_at mem r) ?b"
  from ok have r: "ref_ok r mem" and len: "length (messages (buffer_at mem r)) = RPCMSG_BUFFER_SIZE"
    by (simp_all add: rpc_ok_def ref_ok_def)
  note w = rpc_ok_write [OF ok, of k m]
  have room': "queue_len (queue_at ?mem1 r) < RPCMSG_BUFFER_SIZE"
    using room rpc_ok_len [OF ok] w(3) by simp
  have "rpcmsg_request bd r st mem m = Inr (int k, st', store_queue ?mem1 r (push_id (queue_at mem r) (of_nat k)) ?b)"
    using k len rpc_enqueue_room [OF w(1) room' k, of bd] w(3,4)
    by (simp add: rpcmsg_request_def l load_queue_ok [OF r] write_msg_ok msg_to_id_of_nat uint_of_slot)
  with k l show ?thesis by (auto simp: store_queue_def)
qed

lemma request_sent:
  assumes st: "state_ok st" and ok: "rpc_ok r mem" and free: "lent st \<noteq> all_slots"
    and room: "length (rpc_contents r mem) < RPCMSG_BUFFER_SIZE"
  shows "\<exists>k st' mem'. k < RPCMSG_BUFFER_SIZE \<and> rpcmsg_request bd r st mem m = Inr (int k, st', mem') \<and>
    state_ok st' \<and> int k \<notin> lent st \<and> lent st' = insert (int k) (lent st) \<and> rpc_ok r mem' \<and>
    rpc_contents r mem' = rpc_contents r mem @ [Some (int k)] \<and>
    buffer_at mem' r = with_msg (buffer_at mem r) k m"
proof -
  obtain k st' where k: "k < RPCMSG_BUFFER_SIZE" "rpcmsg_request bd r st mem m =
      Inr (int k, st', store_queue mem r (push_id (queue_at mem r) (of_nat k)) (with_msg (buffer_at mem r) k m))"
    "state_ok st'" "int k \<notin> lent st" "lent st' = insert (int k) (lent st)"
    using request_sent_at [OF assms, of bd m] by blast
  moreover have "queue_len (queue_at mem r) < RPCMSG_BUFFER_SIZE" "ref_ok r mem"
    "length (messages (with_msg (buffer_at mem r) k m)) = RPCMSG_BUFFER_SIZE"
    using room rpc_ok_len [OF ok] ok by (simp_all add: rpc_ok_def ref_ok_def)
  ultimately show ?thesis
    using rpc_contents_push [OF ok _ k(1), of "with_msg (buffer_at mem r) k m"] by auto
qed

lemma request_queue_full_at:
  assumes st: "state_ok st" and ok: "rpc_ok r mem" and free: "lent st \<noteq> all_slots"
    and full: "length (rpc_contents r mem) = RPCMSG_BUFFER_SIZE"
  shows "\<exists>k st'. k < RPCMSG_BUFFER_SIZE \<and> int k \<notin> lent st \<and> rpcmsg_request bd r st mem m =
      Inr (-1, st', store_queue mem r (queue_at mem r) (with_msg (buffer_at mem r) k m)) \<and>
    state_ok st' \<and> lent st' = lent st"
proof -
  from free lend_buffer_cases [OF st] obtain k st1 where k: "k < RPCMSG_BUFFER_SIZE"
    and l: "rpcmsg_lend_buffer st = Inr (Some (int k), st1)" "state_ok st1" "int k \<notin> lent st"
      "lent st1 = insert (int k) (lent st)" by blast
  from reclaim_buffer_ok [OF l(2) k] l(3,4) obtain st'
    where st': "rpcmsg_reclaim_buffer st1 (Some (int k)) = Inr st'" "state_ok st'" "lent st' = lent st"
    by auto
  from ok have r: "ref_ok r mem" and len: "length (messages (buffer_at mem r)) = RPCMSG_BUFFER_SIZE"
    by (simp_all add: rpc_ok_def ref_ok_def)
  note w = rpc_ok_write [OF ok, of k m]
  have "rpc_enqueue bd r (store_queue mem r (queue_at mem r) (with_msg (buffer_at mem r) k m)) (Some (int k)) =
    Inr (-1, store_queue mem r (queue_at mem r) (with_msg (buffer_at mem r) k m))"
    using w full by (intro rpc_enqueue_full) auto
  then have "rpcmsg_request bd r st mem m =
      Inr (-1, st', store_queue mem r (queue_at mem r) (with_msg (buffer_at mem r) k m))"
    using k len st' by (simp add: rpcmsg_request_def l load_queue_ok [OF r] write_msg_ok)
  with k l(3) st' show ?thesis by blast
qed

lemma request_queue_full:
  assumes "state_ok st" "rpc_ok r mem" "lent st \<noteq> all_slots"
    and "length (rpc_contents r mem) = RPCMSG_BUFFER_SIZE"
  shows "\<exists>st' mem'. rpcmsg_request bd r st mem m = Inr (-1, st', mem') \<and> state_ok st' \<and>
    lent st' = lent st \<and> rpc_ok r mem' \<and> rpc_contents r mem' = rpc_contents r mem"
  using request_queue_full_at [OF assms, of bd m] rpc_ok_write [OF assms(2)] by blast

text \<open>A queue is not touched by an operation on another queue, whether or not they share the table.\<close>

lemma rpc_frame:
  assumes "rpc_ok r' mem" "queue r' \<noteq> queue r" "length (messages b) = RPCMSG_BUFFER_SIZE"
  shows "rpc_ok r' (store_queue mem r q b)" "rpc_contents r' (store_queue mem r q b) = rpc_contents r' mem"
  using assms
  by (auto simp: rpc_ok_def ref_ok_def rpc_contents_def store_queue_other(1))
    (cases "buffer r' = buffer r"; simp add: store_queue_def buffer_at_def)+

lemma other_queue:
  assumes "queue r \<noteq> queue e" "buffer r \<noteq> buffer e"
  shows "event_ok e (store_queue mem r q b) = event_ok e mem" "event_contents e (store_queue mem r q b) = event_contents e mem"
    "rpc_ok e (store_queue mem r q b) = rpc_ok e mem" "rpc_contents e (store_queue mem r q b) = rpc_contents e mem"
  using assms
  by (simp_all add: event_ok_def event_contents_def rpc_ok_def rpc_contents_def ref_ok_def store_queue_other)
    (simp_all add: store_queue_def)

lemma request_exhausted:
  assumes "state_ok st" "lent st = all_slots" "ref_ok r mem"
  shows "rpcmsg_request bd r st mem m = Inl Null_deref"
  using assms pool.lend_exhausted [of st]
  by (simp add: rpcmsg_request_def load_queue_ok write_msg_def)

subsection \<open>Receiving\<close>

lemma rpcmsg_receive_cases:
  assumes "rpc_ok r mem"
  shows "rpcmsg_receive bd r mem =
    (case rpc_contents r mem of
       [] \<Rightarrow> Inr (None, mem)
     | p # ps \<Rightarrow> Inr (p, store_queue mem r (pop_id (queue_at mem r)) (buffer_at mem r)))"
proof (cases "rpc_contents r mem")
  case Nil
  with rpc_dequeue_empty [OF assms this] show ?thesis by (simp add: rpcmsg_receive_def)
next
  case (Cons p ps)
  with rpc_dequeue_state(1) [OF assms this] show ?thesis by (simp add: rpcmsg_receive_def)
qed

lemma rpcmsg_receive_response_cases:
  assumes "rpc_ok r mem"
  shows "rpcmsg_receive_response bd r mem =
    (case rpc_contents r mem of
       [] \<Rightarrow> Inr (None, None, mem)
     | p # ps \<Rightarrow> Inr (p, Some (word_of_int (the p)),
                    store_queue mem r (pop_id (queue_at mem r)) (buffer_at mem r)))"
proof (cases "rpc_contents r mem")
  case Nil
  with rpc_dequeue_empty [OF assms this] show ?thesis by (simp add: rpcmsg_receive_response_def)
next
  case (Cons p ps)
  from rpc_dequeue_state(4) [OF assms this] obtain k where "p = Some (int k)" "k < RPCMSG_BUFFER_SIZE"
    by (auto simp: msg_ptr_ok_def)
  with Cons rpc_dequeue_state(1) [OF assms Cons] show ?thesis
    by (simp add: rpcmsg_receive_response_def msg_to_id_of_nat)
qed

end
