(* ===== verification/Rpc_Races.thy ===== *)
theory Rpc_Races
  imports Rpc_Concurrent Rpc_Messages
begin

text \<open>
  What the invariant of the shared queue gives for every interleaving of
  \<open>rpcmsg_enqueue\<close> and \<open>rpcmsg_dequeue\<close>: no two threads touch one ring slot at once, the
  counters stay within their windows, entries leave in the order they were acquired, and when no
  call is in progress the queue is the sequential queue of \<open>Rpc_Queue\<close> again. It also holds
  the link from the single-thread operations to the steps, and the one failure the interleaving
  shows: the commit loop of the kernel build.
\<close>

subsection \<open>Concrete runs\<close>

text \<open>A schedule names a thread; an idle thread makes the call that comes with it.\<close>

fun sched_step :: "(nat \<Rightarrow> build) \<Rightarrow> sys \<Rightarrow> nat \<times> side \<times> u16 \<Rightarrow> sys" where
  "sched_step build_of s (i, sd, d) =
     (if pc s i = Idle then goto i (Load sd d) s else thread_step (build_of i) i s (pc s i))"

definition schedule :: "(nat \<Rightarrow> build) \<Rightarrow> sys \<Rightarrow> (nat \<times> side \<times> u16) list \<Rightarrow> sys" where
  "schedule build_of s cs = foldl (sched_step build_of) s cs"

lemma sched_step_step: "sys_step build_of s (sched_step build_of s c)"
  by (cases c) (auto intro: sys_step.intros)

definition small :: "nat \<Rightarrow> sys \<Rightarrow> bool" where
  "small n s \<longleftrightarrow> (\<forall>sd. acq s sd \<le> n \<and> com s sd \<le> n)"

lemma small_fresh: "small n s \<Longrightarrow> n < 2 ^ 32 \<Longrightarrow> fresh s"
  unfolding fresh_def
proof
  fix i assume "small n s" "n < 2 ^ 32"
  then have "acq s sd - a < 2 ^ 32" "com s sd - a < 2 ^ 32" for sd a
    unfolding small_def by (meson diff_le_self le_less_trans order_trans)+
  then show "fresh_thread s i (pc s i)" by (cases "pc s i") simp_all
qed

lemma small_thread_step: "small n s \<Longrightarrow> small (Suc n) (thread_step bd i s p)"
  by (cases p)
    (auto simp: small_def goto_def load_tail_def step_wait_def step_check_def step_cas_def step_access_def
      step_commit_cas_def Let_def le_SucI split: prod.split side.split)

lemma small_sched_step: "small n s \<Longrightarrow> small (Suc n) (sched_step build_of s c)"
  by (cases c) (auto simp: small_thread_step, auto simp: small_def goto_def le_SucI)

lemma schedule_reachable:
  assumes "length cs < 2 ^ 32"
  shows "reachable build_of (schedule build_of init_sys cs) \<and> small (length cs) (schedule build_of init_sys cs)"
  using assms
proof (induction cs rule: rev_induct)
  case Nil
  have "small 0 init_sys" by (simp add: small_def init_sys_def)
  then show ?case by (simp add: schedule_def reachable.start)
next
  case (snoc c cs)
  let ?s = "schedule build_of init_sys cs"
  from snoc have r: "reachable build_of ?s" and sm: "small (length cs) ?s" by simp_all
  have t: "schedule build_of init_sys (cs @ [c]) = sched_step build_of ?s c" by (simp add: schedule_def)
  have sm': "small (length (cs @ [c])) (sched_step build_of ?s c)"
    using small_sched_step [OF sm] by simp
  from small_fresh [OF this snoc.prems] have "fresh (sched_step build_of ?s c)" .
  with r sched_step_step sm' show ?case unfolding t by (blast intro: reachable.step)
qed

subsection \<open>Entries and slots\<close>

lemma holds_in_flight:
  assumes "sys_ok s" "holds sd (pc s i)"
  shows "ent s i \<in> in_flight s sd"
  using sys_okD(3) [OF assms(1), of i] assms(2) by (cases "pc s i") auto

lemma held_window:
  assumes ok: "sys_ok s" and "holds sd (pc s i)"
  shows "pub s Consumer \<le> ent s i" "ent s i < pub s Consumer + RPCMSG_BUFFER_SIZE"
proof -
  note D = sys_okD [OF ok]
  have s: "pub s sd' \<le> acq s sd'" for sd'
    using D(1) [of sd'] by (auto simp: side_ok_def)
  note b = in_flight_bounds [OF D(1) holds_in_flight [OF assms]]
  show "pub s Consumer \<le> ent s i" "ent s i < pub s Consumer + RPCMSG_BUFFER_SIZE"
    using b s [of Producer] s [of Consumer] D(2) by (cases sd; simp add: ring_ok_def)+
qed

lemma held_entries_differ:
  assumes ok: "sys_ok s" and i: "holds sd (pc s i)" and j: "holds sd' (pc s j)" and "i \<noteq> j"
  shows "ent s i \<noteq> ent s j"
proof (cases "sd = sd'")
  case True
  with i j \<open>i \<noteq> j\<close> sys_okD(4) [OF ok] show ?thesis unfolding exclusive_def by blast
next
  case False
  note D = sys_okD [OF ok] and b = in_flight_bounds [OF sys_okD(1) [OF ok] holds_in_flight [OF ok]]
  from b [OF i] b [OF j] D(2) False show ?thesis
    by (cases sd; cases sd') (auto simp: ring_ok_def)
qed

lemma held_slots_differ:
  assumes ok: "sys_ok s" and i: "holds sd (pc s i)" and j: "holds sd' (pc s j)" and "i \<noteq> j"
  shows "ent s i mod RPCMSG_BUFFER_SIZE \<noteq> ent s j mod RPCMSG_BUFFER_SIZE"
proof
  assume "ent s i mod RPCMSG_BUFFER_SIZE = ent s j mod RPCMSG_BUFFER_SIZE"
  then have "ent s i = ent s j"
    using held_window [OF ok i] held_window [OF ok j]
    by (elim mod_eq_in_window [where lo = "pub s Consumer"]) auto
  with held_entries_differ [OF assms] show False by contradiction
qed

subsection \<open>Every entry in flight belongs to a thread\<close>

definition owned :: "sys \<Rightarrow> bool" where
  "owned s \<longleftrightarrow> (\<forall>sd. \<forall>e \<in> in_flight s sd. \<exists>i. holds sd (pc s i) \<and> ent s i = e)"

lemma owned_same:
  assumes "owned s" "in_flight t = in_flight s" "ent t = ent s"
    "\<And>sd j. holds sd (pc t j) = holds sd (pc s j)"
  shows "owned t"
  using assms by (simp add: owned_def)

lemma owned_goto:
  assumes "owned s" "\<And>sd. holds sd p = holds sd (pc s i)"
  shows "owned (goto i p s)"
  by (rule owned_same [OF assms(1)]) (simp_all add: goto_def assms(2))

lemma owned_acquire:
  assumes "owned s" "\<And>sd. \<not> holds sd (pc s i)" "in_flight t = (in_flight s)(sd := insert e (in_flight s sd))"
    "ent t = (ent s)(i := e)" "pc t = (pc s)(i := p)" "holds sd p"
  shows "owned t"
  unfolding owned_def
proof (intro allI ballI)
  fix sd' x assume "x \<in> in_flight t sd'"
  then consider "sd' = sd" "x = e" | "x \<in> in_flight s sd'" using assms(3) by (auto split: if_splits)
  then show "\<exists>j. holds sd' (pc t j) \<and> ent t j = x"
  proof cases
    case 1
    with assms(4-6) show ?thesis by (intro exI [of _ i]) simp
  next
    case 2
    with assms(1) obtain j where "holds sd' (pc s j)" "ent s j = x" by (auto simp: owned_def)
    moreover from this assms(2) have "j \<noteq> i" by auto
    ultimately show ?thesis using assms(4,5) by (intro exI [of _ j]) simp
  qed
qed

lemma owned_release:
  assumes "owned s" "holds sd (pc s i)" "in_flight t = (in_flight s)(sd := in_flight s sd - {ent s i})"
    "ent t = ent s" "pc t = (pc s)(i := p)"
  shows "owned t"
  unfolding owned_def
proof (intro allI ballI)
  fix sd' x assume "x \<in> in_flight t sd'"
  then have x: "x \<in> in_flight s sd'" "sd' = sd \<Longrightarrow> x \<noteq> ent s i" using assms(3) by (auto split: if_splits)
  with assms(1) obtain j where j: "holds sd' (pc s j)" "ent s j = x" by (auto simp: owned_def)
  have "holds sd' (pc s i) \<Longrightarrow> sd' = sd" using assms(2) by (cases "pc s i") auto
  with x j have "j \<noteq> i" by auto
  with j assms(4,5) show "\<exists>j. holds sd' (pc t j) \<and> ent t j = x" by (intro exI [of _ j]) simp
qed

lemma owned_step_cas:
  assumes "owned s" "pc s i = Cas sd d ot"
  shows "owned (step_cas bd i sd d ot s)"
proof (cases "tail (bnd sd (shared s)) = ot")
  case True
  show ?thesis
    unfolding step_cas_def Let_def True
    by (rule owned_acquire [where i = i and sd = sd and e = "acq s sd" and p = "Access sd d (pos ot)", OF assms(1)])
      (simp_all add: goto_def assms(2))
next
  case False
  then show ?thesis
    unfolding step_cas_def Let_def atomic_compare_and_swap_def
    by (auto intro!: owned_same [OF assms(1)] simp: goto_def assms(2) split: if_splits)
qed

lemma owned_step_commit_cas:
  assumes "owned s" "pc s i = Commit_cas sd d oh t"
  shows "owned (step_commit_cas bd i sd d oh t s)"
proof (cases "head (bnd sd (shared s)) = oh")
  case True
  show ?thesis
    unfolding step_commit_cas_def Let_def True
    by (rule owned_release [OF assms(1), of sd i]) (simp_all add: goto_def assms(2))
next
  case False
  then show ?thesis
    unfolding step_commit_cas_def Let_def atomic_compare_and_swap_def
    by (auto intro!: owned_same [OF assms(1)] simp: goto_def assms(2) split: if_splits)
qed

lemma owned_thread_step:
  assumes "owned s"
  shows "owned (thread_step bd i s (pc s i))"
proof (cases "pc s i")
  case (Access sd d e)
  then show ?thesis
    by (auto intro!: owned_same [OF assms] simp: step_access_def Let_def goto_def split: side.split if_splits)
qed (auto intro!: owned_goto owned_same [OF assms] owned_step_cas owned_step_commit_cas assms
    simp: load_tail_def step_wait_def step_check_def goto_def split: if_splits)

lemma reachable_owned: "reachable build_of s \<Longrightarrow> owned s"
proof (induction rule: reachable.induct)
  case start
  show ?case by (simp add: owned_def init_sys_def)
next
  case (step s t)
  then show ?case by (auto elim!: sys_step.cases intro: owned_thread_step owned_goto)
qed

subsection \<open>No call in progress\<close>

definition quiescent :: "sys \<Rightarrow> bool" where
  "quiescent s \<longleftrightarrow> (\<forall>sd i. \<not> holds sd (pc s i))"

lemma writing_holds: "writing p \<Longrightarrow> holds Producer p"
  by (cases p rule: writing.cases) simp_all

lemma quiescent_published:
  assumes "sys_ok s" "owned s" "quiescent s"
  shows "pub s sd = acq s sd" "com s sd = acq s sd" "in_flight s sd = {}"
proof -
  show "in_flight s sd = {}" using assms(2,3) by (auto simp: owned_def quiescent_def)
  with sys_okD(1) [OF assms(1), of sd] show "pub s sd = acq s sd" "com s sd = acq s sd"
    by (auto simp: side_ok_def)
qed

lemma quiescent_bound:
  assumes "sys_ok s" "owned s" "quiescent s"
  shows "bnd sd (shared s) = \<lparr>tail = mk (acq s sd), head = mk (acq s sd)\<rparr>"
  using sys_okD(1) [OF assms(1), of sd] quiescent_published [OF assms, of sd]
  by (simp add: side_ok_def mk_def)

lemma quiescent_queue:
  assumes ok: "sys_ok s" and own: "owned s" and q: "quiescent s"
  shows "queue_ok (shared s)" "queue_ids (shared s) = map (log s) [acq s Consumer..<acq s Producer]"
proof -
  note D = sys_okD [OF ok] and Q = quiescent_published [OF ok own q]
    and B = quiescent_bound [OF ok own q]
  let ?c = "acq s Consumer" and ?p = "acq s Producer"
  have le: "?c \<le> ?p" "?p \<le> ?c + RPCMSG_BUFFER_SIZE" "length (ring (shared s)) = RPCMSG_BUFFER_SIZE"
    using D(2) Q(1) by (simp_all add: ring_ok_def)
  have b: "prod_b (shared s) = \<lparr>tail = mk ?p, head = mk ?p\<rparr>" "cons_b (shared s) = \<lparr>tail = mk ?c, head = mk ?c\<rparr>"
    using B [of Producer] B [of Consumer] by simp_all
  have len: "queue_len (shared s) = ?p - ?c"
    using le by (simp add: queue_len_def b unat_diff_of_nat RPCMSG_BUFFER_SIZE_def)
  with le show "queue_ok (shared s)" by (simp add: queue_ok_def b settled_def)
  have slot: "queue_slot (shared s) k = (?c + k) mod RPCMSG_BUFFER_SIZE" for k
    using mod_add_cong [OF u32_mod_32 [of ?c] refl, of k] by (simp add: queue_slot_def b RPCMSG_BUFFER_SIZE_def)
  have "\<not> writing (pc s i)" for i using q writing_holds unfolding quiescent_def by blast
  then have "ring (shared s) ! (e mod RPCMSG_BUFFER_SIZE) = log s e" if "?c \<le> e" "e < ?p" for e
    using D(5) that Q(1) by (auto simp: data_ok_def)
  then show "queue_ids (shared s) = map (log s) [?c..<?p]"
    unfolding queue_ids_def by (intro nth_equalityI) (simp_all add: len slot)
qed

lemma other_step_frame:
  assumes "j \<noteq> i"
  shows "pc (thread_step bd j s p) i = pc s i" "csnap (thread_step bd j s p) i = csnap s i"
    "com s sd \<le> com (thread_step bd j s p) sd"
  using assms by (cases p; auto simp: goto_def load_tail_def step_wait_def step_check_def step_cas_def step_access_def
      step_commit_cas_def Let_def split: prod.split side.split)+

lemma schedule_other:
  assumes "\<forall>c \<in> set cs. fst c \<noteq> i"
  shows "pc (schedule build_of s cs) i = pc s i"
  using assms
proof (induction cs arbitrary: s)
  case (Cons c cs)
  obtain j sd d where c: "c = (j, sd, d)" by (cases c)
  with Cons.prems have "j \<noteq> i" by simp
  then have "pc (sched_step build_of s c) i = pc s i"
    using other_step_frame(1) [of j i] by (simp add: c goto_def)
  with Cons show ?case by (simp add: schedule_def)
qed (simp add: schedule_def)

subsection \<open>A commit that lost a race in the kernel build\<close>

fun committing :: "pc \<Rightarrow> side option" where
  "committing (Commit_tail sd d oh) = Some sd"
| "committing (Commit_cas sd d oh t) = Some sd"
| "committing _ = None"

text \<open>A commit whose expected head is out of date.\<close>

definition stale_commit :: "nat \<Rightarrow> sys \<Rightarrow> bool" where
  "stale_commit i s \<longleftrightarrow> (\<exists>sd. committing (pc s i) = Some sd \<and> csnap s i < com s sd)"

lemma stale_head:
  assumes ok: "sys_ok s" and fresh: "fresh s" and pc: "pc s i = Commit_cas sd d oh t" and lt: "csnap s i < com s sd"
  shows "head (bnd sd (shared s)) \<noteq> oh"
proof
  assume eq: "head (bnd sd (shared s)) = oh"
  have "fresh_thread s i (pc s i)" using fresh by (auto simp: fresh_def)
  then have "com s sd - csnap s i < 2 ^ 32" unfolding pc fresh_thread.simps .
  moreover have "(of_nat (csnap s i) :: u32) = of_nat (com s sd)"
    using sys_okD(3) [OF ok, of i] pc eq head_is [OF sys_okD(1) [OF ok], of sd]
    by (metis rpcmsg_marker.select_convs(2) thread_ok.simps(7))
  ultimately have "csnap s i = com s sd"
    using word_of_nat_eq_iff_small [of "csnap s i" "com s sd", where 'l = 32] lt by simp
  with lt show False by simp
qed

lemma stale_own_step:
  assumes ok: "sys_ok s" and fresh: "fresh s" and st: "stale_commit i s"
  shows "stale_commit i (thread_step Linux_kernel i s (pc s i))"
proof (cases "pc s i")
  case (Commit_cas sd d oh t)
  with st have lt: "csnap s i < com s sd" by (auto simp: stale_commit_def)
  from stale_head [OF ok fresh Commit_cas lt] Commit_cas lt show ?thesis
    by (simp add: step_commit_cas_def atomic_compare_and_swap_def Let_def stale_commit_def goto_def)
qed (use st in \<open>auto simp: stale_commit_def goto_def\<close>)

lemma stale_other_step:
  assumes "j \<noteq> i" "stale_commit i s"
  shows "stale_commit i (thread_step bd j s p)"
  using assms(2) other_step_frame [OF assms(1), where bd = bd and s = s and p = p]
  unfolding stale_commit_def by (metis less_le_trans)

lemma stale_step:
  assumes ok: "sys_ok s" and fresh: "fresh s" and bd: "build_of i = Linux_kernel" and st: "stale_commit i s"
    and step: "sys_step build_of s t"
  shows "stale_commit i t"
  using step
proof cases
  case (call j sd d)
  have "j \<noteq> i" using st call(2) by (auto simp: stale_commit_def)
  with st call(1) show ?thesis by (simp add: stale_commit_def goto_def)
next
  case (run j)
  show ?thesis
  proof (cases "j = i")
    case True
    with stale_own_step [OF ok fresh st] run(1) bd show ?thesis by simp
  next
    case False
    with stale_other_step [OF False st] run(1) show ?thesis by simp
  qed
qed

text \<open>Runs that start in a given state.\<close>

inductive runs :: "(nat \<Rightarrow> build) \<Rightarrow> sys \<Rightarrow> sys \<Rightarrow> bool" for build_of s where
  runs_refl: "runs build_of s s"
| runs_step: "runs build_of s t \<Longrightarrow> sys_step build_of t u \<Longrightarrow> fresh u \<Longrightarrow> runs build_of s u"

lemma runs_reachable: "runs build_of s t \<Longrightarrow> reachable build_of s \<Longrightarrow> reachable build_of t"
  by (induction rule: runs.induct) (auto intro: reachable.step)

lemma schedule_runs:
  assumes "length (cs @ cs') < 2 ^ 32"
  shows "runs build_of (schedule build_of init_sys cs) (schedule build_of init_sys (cs @ cs'))"
  using assms
proof (induction cs' rule: rev_induct)
  case Nil
  show ?case by (simp add: runs_refl)
next
  case (snoc c cs')
  then have r: "runs build_of (schedule build_of init_sys cs) (schedule build_of init_sys (cs @ cs'))" by simp
  have "schedule build_of init_sys (cs @ cs' @ [c]) = sched_step build_of (schedule build_of init_sys (cs @ cs')) c"
    by (simp add: schedule_def)
  moreover have "fresh (schedule build_of init_sys (cs @ cs' @ [c]))"
    using schedule_reachable [of "cs @ cs' @ [c]" build_of] snoc.prems reachable_ok by blast
  ultimately show ?case using runs_step [OF r] sched_step_step by metis
qed

lemma stale_runs:
  assumes "runs build_of s t" "reachable build_of s" "build_of i = Linux_kernel" "stale_commit i s"
  shows "stale_commit i t"
  using assms
proof (induction rule: runs.induct)
  case (runs_step t u)
  then have "sys_ok t" "fresh t" using runs_reachable reachable_ok by blast+
  with runs_step show ?case by (blast intro: stale_step)
qed

subsection \<open>One thread alone\<close>

primrec solo :: "build \<Rightarrow> nat \<Rightarrow> nat \<Rightarrow> sys \<Rightarrow> sys" where
  "solo bd i 0 s = s"
| "solo bd i (Suc n) s = solo bd i n (thread_step bd i s (pc s i))"

lemma settled_no_wait: "settled b \<Longrightarrow> \<not> must_wait b (tail b)"
  by (simp add: settled_def must_wait_def)

lemma commit_marker_next: "commit_marker m (next_marker m) = next_marker m"
  by (simp add: commit_marker_def next_marker_def Let_def)

lemmas solo_step_defs = load_tail_def step_wait_def step_check_def step_cas_def step_access_def
  step_commit_cas_def goto_def Let_def eval_nat_numeral

lemma solo_producer:
  assumes q: "queue_ok (shared s)" and pc: "pc s i = Load Producer d"
  shows "queue_len (shared s) = RPCMSG_BUFFER_SIZE \<Longrightarrow>
      shared (solo bd i 3 s) = shared s \<and> pc (solo bd i 3 s) i = Done Producer d (-1)"
    and "queue_len (shared s) < RPCMSG_BUFFER_SIZE \<Longrightarrow>
      shared (solo bd i 8 s) = push_id (shared s) d \<and> pc (solo bd i 8 s) i = Done Producer d 0"
proof -
  have st: "settled (prod_b (shared s))" using q by (simp add: queue_ok_def)
  then have hd: "head (prod_b (shared s)) = tail (prod_b (shared s))" by (simp add: settled_def)
  note facts = pc queue_len_full [OF q] settled_no_wait [OF st]
  show "shared (solo bd i 3 s) = shared s \<and> pc (solo bd i 3 s) i = Done Producer d (-1)"
    if "queue_len (shared s) = RPCMSG_BUFFER_SIZE"
    using that facts by (simp add: solo_step_defs)
  show "shared (solo bd i 8 s) = push_id (shared s) d \<and> pc (solo bd i 8 s) i = Done Producer d 0"
    if "queue_len (shared s) < RPCMSG_BUFFER_SIZE"
    using that facts prod_slot [OF q] hd
    by (simp add: solo_step_defs push_id_def commit_marker_next)
qed

lemma solo_consumer:
  assumes q: "queue_ok (shared s)" and pc: "pc s i = Load Consumer d"
  shows "queue_len (shared s) = 0 \<Longrightarrow>
      shared (solo bd i 3 s) = shared s \<and> pc (solo bd i 3 s) i = Done Consumer d (-1)"
    and "queue_len (shared s) > 0 \<Longrightarrow> shared (solo bd i 8 s) = pop_id (shared s) \<and>
      pc (solo bd i 8 s) i = Done Consumer (ring (shared s) ! queue_slot (shared s) 0) 0"
proof -
  have st: "settled (cons_b (shared s))" using q by (simp add: queue_ok_def)
  then have hd: "head (cons_b (shared s)) = tail (cons_b (shared s))" by (simp add: settled_def)
  note facts = pc queue_len_empty [OF q] settled_no_wait [OF st]
  show "shared (solo bd i 3 s) = shared s \<and> pc (solo bd i 3 s) i = Done Consumer d (-1)"
    if "queue_len (shared s) = 0"
    using that facts by (simp add: solo_step_defs)
  show "shared (solo bd i 8 s) = pop_id (shared s) \<and>
      pc (solo bd i 8 s) i = Done Consumer (ring (shared s) ! queue_slot (shared s) 0) 0"
    if "queue_len (shared s) > 0"
    using that facts cons_slot [OF q] hd
    by (simp add: solo_step_defs pop_id_def commit_marker_next)
qed

lemma log_step:
  assumes "sys_step build_of s t"
  shows "acq s Producer \<le> acq t Producer" "e < acq s Producer \<Longrightarrow> log t e = log s e"
proof -
  have *: "acq s Producer \<le> acq (thread_step bd i s p) Producer"
    "e < acq s Producer \<Longrightarrow> log (thread_step bd i s p) e = log s e" for bd i p
    by (cases p; auto simp: goto_def load_tail_def step_wait_def step_check_def step_cas_def step_access_def
      step_commit_cas_def Let_def split: prod.split side.split)+
  show "acq s Producer \<le> acq t Producer" "e < acq s Producer \<Longrightarrow> log t e = log s e"
    using assms * by (auto elim!: sys_step.cases simp: goto_def)
qed

lemma log_runs:
  assumes "runs build_of s t"
  shows "acq s Producer \<le> acq t Producer \<and> (e < acq s Producer \<longrightarrow> log t e = log s e)"
  using assms
proof (induction rule: runs.induct)
  case (runs_step t u)
  from log_step(1) [OF runs_step.hyps(2)] log_step(2) [OF runs_step.hyps(2), of e] runs_step.IH show ?case by auto
qed simp

subsection \<open>Properties\<close>

text \<open>Runs the witnesses use.\<close>

definition two_writers :: "(nat \<times> side \<times> u16) list" where
  "two_writers = replicate 5 (0, Producer, 7) @ replicate 5 (1, Producer, 8)"

definition half_written :: "(nat \<times> side \<times> u16) list" where
  "half_written = replicate 6 (0, Producer, 7)"

definition then_read :: "(nat \<times> side \<times> u16) list" where
  "then_read = replicate 3 (0, Producer, 7) @ replicate 9 (1, Consumer, 0)"

definition written :: "(nat \<times> side \<times> u16) list" where
  "written = replicate 9 (0, Producer, 7)"

definition lost_race :: "(nat \<times> side \<times> u16) list" where
  "lost_race = replicate 7 (0, Producer, 7) @ replicate 9 (1, Producer, 8)"

lemma run_lengths:
  "length two_writers < 2 ^ 32" "length half_written < 2 ^ 32" "length (half_written @ then_read) < 2 ^ 32"
  "length written < 2 ^ 32" "length lost_race < 2 ^ 32" "length (lost_race @ written) < 2 ^ 32"
  by (simp_all add: two_writers_def half_written_def then_read_def written_def lost_race_def)

text \<open>
  C4. In every interleaving of enqueues and dequeues, two threads that are about to access the
  ring access different slots: the masked entries they index with differ.\<close>

theorem ring_access_race_free:
  assumes "reachable build_of s" "i \<noteq> j" "pc s i = Access sd d e" "pc s j = Access sd' d' e'"
  shows "e AND RPCMSG_BUFFER_MASK \<noteq> e' AND RPCMSG_BUFFER_MASK"
proof
  assume eq: "e AND RPCMSG_BUFFER_MASK = e' AND RPCMSG_BUFFER_MASK"
  have ok: "sys_ok s" using reachable_ok [OF assms(1)] ..
  have "e = of_nat (ent s i)" "e' = of_nat (ent s j)"
    using sys_okD(3) [OF ok, of i] sys_okD(3) [OF ok, of j] assms(3,4) by simp_all
  with eq have "ent s i mod RPCMSG_BUFFER_SIZE = ent s j mod RPCMSG_BUFFER_SIZE"
    by (metis slot_of_entry)
  with held_slots_differ [OF ok, of sd i sd' j] assms(2-4) show False by simp
qed

theorem ring_access_race_free_witness:
  "(0::u32) AND RPCMSG_BUFFER_MASK \<noteq> 1 AND RPCMSG_BUFFER_MASK"
proof (rule ring_access_race_free)
  let ?s = "schedule (\<lambda>_. Userspace) init_sys two_writers"
  show "reachable (\<lambda>_. Userspace) ?s" using schedule_reachable [OF run_lengths(1)] by blast
  show "pc ?s 0 = Access Producer 7 0" by code_simp
  show "pc ?s 1 = Access Producer 8 1" by code_simp
qed simp

text \<open>
  C5. What a producer has written as its entry is what the consumer that gets the same entry
  number returns, however many other calls ran in between.\<close>

theorem dequeue_returns_what_was_enqueued:
  assumes "reachable build_of s" "pc s i = Commit_load Producer d" "runs build_of s t"
    "pc t j = Done Consumer d' 0" "ent t j = ent s i"
  shows "d' = d"
proof -
  have ok: "sys_ok s" "sys_ok t"
    using reachable_ok [OF assms(1)] reachable_ok [OF runs_reachable [OF assms(3,1)]] by blast+
  have e: "ent s i \<in> in_flight s Producer" "log s (ent s i) = d" using sys_okD(3) [OF ok(1), of i] assms(2) by simp_all
  have "log t (ent t j) = d'" using sys_okD(3) [OF ok(2), of j] assms(4) by simp
  moreover have "ent s i < acq s Producer" by (rule in_flight_bounds(2) [OF sys_okD(1) [OF ok(1)] e(1)])
  ultimately show ?thesis using log_runs [OF assms(3)] e(2) assms(5) by auto
qed

theorem dequeue_returns_what_was_enqueued_witness:
  "\<exists>d'. pc (schedule (\<lambda>_. Userspace) init_sys (half_written @ then_read)) 1 = Done Consumer d' 0 \<and> d' = 7"
proof (intro exI conjI)
  let ?s = "schedule (\<lambda>_. Userspace) init_sys half_written"
  let ?t = "schedule (\<lambda>_. Userspace) init_sys (half_written @ then_read)"
  have r: "reachable (\<lambda>_. Userspace) ?s" using schedule_reachable [OF run_lengths(2)] by blast
  have w: "pc ?s 0 = Commit_load Producer 7" by code_simp
  show p: "pc ?t 1 = Done Consumer (case pc ?t 1 of Done sd d rc \<Rightarrow> d) 0" by code_simp
  have "ent ?t 1 = ent ?s 0" by code_simp
  then show "(case pc ?t 1 of Done sd d rc \<Rightarrow> d) = 7"
    by (rule dequeue_returns_what_was_enqueued [OF r w schedule_runs [OF run_lengths(3)] p])
qed

text \<open>
  C11. In every interleaving the 32-bit counters stay in their windows: at most 9 entries lie
  between a side's published head and its tail, a consumer never runs ahead of what was
  published, and at most 32 entries are in use, so none is overwritten.\<close>

theorem counter_windows:
  assumes "reachable build_of s"
  shows "unat (pos (tail (prod_b (shared s))) - pos (head (prod_b (shared s)))) \<le> unat RPCMSG_HTD_MAX + 1 \<and>
    unat (pos (tail (cons_b (shared s))) - pos (head (cons_b (shared s)))) \<le> unat RPCMSG_HTD_MAX + 1 \<and>
    unat (pos (head (prod_b (shared s))) - pos (tail (cons_b (shared s)))) \<le> RPCMSG_BUFFER_SIZE \<and>
    unat (pos (tail (prod_b (shared s))) - pos (head (cons_b (shared s)))) \<le> RPCMSG_BUFFER_SIZE"
proof -
  have ok: "sys_ok s" using reachable_ok [OF assms] ..
  note D = sys_okD [OF ok]
  have side: "pub s sd \<le> acq s sd" "acq s sd \<le> pub s sd + 9"
      "bnd sd (shared s) = \<lparr>tail = mk (acq s sd), head = \<lparr>pos = of_nat (pub s sd), count = of_nat (com s sd)\<rparr>\<rparr>" for sd
    using D(1) [of sd] by (auto simp: side_ok_def)
  have win: "unat (of_nat a - of_nat b :: u32) \<le> n" if "b \<le> a" "a \<le> b + n" "n \<le> RPCMSG_BUFFER_SIZE" for a b n
    using unat_diff_of_nat [of b a, where 'l = 32] that by (simp add: RPCMSG_BUFFER_SIZE_def)
  have "acq s Consumer \<le> pub s Producer" "acq s Producer \<le> pub s Consumer + RPCMSG_BUFFER_SIZE"
    using D(2) by (simp_all add: ring_ok_def)
  then show ?thesis
    using side(1,2) [of Producer] side(1,2) [of Consumer] side(3) [of Producer] side(3) [of Consumer]
    by (intro conjI) (auto simp: RPCMSG_HTD_MAX_def RPCMSG_BUFFER_SIZE_def intro!: win)
qed

theorem counter_windows_witness:
  "unat (pos (tail (prod_b (shared (schedule (\<lambda>_. Userspace) init_sys two_writers)))) -
    pos (head (cons_b (shared (schedule (\<lambda>_. Userspace) init_sys two_writers))))) \<le> RPCMSG_BUFFER_SIZE"
  using counter_windows [of "\<lambda>_. Userspace" "schedule (\<lambda>_. Userspace) init_sys two_writers"]
    schedule_reachable [OF run_lengths(1), of "\<lambda>_. Userspace"] by blast

text \<open>
  C12. Once no thread is between acquiring and committing an entry, whatever the interleaving
  was, the shared queue is a settled sequential queue, and its contents are exactly the ids that
  were enqueued and not yet dequeued, in the order their entries were acquired: nothing is lost,
  repeated or left unpublished.\<close>

theorem quiescent_refines_sequential:
  assumes "reachable build_of s" "\<forall>sd i. \<not> holds sd (pc s i)"
  shows "queue_ok (shared s) \<and> queue_ids (shared s) = map (log s) [acq s Consumer..<acq s Producer]"
  using quiescent_queue reachable_ok [OF assms(1)] reachable_owned [OF assms(1)] assms(2)
  unfolding quiescent_def by blast

theorem quiescent_refines_sequential_witness:
  "queue_ids (shared (schedule (\<lambda>_. Userspace) init_sys written)) = [7]"
proof -
  let ?s = "schedule (\<lambda>_. Userspace) init_sys written"
  have r: "reachable (\<lambda>_. Userspace) ?s" using schedule_reachable [OF run_lengths(4)] by blast
  have "pc ?s 0 = Done Producer 7 0" by code_simp
  moreover have "pc ?s i = Idle" if "i \<noteq> 0" for i
    using schedule_other [of written i] that by (simp add: written_def init_sys_def)
  ultimately have "\<forall>sd i. \<not> holds sd (pc ?s i)" by (metis holds.simps(5,11))
  from quiescent_refines_sequential [OF r this]
  have "queue_ids (shared ?s) = map (log ?s) [acq ?s Consumer..<acq ?s Producer]" ..
  also have "\<dots> = [7]" by code_simp
  finally show ?thesis .
qed

text \<open>
  C13. \<open>rpcmsg_enqueue\<close> of a message pointer as one operation is the run of the enqueueing
  thread's steps with no other thread in between: both end with the same return value and the
  same queue.\<close>

theorem enqueue_is_solo_run:
  assumes "queue_ok (shared s)" "rpcmsg_msg_to_id p = Inr d" "pc s i = Load Producer d"
  shows "\<exists>n rc q b'. rpcmsg_enqueue bd rpcmsg_rpc_enqueue_fn (shared s) b p = Inr (rc, q, b') \<and>
    pc (solo bd i n s) i = Done Producer d rc \<and> shared (solo bd i n s) = q"
proof (cases "queue_len (shared s) = RPCMSG_BUFFER_SIZE")
  case True
  with rpcmsg_enqueue_full [OF assms(1) True, of bd rpcmsg_rpc_enqueue_fn b p] solo_producer(1) [OF assms(1,3)] show ?thesis
    by blast
next
  case False
  with assms(1) have room: "queue_len (shared s) < RPCMSG_BUFFER_SIZE" by (simp add: queue_ok_def)
  have "rpcmsg_rpc_enqueue_fn (acquired_prod (shared s)) b (pos (tail (prod_b (shared s))) AND RPCMSG_BUFFER_MASK) p =
      Inr (acquired_prod (shared s)\<lparr>ring := (ring (shared s))[queue_slot (shared s) (queue_len (shared s)) := d]\<rparr>, b)"
    using assms(1,2) by (simp add: rpcmsg_rpc_enqueue_fn_def prod_slot queue_ok_def)
  from rpcmsg_enqueue_room [where fn = rpcmsg_rpc_enqueue_fn, OF assms(1) room this] solo_producer(2) [OF assms(1,3) room]
  show ?thesis by blast
qed

theorem enqueue_is_solo_run_witness:
  "\<exists>n rc q b'. rpcmsg_enqueue Userspace rpcmsg_rpc_enqueue_fn (shared init_sys) \<lparr>messages = []\<rparr> (Some 7) = Inr (rc, q, b') \<and>
    pc (solo Userspace 0 n (goto 0 (Load Producer 7) init_sys)) 0 = Done Producer 7 rc \<and>
    shared (solo Userspace 0 n (goto 0 (Load Producer 7) init_sys)) = q"
  using enqueue_is_solo_run [of "goto 0 (Load Producer 7) init_sys" "Some 7" 7 0 Userspace "\<lparr>messages = []\<rparr>"]
    queue_init_ok(1) by (simp add: goto_def init_sys_def rpcmsg_queue_init_def rpcmsg_msg_to_id_def RPCMSG_BUFFER_SIZE_def)

text \<open>
  C33. In the kernel build the compare-and-swap leaves the expected head as it was, so a
  commit that lost one race never returns: no continuation of the run takes the thread out of the
  commit loop.\<close>

theorem kernel_commit_never_returns:
  assumes "reachable build_of s" "build_of i = Linux_kernel" "stale_commit i s" "runs build_of s t"
  shows "pc t i \<noteq> Idle \<and> (\<forall>sd d rc. pc t i \<noteq> Done sd d rc)"
  using stale_runs [OF assms(4,1,2,3)] by (auto simp: stale_commit_def)

theorem kernel_commit_never_returns_witness:
  "pc (schedule (\<lambda>_. Linux_kernel) init_sys (lost_race @ written)) 0 \<noteq> Idle"
proof -
  let ?s = "schedule (\<lambda>_. Linux_kernel) init_sys lost_race"
  have r: "reachable (\<lambda>_. Linux_kernel) ?s" using schedule_reachable [OF run_lengths(5)] by blast
  have "committing (pc ?s 0) = Some Producer" "csnap ?s 0 < com ?s Producer" by code_simp+
  then have "stale_commit 0 ?s" unfolding stale_commit_def by blast
  from kernel_commit_never_returns [OF r refl this schedule_runs [OF run_lengths(6)]] show ?thesis by blast
qed

end
