(* ===== verification/Lend_Races.thy ===== *)
theory Lend_Races
  imports Rpc_Messages "HOL-Library.Multiset"
begin

text \<open>
  Lending message slots from several threads. \<open>rpcmsg_lend_buffer\<close> looks for a clear bit and then
  sets it; \<open>set_bit\<close> and \<open>clear_bit\<close> are atomic, the pair of look and set is not. Here the two are
  separate steps, and other threads lend and reclaim in between. The bitmap of 32 slots is one
  word, so that the look is a single load.
\<close>

subsection \<open>The two halves of lending\<close>

definition lend_look :: "rpcmsg_buffer_state \<Rightarrow> (u16 option) res" where
  "lend_look st =
     andthen (find_first_zero_bit st RPCMSG_BUFFER_SIZE) (\<lambda>n.
       let i = (of_nat n :: u16) in
       Inr (if i \<ge> of_nat RPCMSG_BUFFER_SIZE then None else Some i))"

definition lend_take :: "u16 \<Rightarrow> rpcmsg_buffer_state \<Rightarrow> (rpcmsg_ptr \<times> rpcmsg_buffer_state) res" where
  "lend_take i st =
     andthen (bitmap_set_bit (unat i) st) (\<lambda>st.
     andthen (rpcmsg_id_to_msg i) (\<lambda>msg. Inr (msg, st)))"

lemma lend_halves:
  "rpcmsg_lend_buffer st =
     andthen (lend_look st) (\<lambda>r. case r of None \<Rightarrow> Inr (None, st) | Some i \<Rightarrow> lend_take i st)"
  by (cases "find_first_zero_bit st RPCMSG_BUFFER_SIZE") (simp_all add: rpcmsg_lend_buffer_def lend_look_def lend_take_def Let_def)

lemma lend_look_free:
  assumes "state_ok st" "lend_look st = Inr (Some i)"
  shows "unat i < RPCMSG_BUFFER_SIZE" "\<not> bitmap_test st (unat i)"
proof -
  obtain n where n: "find_first_zero_bit st RPCMSG_BUFFER_SIZE = Inr n" "n \<le> RPCMSG_BUFFER_SIZE"
    "n < RPCMSG_BUFFER_SIZE \<Longrightarrow> \<not> bitmap_test st n"
    using find_first_zero_bit_spec [OF state_ok_size [OF assms(1)]] by blast
  have u: "unat (of_nat n :: u16) = n" using n(2) by (simp add: unat_of_nat RPCMSG_BUFFER_SIZE_def)
  from assms(2) n(1) have i: "i = of_nat n" "\<not> (of_nat n :: u16) \<ge> of_nat RPCMSG_BUFFER_SIZE"
    by (auto simp: lend_look_def Let_def split: if_splits)
  with u show "unat i < RPCMSG_BUFFER_SIZE" by (simp add: word_le_nat_alt RPCMSG_BUFFER_SIZE_def)
  with i u n(3) show "\<not> bitmap_test st (unat i)" by simp
qed

lemma lend_take_sets:
  assumes "state_ok st" "unat i = n" "n < RPCMSG_BUFFER_SIZE"
  shows "\<exists>st'. lend_take i st = Inr (Some (int n), st') \<and> state_ok st' \<and> lent st' = insert (int n) (lent st)"
proof -
  have lt: "n < length st * n_bits" using assms(3) state_ok_size [OF assms(1)] by (rule less_le_trans)
  from bitmap_set_bit_test [OF lt] obtain st' where st': "bitmap_set_bit n st = Inr st'" "length st' = length st"
    "\<And>j. j < length st * n_bits \<Longrightarrow> bitmap_test st' j \<longleftrightarrow> j = n \<or> bitmap_test st j" by blast
  then have "bitmap_test st' j \<longleftrightarrow> j = n \<or> bitmap_test st j" if "j < RPCMSG_BUFFER_SIZE" for j
    using that state_ok_size [OF assms(1)] by simp
  then have "lent st' = insert (int n) (lent st)" using assms(3) by (auto simp: lent_def)
  moreover have "rpcmsg_id_to_msg i = Inr (Some (int n))"
    using assms(2,3) by (auto simp: rpcmsg_id_to_msg_def word_less_nat_alt RPCMSG_BUFFER_SIZE_def)
  ultimately show ?thesis using st' assms(1,2) by (simp add: lend_take_def state_ok_def)
qed

subsection \<open>Threads that lend and reclaim\<close>

text \<open>
  The bitmap, the slot that each thread has seen free and not yet taken, and the messages in use,
  with their multiplicity. Any thread may reclaim; \<open>L\<close> are the threads that lend.
\<close>

record pool_state =
  bits :: rpcmsg_buffer_state
  seen :: "nat \<Rightarrow> u16 option"
  in_use :: "nat multiset"

inductive lend_step :: "nat set \<Rightarrow> pool_state \<Rightarrow> pool_state \<Rightarrow> bool" for L :: "nat set" where
  look: "\<lbrakk>t \<in> L; seen s t = None; lend_look (bits s) = Inr (Some i)\<rbrakk> \<Longrightarrow> lend_step L s (s\<lparr>seen := (seen s)(t \<mapsto> i)\<rparr>)"
| take: "\<lbrakk>seen s t = Some i; lend_take i (bits s) = Inr (Some (int k), st)\<rbrakk>
    \<Longrightarrow> lend_step L s (s\<lparr>bits := st, seen := (seen s)(t := None), in_use := add_mset k (in_use s)\<rparr>)"
| reclaim: "\<lbrakk>k \<in># in_use s; rpcmsg_reclaim_buffer (bits s) (Some (int k)) = Inr st\<rbrakk>
    \<Longrightarrow> lend_step L s (s\<lparr>bits := st, in_use := in_use s - {#k#}\<rparr>)"

definition pool_start :: pool_state where
  "pool_start = \<lparr>bits = [0], seen = (\<lambda>_. None), in_use = {#}\<rparr>"

text \<open>With one lender: every message in use is marked and used once, and the slot the lender has seen is still free.\<close>

definition pool_inv :: "nat \<Rightarrow> pool_state \<Rightarrow> bool" where
  "pool_inv t s \<longleftrightarrow> state_ok (bits s) \<and> lent (bits s) = int ` set_mset (in_use s) \<and> (\<forall>k. count (in_use s) k \<le> 1) \<and>
     (\<forall>u i. seen s u = Some i \<longrightarrow> u = t \<and> unat i < RPCMSG_BUFFER_SIZE \<and> unat i \<notin># in_use s)"

lemma count_diff_single: "count M k \<le> 1 \<Longrightarrow> set_mset (M - {#k#}) = set_mset M - {k}"
  by (intro set_eqI) (auto simp: in_diff_count)

lemma marked_in_use:
  assumes "lent st = int ` M" "k < RPCMSG_BUFFER_SIZE"
  shows "bitmap_test st k \<longleftrightarrow> k \<in> M"
proof -
  have "int k \<in> lent st \<longleftrightarrow> bitmap_test st k" using assms(2) by simp
  then show ?thesis unfolding assms(1) by auto
qed

lemma pool_inv_step:
  assumes "lend_step {t} s s'" "pool_inv t s"
  shows "pool_inv t s'"
  using assms(1)
proof cases
  case (look u i)
  from assms(2) have ok: "state_ok (bits s)" and l: "lent (bits s) = int ` set_mset (in_use s)" by (auto simp: pool_inv_def)
  note f = lend_look_free [OF ok look(4)]
  with marked_in_use [OF l f(1)] look assms(2) show ?thesis by (auto simp: pool_inv_def)
next
  case (take u i k st)
  then have i: "unat i < RPCMSG_BUFFER_SIZE" "unat i \<notin># in_use s" "u = t" "state_ok (bits s)"
    using assms(2) by (auto simp: pool_inv_def)
  from lend_take_sets [OF i(4) refl i(1)] take(3) have "int k = int (unat i)" and st: "state_ok st" "lent st = insert (int (unat i)) (lent (bits s))" by auto
  then have k: "k = unat i" by (simp only: of_nat_eq_iff)
  have "count (in_use s) k = 0" using i(2) unfolding k by (simp add: count_eq_zero_iff)
  then have c: "\<forall>j. count (add_mset k (in_use s)) j \<le> 1" using assms(2) by (auto simp: pool_inv_def)
  have "lent st = int ` set_mset (add_mset k (in_use s))" unfolding st(2) k using assms(2) by (simp add: pool_inv_def)
  moreover have "((seen s)(u := None)) v = None" for v using assms(2) i(3) by (cases "seen s v") (auto simp: pool_inv_def)
  ultimately show ?thesis using take(1) st(1) c by (simp add: pool_inv_def)
next
  case (reclaim k st)
  have ok: "state_ok (bits s)" and l: "lent (bits s) = int ` set_mset (in_use s)" and c: "count (in_use s) k \<le> 1"
    using assms(2) by (auto simp: pool_inv_def)
  have "int k \<in> lent (bits s)" using reclaim(2) unfolding l by simp
  then have "k < RPCMSG_BUFFER_SIZE" by simp
  from reclaim_buffer_ok [OF ok this] reclaim(3) have st: "state_ok st" "lent st = lent (bits s) - {int k}" by auto
  have "lent st = int ` set_mset (in_use s - {#k#})" unfolding st(2) l count_diff_single [OF c] by auto
  moreover have "\<forall>j. count (in_use s - {#k#}) j \<le> 1" using assms(2) by (auto simp: pool_inv_def intro: le_trans [OF diff_le_self])
  moreover have "\<forall>u i. seen s u = Some i \<longrightarrow> u = t \<and> unat i < RPCMSG_BUFFER_SIZE \<and> unat i \<notin># in_use s - {#k#}"
    using assms(2) by (auto simp: pool_inv_def dest: in_diffD)
  ultimately show ?thesis using reclaim(1) st(1) by (simp add: pool_inv_def)
qed

lemma pool_empty: "state_ok [0]" "lent [0] = {}" "\<not> bitmap_test [0] 0"
  by (simp_all add: state_ok_def slots_simps) (simp_all add: lent_def bitmap_test_def RPCMSG_BUFFER_SIZE_def n_bits_def)

lemma look_empty: "lend_look [0] = Inr (Some 0)"
proof -
  obtain n where n: "find_first_zero_bit [0] RPCMSG_BUFFER_SIZE = Inr n" "\<forall>j < n. bitmap_test [0] j"
    using find_first_zero_bit_spec [OF state_ok_size [OF pool_empty(1)]] by blast
  with pool_empty(3) have "n = 0" by auto
  with n(1) show ?thesis by (simp add: lend_look_def RPCMSG_BUFFER_SIZE_def)
qed

lemma pool_start_inv: "pool_inv t pool_start"
  using pool_empty by (simp add: pool_inv_def pool_start_def)

lemma pool_reach_inv: "(lend_step {t})\<^sup>*\<^sup>* pool_start s \<Longrightarrow> pool_inv t s"
  by (induction rule: rtranclp_induct) (auto intro: pool_start_inv pool_inv_step)

subsection \<open>Properties\<close>

text \<open>
  C19. With one thread that lends, any other threads may reclaim between the two halves of its calls:
  no message is in use twice, and the bits that are set are those of the messages in use.\<close>

theorem single_lender_exclusive:
  assumes "(lend_step {t})\<^sup>*\<^sup>* pool_start s"
  shows "(\<forall>k. count (in_use s) k \<le> 1) \<and> lent (bits s) = int ` set_mset (in_use s) \<and>
    (\<forall>i k st. seen s t = Some i \<longrightarrow> lend_take i (bits s) = Inr (Some (int k), st) \<longrightarrow> k \<notin># in_use s)"
proof -
  note inv = pool_reach_inv [OF assms, unfolded pool_inv_def]
  have "k \<notin># in_use s" if "seen s t = Some i" "lend_take i (bits s) = Inr (Some (int k), st)" for i k st
  proof -
    have i: "unat i < RPCMSG_BUFFER_SIZE" "unat i \<notin># in_use s" "state_ok (bits s)" using that(1) inv by auto
    from lend_take_sets [OF i(3) refl i(1)] that(2) have "int k = int (unat i)" by auto
    with i(2) show ?thesis by (simp only: of_nat_eq_iff not_False_eq_True)
  qed
  with inv show ?thesis by blast
qed

theorem single_lender_exclusive_witness:
  "\<exists>s. (lend_step {5})\<^sup>*\<^sup>* pool_start s \<and> seen s 5 = Some 0 \<and> lent (bits s) = {} \<and> (\<forall>k. count (in_use s) k \<le> 1)"
proof -
  let ?s = "pool_start\<lparr>seen := (seen pool_start)(5 \<mapsto> 0)\<rparr>"
  have "lend_step {5} pool_start ?s" by (rule lend_step.look) (simp_all add: pool_start_def look_empty)
  then have r: "(lend_step {5})\<^sup>*\<^sup>* pool_start ?s" by (rule r_into_rtranclp)
  from single_lender_exclusive [OF r] r show ?thesis
    by (intro exI [of _ ?s]) (simp add: pool_start_def)
qed

text \<open>
  C35. Two threads that lend from the same pool can get the same message: both see the slot free
  before either has set its bit. When the first of the two is reclaimed, the message is marked free
  while it is still in use.\<close>

theorem two_lenders_collide:
  assumes "t \<noteq> u" "t \<in> L" "u \<in> L"
  shows "\<exists>s s'. (lend_step L)\<^sup>*\<^sup>* pool_start s \<and> count (in_use s) 0 = 2 \<and> lend_step L s s' \<and> 0 \<in># in_use s' \<and> lent (bits s') = {}"
proof -
  have 0: "unat (0 :: u16) = 0" "0 < RPCMSG_BUFFER_SIZE" by (simp_all add: RPCMSG_BUFFER_SIZE_def)
  obtain st1 where st1: "lend_take 0 [0] = Inr (Some (int 0), st1)" "state_ok st1" "lent st1 = {0}"
    using lend_take_sets [OF pool_empty(1) 0] pool_empty(2) by auto
  obtain st2 where st2: "lend_take 0 st1 = Inr (Some (int 0), st2)" "state_ok st2" "lent st2 = {0}"
    using lend_take_sets [OF st1(2) 0] st1(3) by auto
  obtain st3 where st3: "rpcmsg_reclaim_buffer st2 (Some (int 0)) = Inr st3" "lent st3 = {}"
    using reclaim_buffer_ok [OF st2(2) 0(2)] st2(3) by auto
  define s1 where "s1 = \<lparr>bits = [0], seen = (\<lambda>_. None)(t \<mapsto> 0), in_use = {#}\<rparr>"
  define s2 where "s2 = \<lparr>bits = [0], seen = (\<lambda>_. None)(t \<mapsto> 0, u \<mapsto> 0), in_use = {#}\<rparr>"
  define s3 where "s3 = \<lparr>bits = st1, seen = (\<lambda>_. None)(u \<mapsto> 0), in_use = {#0#}\<rparr>"
  define s4 where "s4 = \<lparr>bits = st2, seen = (\<lambda>_. None), in_use = {#0, 0#}\<rparr>"
  define s5 where "s5 = \<lparr>bits = st3, seen = (\<lambda>_. None), in_use = {#0#}\<rparr>"
  have "lend_step L pool_start s1"
    using lend_step.look [of t L pool_start 0] assms look_empty by (simp add: pool_start_def s1_def)
  moreover have "lend_step L s1 s2" using lend_step.look [of u L s1 0] assms look_empty by (simp add: s1_def s2_def)
  moreover have "lend_step L s2 s3"
    using lend_step.take [of s2 t 0 0 st1 L] assms(1) st1(1) by (simp add: s2_def s3_def fun_upd_twist [of t u])
  moreover have "lend_step L s3 s4" using lend_step.take [of s3 u 0 0 st2 L] st2(1) by (simp add: s3_def s4_def)
  ultimately have "(lend_step L)\<^sup>*\<^sup>* pool_start s4"
    by (intro converse_rtranclp_into_rtranclp [of "lend_step L" pool_start s1] converse_rtranclp_into_rtranclp [of "lend_step L" s1 s2]
        converse_rtranclp_into_rtranclp [of "lend_step L" s2 s3] r_into_rtranclp)
  moreover have "lend_step L s4 s5" using lend_step.reclaim [of 0 s4 st3 L] st3(1) by (simp add: s4_def s5_def)
  moreover have "count (in_use s4) 0 = 2" "0 \<in># in_use s5" "lent (bits s5) = {}" using st3(2) by (simp_all add: s4_def s5_def)
  ultimately show ?thesis by blast
qed

theorem two_lenders_collide_witness:
  "\<exists>s. (lend_step {3, 4})\<^sup>*\<^sup>* pool_start s \<and> count (in_use s) 0 = 2"
  using two_lenders_collide [of 3 4 "{3, 4}"] by auto

end
