(* ===== verification/Sel4vm.thy ===== *)
theory Sel4vm
  imports Prelude
begin

text \<open>
  What the sources call of libsel4vm, libsel4vmmplatsupport, libsel4sync and the C
  allocator (the lists of libutils are in \<open>Reservations\<close>). None of that code is in the repository, so it is a parameter: a record
  of functions over a world \<open>'w\<close> that the model never looks into. What a property needs of
  them is stated as one of the named hypotheses at the end.
\<close>

type_synonym vcpu = nat
type_synonym reservation = nat
type_synonym proxy_ptr = nat

datatype irq_ack_fn = Irq_line_ack | Shared_irq_ack

text \<open>The fault handlers the sources install, with the cookie each gets.\<close>

datatype fault_handler = Mmio_fault_handler proxy_ptr | V2m_fault_handler | Pl011_fault_handler

datatype fault_result = FAULT_HANDLED | FAULT_UNHANDLED | FAULT_ERROR

text \<open>The semaphores: one per proxy, and one in each native thread's local storage.\<close>

datatype sem = Backend_started proxy_ptr | Handoff nat

record pci_address =
  bus :: u8
  dev :: u8
  fn :: u8

record 'w sel4vm =
  vm_register_irq :: "vcpu \<Rightarrow> u32 \<Rightarrow> irq_ack_fn \<Rightarrow> 'w \<Rightarrow> int \<times> 'w"
  vm_set_irq_level :: "vcpu \<Rightarrow> u32 \<Rightarrow> bool \<Rightarrow> 'w \<Rightarrow> int \<times> 'w"
  vm_reserve_memory_at :: "u64 \<Rightarrow> u64 \<Rightarrow> fault_handler \<Rightarrow> 'w \<Rightarrow> reservation option \<times> 'w"
  vm_reservation_free :: "reservation \<Rightarrow> 'w \<Rightarrow> int \<times> 'w"
  is_vcpu_read_fault :: "vcpu \<Rightarrow> 'w \<Rightarrow> bool"
  get_vcpu_fault_address :: "vcpu \<Rightarrow> 'w \<Rightarrow> seL4_Word"
  get_vcpu_fault_data :: "vcpu \<Rightarrow> 'w \<Rightarrow> seL4_Word"
  get_vcpu_fault_data_mask :: "vcpu \<Rightarrow> 'w \<Rightarrow> seL4_Word"
  set_vcpu_fault_data :: "vcpu \<Rightarrow> seL4_Word \<Rightarrow> 'w \<Rightarrow> 'w"
  emulate_vcpu_fault :: "vcpu \<Rightarrow> seL4_Word \<Rightarrow> 'w \<Rightarrow> seL4_Word"
  advance_vcpu_fault :: "vcpu \<Rightarrow> 'w \<Rightarrow> 'w"
  vcpu_id :: "vcpu \<Rightarrow> u32"
  boot_vcpu :: vcpu
  sync_sem_new :: "sem \<Rightarrow> 'w \<Rightarrow> int \<times> 'w"
  sync_sem_post :: "sem \<Rightarrow> 'w \<Rightarrow> 'w"
  calloc :: "'w \<Rightarrow> bool \<times> 'w"
  vmm_pci_add_entry :: "'w \<Rightarrow> int \<times> pci_address \<times> 'w"
  intx_base :: u32
  pci_interrupt_line :: u32
  pci_interrupt_pin :: u32
  putchar :: "u32 \<Rightarrow> 'w \<Rightarrow> 'w"

text \<open>
  An interrupt controller that keeps a level per interrupt: \<open>vm_set_irq_level\<close> on a
  registered interrupt succeeds and sets that level and no other.
\<close>

definition keeps_levels :: "'w sel4vm \<Rightarrow> ('w \<Rightarrow> u32 \<Rightarrow> bool) \<Rightarrow> bool" where
  "keeps_levels env level \<longleftrightarrow>
     (\<forall>v i b w. fst (vm_set_irq_level env v i b w) = 0 \<and>
        level (snd (vm_set_irq_level env v i b w)) = (level w)(i := b))"

text \<open>
  An interrupt controller that counts rising edges: setting a level that was low raises the
  count.
\<close>

definition counts_edges :: "'w sel4vm \<Rightarrow> ('w \<Rightarrow> u32 \<Rightarrow> bool) \<Rightarrow> ('w \<Rightarrow> u32 \<Rightarrow> nat) \<Rightarrow> bool" where
  "counts_edges env level edges \<longleftrightarrow> keeps_levels env level \<and>
     (\<forall>v i b w. edges (snd (vm_set_irq_level env v i b w)) =
        (if b \<and> \<not> level w i then (edges w)(i := edges w i + 1) else edges w))"

text \<open>A VM with room: interrupts can be registered and memory can be reserved.\<close>

definition grants :: "'w sel4vm \<Rightarrow> bool" where
  "grants env \<longleftrightarrow> (\<forall>v i a w. fst (vm_register_irq env v i a w) = 0) \<and>
     (\<forall>b s h w. fst (vm_reserve_memory_at env b s h w) \<noteq> None)"

text \<open>A world in which every call succeeds and does nothing, the base of the concrete instances.\<close>

definition idle_env :: "'w sel4vm" where
  "idle_env =
     \<lparr>vm_register_irq = (\<lambda>v i a w. (0, w)), vm_set_irq_level = (\<lambda>v i b w. (0, w)),
      vm_reserve_memory_at = (\<lambda>b s h w. (Some 0, w)), vm_reservation_free = (\<lambda>r w. (0, w)),
      is_vcpu_read_fault = (\<lambda>v w. True), get_vcpu_fault_address = (\<lambda>v w. 0), get_vcpu_fault_data = (\<lambda>v w. 0),
      get_vcpu_fault_data_mask = (\<lambda>v w. 0), set_vcpu_fault_data = (\<lambda>v d w. w), emulate_vcpu_fault = (\<lambda>v d w. d),
      advance_vcpu_fault = (\<lambda>v w. w), vcpu_id = of_nat, boot_vcpu = 0, sync_sem_new = (\<lambda>s w. (0, w)),
      sync_sem_post = (\<lambda>s w. w), calloc = (\<lambda>w. (True, w)),
      vmm_pci_add_entry = (\<lambda>w. (0, \<lparr>bus = 0, dev = 1, fn = 0\<rparr>, w)),
      intx_base = 160, pci_interrupt_line = 0x3c, pci_interrupt_pin = 0x3d, putchar = (\<lambda>c w. w)\<rparr>"

lemma idle_grants: "grants idle_env"
  by (simp add: grants_def idle_env_def)

end
