(* ===== verification/Irq_Lines.thy ===== *)
theory Irq_Lines
  imports Sel4vm
begin

unbundle bit_operations_syntax

text \<open>
  Emulated interrupt lines: \<open>src/irq_line.c\<close> (one source) and \<open>src/shared_irq_line.c\<close>
  (several sources, wired-OR). A shared line refines the set of its active sources: the guest
  sees the line active exactly while the set is not empty.
\<close>

subsection \<open>One source\<close>

text \<open>The cookie of a line is a proxy, or none for the lines of the MSI frame.\<close>

record irq_line =
  line_vcpu :: vcpu
  irq :: u32
  cookie :: "proxy_ptr option"

definition irq_line_init ::
  "'w sel4vm \<Rightarrow> irq_line \<Rightarrow> vcpu \<Rightarrow> u32 \<Rightarrow> proxy_ptr option \<Rightarrow> 'w \<Rightarrow> int \<times> irq_line \<times> 'w" where
  "irq_line_init env line v i c w =
     (let line = line\<lparr>line_vcpu := v, irq := i, cookie := c\<rparr>;
          (err, w) = vm_register_irq env v i Irq_line_ack w
      in (if err \<noteq> 0 then -1 else 0, line, w))"

definition irq_line_change :: "'w sel4vm \<Rightarrow> irq_line \<Rightarrow> bool \<Rightarrow> 'w \<Rightarrow> int \<times> 'w" where
  "irq_line_change env line active w = vm_set_irq_level env (line_vcpu line) (irq line) active w"

definition irq_line_pulse :: "'w sel4vm \<Rightarrow> irq_line \<Rightarrow> 'w \<Rightarrow> int \<times> 'w" where
  "irq_line_pulse env line w =
     (let (err, w) = vm_set_irq_level env (line_vcpu line) (irq line) True w in
      if err \<noteq> 0 then (err, w)
      else vm_set_irq_level env (line_vcpu line) (irq line) False w)"

lemma set_level:
  assumes "keeps_levels env level"
  obtains w' where "vm_set_irq_level env v i b w = (0, w')" "level w' = (level w)(i := b)"
  using assms unfolding keeps_levels_def by (metis prod.collapse)

lemma irq_line_pulse_edge:
  assumes "counts_edges env level edges" "\<not> level w (irq line)"
  shows "\<exists>w'. irq_line_pulse env line w = (0, w') \<and> level w' = level w \<and>
    edges w' = (edges w)(irq line := edges w (irq line) + 1)"
proof -
  let ?set = "vm_set_irq_level env (line_vcpu line) (irq line)"
  have keep: "keeps_levels env level" using assms(1) by (simp add: counts_edges_def)
  obtain w1 where w1: "?set True w = (0, w1)" "level w1 = (level w)(irq line := True)"
    using set_level [OF keep] .
  obtain w2 where w2: "?set False w1 = (0, w2)" "level w2 = (level w1)(irq line := False)"
    using set_level [OF keep] .
  have "edges w1 = (edges w)(irq line := edges w (irq line) + 1)" "edges w2 = edges w1"
    using assms w1(1) w2(1) unfolding counts_edges_def by (metis snd_conv)+
  moreover have "level w2 = level w" using w1(2) w2(2) assms(2) by (simp add: fun_upd_idem_iff)
  ultimately show ?thesis using w1(1) w2(1) by (simp add: irq_line_pulse_def)
qed

subsection \<open>Several sources\<close>

record shared_irq_line =
  sh_vcpu :: vcpu
  sh_irq :: u32
  sources :: u64

definition shared_irq_line_init ::
  "'w sel4vm \<Rightarrow> shared_irq_line \<Rightarrow> vcpu \<Rightarrow> u32 \<Rightarrow> 'w \<Rightarrow> int \<times> shared_irq_line \<times> 'w" where
  "shared_irq_line_init env line v i w =
     (let line = line\<lparr>sh_vcpu := v, sh_irq := i, sources := 0\<rparr>;
          (err, w) = vm_register_irq env v i Shared_irq_ack w
      in (if err \<noteq> 0 then -1 else 0, line, w))"

text \<open>
  \<open>1 << source\<close> has type \<open>int\<close>: it is undefined from 32 on, and is sign extended when it
  meets the 64-bit mask.
\<close>

definition int_bit :: "u32 \<Rightarrow> (32 word) res" where
  "int_bit source = (if unat source < 32 then Inr (push_bit (unat source) 1) else Inl Shift_too_far)"

definition shared_irq_line_change ::
  "'w sel4vm \<Rightarrow> shared_irq_line \<Rightarrow> u32 \<Rightarrow> bool \<Rightarrow> 'w \<Rightarrow> (int \<times> shared_irq_line \<times> 'w) res" where
  "shared_irq_line_change env line source active w =
     (if source \<ge> 64 then Inr (-1, line, w)
      else
        andthen (int_bit source) (\<lambda>m.
          let saved_sources = sources line;
              line = line\<lparr>sources := if active then sources line OR scast m
                                     else sources line AND scast (NOT m)\<rparr>
          in if (saved_sources \<noteq> 0) = (sources line \<noteq> 0) then Inr (0, line, w)
             else let (rc, w) = vm_set_irq_level env (sh_vcpu line) (sh_irq line) (sources line \<noteq> 0) w
                  in Inr (rc, line, w)))"

text \<open>The abstraction: the set of active sources. Bit 31 stands for itself and all higher bits.\<close>

definition active_sources :: "shared_irq_line \<Rightarrow> nat set" where
  "active_sources line = {s. s < 32 \<and> bit (sources line) s}"

definition shared_line_ok :: "shared_irq_line \<Rightarrow> bool" where
  "shared_line_ok line \<longleftrightarrow> (\<forall>k. 31 \<le> k \<and> k < 64 \<longrightarrow> bit (sources line) k = bit (sources line) 31)"

lemma bit_scast_32: "bit (scast (m :: 32 word) :: u64) k \<longleftrightarrow> k < 64 \<and> bit m (min k 31)"
  by (auto simp: bit_signed_iff min_def)

lemma bit_int_bit:
  assumes "int_bit source = Inr m" "k < 64"
  shows "bit (scast m :: u64) k \<longleftrightarrow> min k 31 = unat source"
    "bit (scast (NOT m) :: u64) k \<longleftrightarrow> min k 31 \<noteq> unat source"
  using assms
  by (auto simp: int_bit_def bit_scast_32 bit_not_iff bit_exp_iff split: if_splits)

lemma shared_line_okD:
  "shared_line_ok line \<Longrightarrow> 31 \<le> k \<Longrightarrow> k < 64 \<Longrightarrow> bit (sources line) k = bit (sources line) 31"
  unfolding shared_line_ok_def by blast

lemma sources_nonzero:
  assumes "shared_line_ok line"
  shows "sources line \<noteq> 0 \<longleftrightarrow> active_sources line \<noteq> {}"
proof -
  have "sources line = 0 \<longleftrightarrow> (\<forall>k < 64. \<not> bit (sources line) k)"
    by (auto simp: bit_eq_iff dest: bit_imp_le_length)
  also have "\<dots> \<longleftrightarrow> (\<forall>k < 32. \<not> bit (sources line) k)"
  proof (intro iffI allI impI)
    fix k :: nat assume all: "\<forall>k < 32. \<not> bit (sources line) k" and k: "k < 64"
    show "\<not> bit (sources line) k"
    proof (cases "k < 32")
      case False
      with shared_line_okD [OF assms _ k] have eq: "bit (sources line) k = bit (sources line) 31" by simp
      have "\<not> bit (sources line) 31" using all by simp
      then show ?thesis unfolding eq .
    qed (use all in blast)
  qed simp
  finally show ?thesis by (auto simp: active_sources_def)
qed

text \<open>What one change does to the set, and when the guest's interrupt controller is told.\<close>

definition change_sources :: "nat \<Rightarrow> bool \<Rightarrow> nat set \<Rightarrow> nat set" where
  "change_sources s active A = (if active then insert s A else A - {s})"

lemma shared_change_refines:
  assumes ok: "shared_line_ok line" and s: "unat source < 32"
  shows "\<exists>line'. shared_line_ok line' \<and> sh_vcpu line' = sh_vcpu line \<and> sh_irq line' = sh_irq line \<and>
    active_sources line' = change_sources (unat source) active (active_sources line) \<and>
    shared_irq_line_change env line source active w =
      (if (active_sources line = {}) = (active_sources line' = {}) then Inr (0, line', w)
       else case vm_set_irq_level env (sh_vcpu line) (sh_irq line) (active_sources line' \<noteq> {}) w of
         (rc, w') \<Rightarrow> Inr (rc, line', w'))"
proof -
  obtain m where m: "int_bit source = Inr m" using s by (simp add: int_bit_def)
  define line' where "line' = line\<lparr>sources := if active then sources line OR scast m
                                   else sources line AND scast (NOT m)\<rparr>"
  have bits: "bit (sources line') k \<longleftrightarrow>
      (if min k 31 = unat source then active else bit (sources line) k)" if "k < 64" for k
    using bit_int_bit [OF m that] by (simp add: line'_def bit_or_iff bit_and_iff)
  have ok': "shared_line_ok line'"
    unfolding shared_line_ok_def
  proof (intro allI impI)
    fix k :: nat assume k: "31 \<le> k \<and> k < 64"
    then have "bit (sources line) k = bit (sources line) 31" using shared_line_okD [OF ok] by blast
    moreover have "min k 31 = 31" using k by simp
    ultimately show "bit (sources line') k = bit (sources line') 31"
      using bits [of k] bits [of 31] k by simp
  qed
  have low: "bit (sources line') k \<longleftrightarrow> (if k = unat source then active else bit (sources line) k)" if "k < 32" for k
    using bits [of k] that by (simp add: min_def)
  have act: "active_sources line' = change_sources (unat source) active (active_sources line)"
    using low s unfolding active_sources_def change_sources_def by (auto split: if_splits)
  have "\<not> 64 \<le> source" using s by (simp add: word_le_nat_alt)
  with m have "shared_irq_line_change env line source active w =
      (if (sources line \<noteq> 0) = (sources line' \<noteq> 0) then Inr (0, line', w)
       else case vm_set_irq_level env (sh_vcpu line') (sh_irq line') (sources line' \<noteq> 0) w of
         (rc, w') \<Rightarrow> Inr (rc, line', w'))"
    unfolding shared_irq_line_change_def line'_def by (simp add: Let_def)
  then have "shared_irq_line_change env line source active w =
      (if (active_sources line = {}) = (active_sources line' = {}) then Inr (0, line', w)
       else case vm_set_irq_level env (sh_vcpu line) (sh_irq line) (active_sources line' \<noteq> {}) w of
         (rc, w') \<Rightarrow> Inr (rc, line', w'))"
    unfolding sources_nonzero [OF ok] sources_nonzero [OF ok'] by (simp add: line'_def)
  with ok' act show ?thesis by (intro exI [of _ line']) (simp add: line'_def)
qed

text \<open>With a controller that keeps levels, the level follows the set.\<close>

lemma shared_change_level:
  assumes keep: "keeps_levels env level" and ok: "shared_line_ok line" and s: "unat source < 32"
    and lev: "level w (sh_irq line) \<longleftrightarrow> active_sources line \<noteq> {}"
  shows "\<exists>line' w'. shared_irq_line_change env line source active w = Inr (0, line', w') \<and>
    shared_line_ok line' \<and> sh_irq line' = sh_irq line \<and>
    active_sources line' = change_sources (unat source) active (active_sources line) \<and>
    level w' = (level w)(sh_irq line := active_sources line' \<noteq> {})"
proof -
  obtain line1 where l1: "shared_line_ok line1" "sh_irq line1 = sh_irq line"
      "active_sources line1 = change_sources (unat source) active (active_sources line)"
    and step: "shared_irq_line_change env line source active w =
      (if (active_sources line = {}) = (active_sources line1 = {}) then Inr (0, line1, w)
       else case vm_set_irq_level env (sh_vcpu line) (sh_irq line) (active_sources line1 \<noteq> {}) w of
         (rc, w') \<Rightarrow> Inr (rc, line1, w'))"
    using shared_change_refines [OF ok s, of active env w] by blast
  show ?thesis
  proof (cases "(active_sources line = {}) = (active_sources line1 = {})")
    case True
    with step have "shared_irq_line_change env line source active w = Inr (0, line1, w)" by simp
    moreover have "level w = (level w)(sh_irq line := active_sources line1 \<noteq> {})"
      by (rule fun_upd_idem [symmetric]) (use True lev in blast)
    ultimately show ?thesis using l1 by blast
  next
    case False
    obtain w' where w': "vm_set_irq_level env (sh_vcpu line) (sh_irq line) (active_sources line1 \<noteq> {}) w = (0, w')"
      "level w' = (level w)(sh_irq line := active_sources line1 \<noteq> {})"
      using set_level [OF keep] .
    from step False have "shared_irq_line_change env line source active w = Inr (0, line1, w')" by (simp add: w'(1))
    then show ?thesis using w'(2) l1 by blast
  qed
qed

text \<open>
  A change is refused with \<open>-1\<close> and no effect for a source of 64 or more, and is
  undefined for the sources 32 to 63 that the interface admits, because the mask is built by
  shifting a 32-bit \<open>int\<close>.\<close>

lemma shared_line_sources_above_31:
  assumes "32 \<le> unat source"
  shows "shared_irq_line_change env line source active w =
     (if unat source < 64 then Inl Shift_too_far else Inr (-1, line, w))"
  using assms by (simp add: shared_irq_line_change_def int_bit_def word_le_nat_alt)

subsection \<open>Sequences of changes\<close>

text \<open>Calls of \<open>shared_irq_line_change\<close> one after the other, with the list of what they returned.\<close>

primrec change_all ::
  "'w sel4vm \<Rightarrow> (u32 \<times> bool) list \<Rightarrow> shared_irq_line \<times> 'w \<Rightarrow> (int list \<times> shared_irq_line \<times> 'w) res" where
  "change_all env [] st = Inr ([], st)"
| "change_all env (c # cs) st =
     andthen (shared_irq_line_change env (fst st) (fst c) (snd c) (snd st)) (\<lambda>(rc, st).
     andthen (change_all env cs st) (\<lambda>(rcs, st). Inr (rc # rcs, st)))"

text \<open>The set of active sources after them; a change by a source of 32 or more does not count.\<close>

primrec change_set :: "(u32 \<times> bool) list \<Rightarrow> nat set \<Rightarrow> nat set" where
  "change_set [] A = A"
| "change_set (c # cs) A =
     change_set cs (if unat (fst c) < 32 then change_sources (unat (fst c)) (snd c) A else A)"

text \<open>The sources that the interface admits and the code cannot shift to.\<close>

definition unshiftable :: "u32 \<Rightarrow> bool" where
  "unshiftable source \<longleftrightarrow> 32 \<le> unat source \<and> unat source < 64"

text \<open>One change by any source, with a controller that keeps levels.\<close>

lemma shared_change_any:
  assumes "keeps_levels env level" "shared_line_ok line" "level w (sh_irq line) \<longleftrightarrow> active_sources line \<noteq> {}"
    "\<not> unshiftable source"
  shows "\<exists>line' w'. shared_irq_line_change env line source active w = Inr (if unat source < 32 then 0 else -1, line', w') \<and>
    shared_line_ok line' \<and> sh_irq line' = sh_irq line \<and>
    active_sources line' = (if unat source < 32 then change_sources (unat source) active (active_sources line) else active_sources line) \<and>
    level w' = (level w)(sh_irq line := active_sources line' \<noteq> {})"
proof (cases "unat source < 32")
  case True
  from shared_change_level [OF assms(1,2) True assms(3), of active] True show ?thesis by auto
next
  case False
  with assms(4) have "shared_irq_line_change env line source active w = Inr (-1, line, w)"
    by (simp add: shared_line_sources_above_31 unshiftable_def)
  moreover have "level w = (level w)(sh_irq line := active_sources line \<noteq> {})"
    by (rule fun_upd_idem [symmetric]) (use assms(3) in blast)
  ultimately show ?thesis using False assms(2) by auto
qed

lemma change_all_refines:
  assumes "keeps_levels env level" "shared_line_ok line" "level w (sh_irq line) \<longleftrightarrow> active_sources line \<noteq> {}"
  shows "if \<exists>c \<in> set cs. unshiftable (fst c) then change_all env cs (line, w) = Inl Shift_too_far
    else \<exists>line' w'. change_all env cs (line, w) = Inr (map (\<lambda>c. if unat (fst c) < 32 then 0 else -1) cs, line', w') \<and>
      level w' = (level w)(sh_irq line := change_set cs (active_sources line) \<noteq> {})"
  using assms(2-3)
proof (induction cs arbitrary: line w)
  case Nil
  then have "(level w)(sh_irq line := active_sources line \<noteq> {}) = level w" by (intro fun_upd_idem) blast
  then show ?case by simp
next
  case (Cons c cs)
  show ?case
  proof (cases "unshiftable (fst c)")
    case True
    then show ?thesis by (simp add: shared_line_sources_above_31 unshiftable_def)
  next
    case False
    from shared_change_any [OF assms(1) Cons.prems False, of "snd c"] obtain line1 w1 where
      w1: "shared_irq_line_change env line (fst c) (snd c) w = Inr (if unat (fst c) < 32 then 0 else -1, line1, w1)"
      and l1: "shared_line_ok line1" "sh_irq line1 = sh_irq line"
        "active_sources line1 = (if unat (fst c) < 32 then change_sources (unat (fst c)) (snd c) (active_sources line) else active_sources line)"
        "level w1 = (level w)(sh_irq line := active_sources line1 \<noteq> {})"
      by blast
    have "level w1 (sh_irq line1) \<longleftrightarrow> active_sources line1 \<noteq> {}" by (simp add: l1)
    from Cons.IH [OF l1(1) this] w1 l1 False show ?thesis by (auto simp: fun_eq_iff split: if_splits)
  qed
qed

subsection \<open>Properties\<close>

text \<open>
  C15. A shared interrupt line is the wired-OR of its sources. From a freshly initialised line, take
  any sequence of changes by any sources. If one of them is by a source from 32 to 63, which the
  interface admits, the sequence is undefined: it ends in the shift of a 32-bit \<open>int\<close> by too much.
  Otherwise every change by a source below 32 returns 0 and every other, by a source of 64 or more,
  returns -1, and afterwards the guest's interrupt is active exactly when some source below 32
  is, whatever the order and the repetitions; no other interrupt is touched.\<close>

theorem shared_line_is_wired_or:
  assumes "keeps_levels env level" "shared_irq_line_init env line0 v i w0 = (rc, line, w)" "\<not> level w i"
  shows "if \<exists>c \<in> set cs. 32 \<le> unat (fst c) \<and> unat (fst c) < 64 then change_all env cs (line, w) = Inl Shift_too_far
    else \<exists>line' w'. change_all env cs (line, w) = Inr (map (\<lambda>c. if unat (fst c) < 32 then 0 else -1) cs, line', w') \<and>
      level w' = (level w)(i := change_set cs {} \<noteq> {})"
proof -
  have line: "sources line = 0" "sh_irq line = i"
    using assms(2) by (auto simp: shared_irq_line_init_def split: prod.splits)
  then have ok: "shared_line_ok line" "active_sources line = {}"
    by (simp_all add: shared_line_ok_def active_sources_def)
  then have "level w (sh_irq line) \<longleftrightarrow> active_sources line \<noteq> {}" using assms(3) line(2) by simp
  from change_all_refines [OF assms(1) ok(1) this, of cs] show ?thesis
    unfolding line(2) ok(2) unshiftable_def .
qed

text \<open>Controllers that keep only levels, and levels and edges, to show the hypotheses can hold.\<close>

definition level_controller :: "(u32 \<Rightarrow> bool) sel4vm" where
  "level_controller = idle_env\<lparr>vm_set_irq_level := (\<lambda>v i b w. (0, w(i := b)))\<rparr>"

definition edge_controller :: "((u32 \<Rightarrow> bool) \<times> (u32 \<Rightarrow> nat)) sel4vm" where
  "edge_controller = idle_env\<lparr>vm_set_irq_level := (\<lambda>v i b w.
     (0, (fst w)(i := b), if b \<and> \<not> fst w i then (snd w)(i := snd w i + 1) else snd w))\<rparr>"

lemma level_controller_keeps: "keeps_levels level_controller (\<lambda>w. w)"
  by (simp add: keeps_levels_def level_controller_def)

lemma edge_controller_counts: "counts_edges edge_controller fst snd"
  by (simp add: counts_edges_def keeps_levels_def edge_controller_def)

theorem shared_line_is_wired_or_witness:
  "(\<exists>line' w'. change_all level_controller [(3, True), (31, True), (80, True), (3, False)]
      (\<lparr>sh_vcpu = 0, sh_irq = 160, sources = 0\<rparr>, \<lambda>_. False) = Inr ([0, 0, -1, 0], line', w') \<and> w' 160) \<and>
   change_all level_controller [(3, True), (40, True)] (\<lparr>sh_vcpu = 0, sh_irq = 160, sources = 0\<rparr>, \<lambda>_. False) = Inl Shift_too_far"
proof -
  have i: "shared_irq_line_init level_controller \<lparr>sh_vcpu = 1, sh_irq = 7, sources = 9\<rparr> 0 160 (\<lambda>_. False) =
      (0, \<lparr>sh_vcpu = 0, sh_irq = 160, sources = 0\<rparr>, \<lambda>_. False)"
    by (simp add: level_controller_def idle_env_def shared_irq_line_init_def)
  note W = shared_line_is_wired_or [OF level_controller_keeps i]
  show ?thesis
    using W [of "[(3, True), (31, True), (80, True), (3, False)]"] W [of "[(3, True), (40, True)]"]
    by (auto simp: change_sources_def)
qed

lemma shared_line_sources_above_31_witness:
  "shared_irq_line_change level_controller \<lparr>sh_vcpu = 0, sh_irq = 160, sources = 0\<rparr> 40 True (\<lambda>_. False) =
     Inl Shift_too_far"
  using shared_line_sources_above_31 [of 40] by simp

end
