(* ===== verification/Rpc_Protocol.thy ===== *)
theory Rpc_Protocol
  imports Rpc_Messages
begin

text \<open>
  \<open>include/sel4/rpc.h\<close> and \<open>include/sel4/sel4_virt_types.h\<close>: the bit fields of the first
  message register, the operation codes, the layout of the shared memory, and the calls the
  driver VM and the device VM exchange. A call works on the caller's handle (\<open>vso_rpc\<close>), on
  the shared memory and on the world outside, which only the doorbell changes: the doorbell is a
  function pointer that the build generates, hence a field of the handle.
\<close>

subsection \<open>Bit fields\<close>

definition MASK :: "nat \<Rightarrow> seL4_Word" where
  "MASK n = push_bit n 1 - 1"

definition BIT_FIELD_MASK :: "nat \<Rightarrow> nat \<Rightarrow> seL4_Word" where
  "BIT_FIELD_MASK width shift = push_bit shift (MASK width)"

definition BIT_FIELD_CLR_ALL :: "nat \<Rightarrow> nat \<Rightarrow> seL4_Word \<Rightarrow> seL4_Word" where
  "BIT_FIELD_CLR_ALL width shift v = v AND NOT (BIT_FIELD_MASK width shift)"

definition BIT_FIELD_SET_ALL :: "nat \<Rightarrow> nat \<Rightarrow> seL4_Word \<Rightarrow> seL4_Word" where
  "BIT_FIELD_SET_ALL width shift v = v OR BIT_FIELD_MASK width shift"

definition BIT_FIELD_GET :: "nat \<Rightarrow> nat \<Rightarrow> seL4_Word \<Rightarrow> seL4_Word" where
  "BIT_FIELD_GET width shift v = drop_bit shift v AND MASK width"

definition BIT_FIELD_SET :: "nat \<Rightarrow> nat \<Rightarrow> seL4_Word \<Rightarrow> seL4_Word \<Rightarrow> seL4_Word" where
  "BIT_FIELD_SET width shift v n =
     BIT_FIELD_CLR_ALL width shift v OR (push_bit shift n AND BIT_FIELD_MASK width shift)"

definition RPC_MR0_OP_WIDTH :: nat where "RPC_MR0_OP_WIDTH = 6"
definition RPC_MR0_OP_SHIFT :: nat where "RPC_MR0_OP_SHIFT = 0"

definition RPC_MR0_COMMON_WIDTH :: nat where
  "RPC_MR0_COMMON_WIDTH = RPC_MR0_OP_WIDTH + RPC_MR0_OP_SHIFT"
definition RPC_MR0_COMMON_SHIFT :: nat where "RPC_MR0_COMMON_SHIFT = 0"

definition RPC_MR0_MMIO_SLOT_WIDTH :: nat where "RPC_MR0_MMIO_SLOT_WIDTH = 6"
definition RPC_MR0_MMIO_SLOT_SHIFT :: nat where
  "RPC_MR0_MMIO_SLOT_SHIFT = RPC_MR0_COMMON_WIDTH + RPC_MR0_COMMON_SHIFT"

definition RPC_MR0_MMIO_DIRECTION_WIDTH :: nat where "RPC_MR0_MMIO_DIRECTION_WIDTH = 1"
definition RPC_MR0_MMIO_DIRECTION_SHIFT :: nat where
  "RPC_MR0_MMIO_DIRECTION_SHIFT = RPC_MR0_MMIO_SLOT_WIDTH + RPC_MR0_MMIO_SLOT_SHIFT"

definition RPC_MR0_MMIO_ADDR_SPACE_WIDTH :: nat where "RPC_MR0_MMIO_ADDR_SPACE_WIDTH = 8"
definition RPC_MR0_MMIO_ADDR_SPACE_SHIFT :: nat where
  "RPC_MR0_MMIO_ADDR_SPACE_SHIFT = RPC_MR0_MMIO_DIRECTION_WIDTH + RPC_MR0_MMIO_DIRECTION_SHIFT"

definition RPC_MR0_MMIO_LENGTH_WIDTH :: nat where "RPC_MR0_MMIO_LENGTH_WIDTH = 4"
definition RPC_MR0_MMIO_LENGTH_SHIFT :: nat where
  "RPC_MR0_MMIO_LENGTH_SHIFT = RPC_MR0_MMIO_ADDR_SPACE_WIDTH + RPC_MR0_MMIO_ADDR_SPACE_SHIFT"

definition AS_GLOBAL :: u32 where "AS_GLOBAL = ucast (MASK RPC_MR0_MMIO_ADDR_SPACE_WIDTH)"
definition AS_PCIDEV :: "u32 \<Rightarrow> u32" where "AS_PCIDEV pcidev = pcidev"

text \<open>Operation codes (\<open>unsigned int op\<close>) and sub-codes.\<close>

definition QEMU_OP_MMIO :: u32 where "QEMU_OP_MMIO = 0"
definition QEMU_OP_PUTC_LOG :: u32 where "QEMU_OP_PUTC_LOG = 2"
definition QEMU_OP_SET_IRQ :: u32 where "QEMU_OP_SET_IRQ = 16"
definition QEMU_OP_START_VM :: u32 where "QEMU_OP_START_VM = 18"
definition QEMU_OP_REGISTER_PCI_DEV :: u32 where "QEMU_OP_REGISTER_PCI_DEV = 19"
definition QEMU_OP_MMIO_REGION_CONFIG :: u32 where "QEMU_OP_MMIO_REGION_CONFIG = 20"

definition QEMU_OP :: "seL4_Word \<Rightarrow> u32" where
  "QEMU_OP w = ucast (BIT_FIELD_GET RPC_MR0_OP_WIDTH RPC_MR0_OP_SHIFT w)"

lemmas op_code_defs = QEMU_OP_MMIO_def QEMU_OP_PUTC_LOG_def QEMU_OP_SET_IRQ_def
  QEMU_OP_START_VM_def QEMU_OP_REGISTER_PCI_DEV_def QEMU_OP_MMIO_REGION_CONFIG_def

definition SEL4_IO_DIR_READ :: u32 where "SEL4_IO_DIR_READ = 0"
definition SEL4_IO_DIR_WRITE :: u32 where "SEL4_IO_DIR_WRITE = 1"

definition RPC_IRQ_CLR :: u32 where "RPC_IRQ_CLR = 0"
definition RPC_IRQ_SET :: u32 where "RPC_IRQ_SET = 1"
definition RPC_IRQ_PULSE :: u32 where "RPC_IRQ_PULSE = 2"

definition SEL4_MMIO_REGION_FREE :: u32 where "SEL4_MMIO_REGION_FREE = 1"

subsection \<open>Shared memory layout\<close>

definition iobuf_id_drvrpc :: nat where "iobuf_id_drvrpc = 0"
definition iobuf_id_devevt :: nat where "iobuf_id_devevt = 1"
definition iobuf_id_last :: nat where "iobuf_id_last = 2"

definition queue_id_drvrpc_req :: nat where "queue_id_drvrpc_req = 0"
definition queue_id_drvrpc_req_dev :: nat where "queue_id_drvrpc_req_dev = 1"
definition queue_id_drvrpc_resp :: nat where "queue_id_drvrpc_resp = 2"
definition queue_id_devevt :: nat where "queue_id_devevt = 3"
definition queue_id_last :: nat where "queue_id_last = 4"

lemmas iobuf_layout_defs = iobuf_id_drvrpc_def iobuf_id_devevt_def iobuf_id_last_def
  queue_id_drvrpc_req_def queue_id_drvrpc_req_dev_def queue_id_drvrpc_resp_def
  queue_id_devevt_def queue_id_last_def

definition iobuf_queue :: "nat \<Rightarrow> nat \<Rightarrow> rpcmsg_queue_ref" where
  "iobuf_queue bid qid = \<lparr>buffer = bid, queue = qid\<rparr>"

definition driver_drvrpc_req :: rpcmsg_rpc_queue where
  "driver_drvrpc_req = iobuf_queue iobuf_id_drvrpc queue_id_drvrpc_req"
definition driver_drvrpc_resp :: rpcmsg_rpc_queue where
  "driver_drvrpc_resp = iobuf_queue iobuf_id_drvrpc queue_id_drvrpc_resp"
definition device_km_drvrpc_req :: rpcmsg_rpc_queue where
  "device_km_drvrpc_req = iobuf_queue iobuf_id_drvrpc queue_id_drvrpc_req"
definition device_km_drvrpc_resp :: rpcmsg_rpc_queue where
  "device_km_drvrpc_resp = iobuf_queue iobuf_id_drvrpc queue_id_drvrpc_resp"
definition device_drvrpc_req :: rpcmsg_rpc_queue where
  "device_drvrpc_req = iobuf_queue iobuf_id_drvrpc queue_id_drvrpc_req_dev"
definition device_drvrpc_resp :: rpcmsg_rpc_queue where
  "device_drvrpc_resp = iobuf_queue iobuf_id_drvrpc queue_id_drvrpc_resp"
definition devevt_queue :: rpcmsg_event_queue where
  "devevt_queue = iobuf_queue iobuf_id_devevt queue_id_devevt"

lemmas iobuf_ref_defs = driver_drvrpc_req_def driver_drvrpc_resp_def device_km_drvrpc_req_def
  device_km_drvrpc_resp_def device_drvrpc_req_def device_drvrpc_resp_def devevt_queue_def
  iobuf_queue_def

subsection \<open>Handles and calls\<close>

record vso_driver_rpc =
  request :: rpcmsg_rpc_queue
  response :: rpcmsg_rpc_queue
  buffer_state :: rpcmsg_buffer_state

record ('c, 'w) vso_rpc =
  driver_rpc :: vso_driver_rpc
  device_event :: rpcmsg_event_queue
  doorbell :: "('c \<Rightarrow> 'w \<Rightarrow> 'w) option"
  doorbell_cookie :: 'c

text \<open>
  \<open>for_each_rpc_msg(_msg, _queue)\<close> around a loop body that acts on a state of its own and on the
  shared pages.
\<close>

partial_function (option) for_each_rpc_msg ::
  "build \<Rightarrow> rpcmsg_rpc_queue \<Rightarrow> (int \<Rightarrow> 's \<Rightarrow> rpcmsg_iobuf \<Rightarrow> ('s \<times> rpcmsg_iobuf) res) \<Rightarrow> 's \<Rightarrow> rpcmsg_iobuf
     \<Rightarrow> (('s \<times> rpcmsg_iobuf) res) option" where
  "for_each_rpc_msg bd rpc body s mem =
     (case rpcmsg_receive bd rpc mem of
        Inl e \<Rightarrow> Some (Inl e)
      | Inr (msg, mem) \<Rightarrow>
          (case msg of
             None \<Rightarrow> Some (Inr (s, mem))
           | Some off \<Rightarrow>
               (case body off s mem of
                  Inl e \<Rightarrow> Some (Inl e)
                | Inr (s, mem) \<Rightarrow> for_each_rpc_msg bd rpc body s mem)))"

text \<open>The first argument is \<open>None\<close> for a null handle.\<close>

definition vso_doorbell :: "('c, 'w) vso_rpc option \<Rightarrow> 'w \<Rightarrow> int \<times> 'w" where
  "vso_doorbell rpc w =
     (case rpc of
        None \<Rightarrow> (-1, w)
      | Some r \<Rightarrow> (case doorbell r of None \<Rightarrow> (-1, w) | Some f \<Rightarrow> (0, f (doorbell_cookie r) w)))"

definition set_op :: "seL4_Word \<Rightarrow> u32 \<Rightarrow> seL4_Word" where
  "set_op w op = BIT_FIELD_SET RPC_MR0_OP_WIDTH RPC_MR0_OP_SHIFT w (ucast op)"

definition driver_rpc_request ::
  "build \<Rightarrow> ('c, 'w) vso_rpc \<Rightarrow> rpcmsg_iobuf \<Rightarrow> 'w \<Rightarrow> u32 \<Rightarrow> rpcmsg
     \<Rightarrow> (int \<times> ('c, 'w) vso_rpc \<times> rpcmsg_iobuf \<times> 'w) res" where
  "driver_rpc_request bd rpc mem w op m =
     (let m = m\<lparr>mr0 := set_op (mr0 m) op\<rparr>; drv = driver_rpc rpc in
      andthen (rpcmsg_request bd (request drv) (buffer_state drv) mem m) (\<lambda>(err, st, mem).
        let rpc = rpc\<lparr>driver_rpc := drv\<lparr>buffer_state := st\<rparr>\<rparr> in
        if err < 0 then Inr (err, rpc, mem, w)
        else let (rc, w) = vso_doorbell (Some rpc) w in Inr (rc, rpc, mem, w)))"

definition driver_rpc_request_fwd ::
  "build \<Rightarrow> ('c, 'w) vso_rpc \<Rightarrow> rpcmsg_iobuf \<Rightarrow> rpcmsg_ptr \<Rightarrow> (int \<times> rpcmsg_iobuf) res" where
  "driver_rpc_request_fwd bd dst mem msg =
     asserting (msg \<noteq> None) (rpcmsg_forward bd (request (driver_rpc dst)) mem msg)"

definition driver_rpc_reply ::
  "build \<Rightarrow> ('c, 'w) vso_rpc \<Rightarrow> rpcmsg_iobuf \<Rightarrow> 'w \<Rightarrow> rpcmsg_ptr \<Rightarrow> (int \<times> rpcmsg_iobuf \<times> 'w) res" where
  "driver_rpc_reply bd rpc mem w msg =
     asserting (msg \<noteq> None)
      (andthen (rpcmsg_reply bd (response (driver_rpc rpc)) mem msg) (\<lambda>(err, mem).
        if err \<noteq> 0 then Inr (err, mem, w)
        else let (rc, w) = vso_doorbell (Some rpc) w in Inr (rc, mem, w)))"

definition driver_rpc_request_pending :: "('c, 'w) vso_rpc \<Rightarrow> rpcmsg_iobuf \<Rightarrow> int res" where
  "driver_rpc_request_pending rpc mem =
     andthen (load_queue mem (request (driver_rpc rpc))) (\<lambda>(q, b).
       Inr (if rpcmsg_queue_empty q then 1 else 0))"

definition device_event_tx ::
  "build \<Rightarrow> ('c, 'w) vso_rpc \<Rightarrow> rpcmsg_iobuf \<Rightarrow> 'w \<Rightarrow> u32 \<Rightarrow> rpcmsg \<Rightarrow> (int \<times> rpcmsg_iobuf \<times> 'w) res" where
  "device_event_tx bd rpc mem w op m =
     andthen (rpcmsg_event_tx bd (device_event rpc) mem (m\<lparr>mr0 := set_op (mr0 m) op\<rparr>)) (\<lambda>(err, mem).
       if err \<noteq> 0 then Inr (err, mem, w)
       else let (rc, w) = vso_doorbell (Some rpc) w in Inr (rc, mem, w))"

definition device_rpc_req_start_vm ::
  "build \<Rightarrow> ('c, 'w) vso_rpc \<Rightarrow> rpcmsg_iobuf \<Rightarrow> 'w \<Rightarrow> (int \<times> rpcmsg_iobuf \<times> 'w) res" where
  "device_rpc_req_start_vm bd rpc mem w = device_event_tx bd rpc mem w QEMU_OP_START_VM zero_msg"

definition device_rpc_req_create_vpci_device ::
  "build \<Rightarrow> ('c, 'w) vso_rpc \<Rightarrow> rpcmsg_iobuf \<Rightarrow> 'w \<Rightarrow> seL4_Word \<Rightarrow> (int \<times> rpcmsg_iobuf \<times> 'w) res" where
  "device_rpc_req_create_vpci_device bd rpc mem w pcidev =
     device_event_tx bd rpc mem w QEMU_OP_REGISTER_PCI_DEV
       \<lparr>mr0 = 0, mr1 = pcidev, mr2 = 0, mr3 = 0\<rparr>"

definition device_rpc_req_mmio_region_config ::
  "build \<Rightarrow> ('c, 'w) vso_rpc \<Rightarrow> rpcmsg_iobuf \<Rightarrow> 'w \<Rightarrow> seL4_Word \<Rightarrow> seL4_Word \<Rightarrow> seL4_Word
     \<Rightarrow> (int \<times> rpcmsg_iobuf \<times> 'w) res" where
  "device_rpc_req_mmio_region_config bd rpc mem w gpa sz flags =
     device_event_tx bd rpc mem w QEMU_OP_MMIO_REGION_CONFIG
       \<lparr>mr0 = 0, mr1 = gpa, mr2 = sz, mr3 = flags\<rparr>"

definition device_rpc_req_set_irqline ::
  "build \<Rightarrow> ('c, 'w) vso_rpc \<Rightarrow> rpcmsg_iobuf \<Rightarrow> 'w \<Rightarrow> seL4_Word \<Rightarrow> (int \<times> rpcmsg_iobuf \<times> 'w) res" where
  "device_rpc_req_set_irqline bd rpc mem w irq =
     device_event_tx bd rpc mem w QEMU_OP_SET_IRQ
       \<lparr>mr0 = 0, mr1 = irq, mr2 = ucast RPC_IRQ_SET, mr3 = 0\<rparr>"

definition device_rpc_req_clear_irqline ::
  "build \<Rightarrow> ('c, 'w) vso_rpc \<Rightarrow> rpcmsg_iobuf \<Rightarrow> 'w \<Rightarrow> seL4_Word \<Rightarrow> (int \<times> rpcmsg_iobuf \<times> 'w) res" where
  "device_rpc_req_clear_irqline bd rpc mem w irq =
     device_event_tx bd rpc mem w QEMU_OP_SET_IRQ
       \<lparr>mr0 = 0, mr1 = irq, mr2 = ucast RPC_IRQ_CLR, mr3 = 0\<rparr>"

definition device_rpc_req_pulse_irqline ::
  "build \<Rightarrow> ('c, 'w) vso_rpc \<Rightarrow> rpcmsg_iobuf \<Rightarrow> 'w \<Rightarrow> seL4_Word \<Rightarrow> (int \<times> rpcmsg_iobuf \<times> 'w) res" where
  "device_rpc_req_pulse_irqline bd rpc mem w irq =
     device_event_tx bd rpc mem w QEMU_OP_SET_IRQ
       \<lparr>mr0 = 0, mr1 = irq, mr2 = ucast RPC_IRQ_PULSE, mr3 = 0\<rparr>"

definition mmio_mr0 :: "u32 \<Rightarrow> u32 \<Rightarrow> u32 \<Rightarrow> seL4_Word \<Rightarrow> seL4_Word" where
  "mmio_mr0 direction addr_space slot len =
     (let w = 0;
          w = BIT_FIELD_SET RPC_MR0_MMIO_DIRECTION_WIDTH RPC_MR0_MMIO_DIRECTION_SHIFT w (ucast direction);
          w = BIT_FIELD_SET RPC_MR0_MMIO_ADDR_SPACE_WIDTH RPC_MR0_MMIO_ADDR_SPACE_SHIFT w (ucast addr_space);
          w = BIT_FIELD_SET RPC_MR0_MMIO_LENGTH_WIDTH RPC_MR0_MMIO_LENGTH_SHIFT w len;
          w = BIT_FIELD_SET RPC_MR0_MMIO_SLOT_WIDTH RPC_MR0_MMIO_SLOT_SHIFT w (ucast slot)
      in w)"

definition driver_rpc_req_mmio_start ::
  "build \<Rightarrow> ('c, 'w) vso_rpc \<Rightarrow> rpcmsg_iobuf \<Rightarrow> 'w \<Rightarrow> u32 \<Rightarrow> u32 \<Rightarrow> u32
     \<Rightarrow> seL4_Word \<Rightarrow> seL4_Word \<Rightarrow> seL4_Word
     \<Rightarrow> (int \<times> ('c, 'w) vso_rpc \<times> rpcmsg_iobuf \<times> 'w) res" where
  "driver_rpc_req_mmio_start bd rpc mem w direction addr_space slot addr len data =
     driver_rpc_request bd rpc mem w QEMU_OP_MMIO
       \<lparr>mr0 = mmio_mr0 direction addr_space slot len, mr1 = addr, mr2 = data, mr3 = 0\<rparr>"

text \<open>The message lies in the table of the response queue.\<close>

definition driver_rpc_ack_mmio_finish ::
  "build \<Rightarrow> ('c, 'w) vso_rpc \<Rightarrow> rpcmsg_iobuf \<Rightarrow> 'w \<Rightarrow> rpcmsg_ptr \<Rightarrow> seL4_Word
     \<Rightarrow> (int \<times> rpcmsg_iobuf \<times> 'w) res" where
  "driver_rpc_ack_mmio_finish bd rpc mem w msg data =
     andthen (load_queue mem (response (driver_rpc rpc))) (\<lambda>(q, b).
     andthen (read_msg b msg) (\<lambda>m.
     andthen (write_msg b msg (m\<lparr>mr2 := data\<rparr>)) (\<lambda>b.
       driver_rpc_reply bd rpc (store_queue mem (response (driver_rpc rpc)) q b) w msg)))"

subsection \<open>Initialisation\<close>

definition vso_rpc_driver :: int where "vso_rpc_driver = 0"
definition vso_rpc_device_km :: int where "vso_rpc_device_km = 1"
definition vso_rpc_device :: int where "vso_rpc_device = 2"

definition vso_driver_rpc_init ::
  "int \<Rightarrow> vso_driver_rpc \<Rightarrow> rpcmsg_iobuf \<Rightarrow> (int \<times> vso_driver_rpc \<times> rpcmsg_iobuf) res" where
  "vso_driver_rpc_init i drvrpc mem =
     (if i = vso_rpc_driver then
        let drvrpc = drvrpc\<lparr>request := driver_drvrpc_req, response := driver_drvrpc_resp\<rparr> in
        andthen (rpcmsg_call_queue_init mem (request drvrpc)) (\<lambda>mem.
        andthen (rpcmsg_reply_queue_init mem (response drvrpc)) (\<lambda>mem.
        andthen (load_queue mem (request drvrpc)) (\<lambda>(q, b).
          Inr (0, drvrpc, store_queue mem (request drvrpc) q (rpcmsg_buffer_init b)))))
      else if i = vso_rpc_device_km then
        Inr (0, drvrpc\<lparr>request := device_km_drvrpc_req, response := device_km_drvrpc_resp\<rparr>, mem)
      else if i = vso_rpc_device then
        Inr (0, drvrpc\<lparr>request := device_drvrpc_req, response := device_drvrpc_resp\<rparr>, mem)
      else Inr (-1, drvrpc, mem))"

definition vso_rpc_init ::
  "('c, 'w) vso_rpc option \<Rightarrow> int \<Rightarrow> ('c \<Rightarrow> 'w \<Rightarrow> 'w) option \<Rightarrow> 'c \<Rightarrow> rpcmsg_iobuf
     \<Rightarrow> (int \<times> ('c, 'w) vso_rpc option \<times> rpcmsg_iobuf) res" where
  "vso_rpc_init rpc i bell cookie mem =
     (case (rpc, bell) of
        (Some r, Some f) \<Rightarrow>
          andthen (vso_driver_rpc_init i (driver_rpc r) mem) (\<lambda>(err, drv, mem).
            let r = r\<lparr>driver_rpc := drv\<rparr> in
            if err \<noteq> 0 then Inr (-1, Some r, mem)
            else Inr (0, Some (r\<lparr>device_event := devevt_queue, doorbell := Some f,
                                doorbell_cookie := cookie\<rparr>), mem))
      | _ \<Rightarrow> Inr (-1, rpc, mem))"

subsection \<open>Fields of a register\<close>

lemma bit_MASK: "n \<le> 64 \<Longrightarrow> bit (MASK n) i \<longleftrightarrow> i < n"
proof -
  assume "n \<le> 64"
  have "MASK n = mask n" by (simp add: MASK_def mask_eq_exp_minus_1)
  with \<open>n \<le> 64\<close> show ?thesis by (auto simp: bit_mask_iff)
qed

locale bit_field =
  fixes width shift :: nat
  assumes fits: "width + shift \<le> 64"
begin

lemma bit_field_mask: "bit (BIT_FIELD_MASK width shift) i \<longleftrightarrow> shift \<le> i \<and> i < width + shift"
  using fits by (auto simp: BIT_FIELD_MASK_def bit_push_bit_iff bit_MASK)

lemma bit_get: "bit (BIT_FIELD_GET width shift v) i \<longleftrightarrow> i < width \<and> bit v (shift + i)"
  using fits by (auto simp: BIT_FIELD_GET_def bit_and_iff bit_drop_bit_eq bit_MASK)

lemma bit_set:
  "bit (BIT_FIELD_SET width shift v n) i \<longleftrightarrow>
     (if shift \<le> i \<and> i < width + shift then bit n (i - shift) else bit v i)"
  using fits
  by (auto simp: BIT_FIELD_SET_def BIT_FIELD_CLR_ALL_def bit_or_iff bit_and_iff bit_not_iff
      bit_field_mask bit_push_bit_iff dest: bit_imp_le_length)

lemma get_set: "BIT_FIELD_GET width shift (BIT_FIELD_SET width shift v n) = take_bit width n"
  by (rule bit_eqI) (auto simp: bit_get bit_set bit_take_bit_iff)

lemma get_bound: "BIT_FIELD_GET width shift v = take_bit width (drop_bit shift v)"
  by (rule bit_eqI) (auto simp: bit_get bit_take_bit_iff bit_drop_bit_eq)

end

locale field_pair = a: bit_field wa sa + b: bit_field wb sb
  for wa sa wb sb :: nat +
  assumes apart: "sa + wa \<le> sb \<or> sb + wb \<le> sa"
begin

lemma get_a_set_b: "BIT_FIELD_GET wa sa (BIT_FIELD_SET wb sb v n) = BIT_FIELD_GET wa sa v"
  using apart by (intro bit_eqI) (auto simp: a.bit_get b.bit_set)

lemma get_b_set_a: "BIT_FIELD_GET wb sb (BIT_FIELD_SET wa sa v n) = BIT_FIELD_GET wb sb v"
  using apart by (intro bit_eqI) (auto simp: b.bit_get a.bit_set)

end

lemmas mr0_field_defs = RPC_MR0_OP_WIDTH_def RPC_MR0_OP_SHIFT_def RPC_MR0_COMMON_WIDTH_def
  RPC_MR0_COMMON_SHIFT_def RPC_MR0_MMIO_SLOT_WIDTH_def RPC_MR0_MMIO_SLOT_SHIFT_def
  RPC_MR0_MMIO_DIRECTION_WIDTH_def RPC_MR0_MMIO_DIRECTION_SHIFT_def
  RPC_MR0_MMIO_ADDR_SPACE_WIDTH_def RPC_MR0_MMIO_ADDR_SPACE_SHIFT_def
  RPC_MR0_MMIO_LENGTH_WIDTH_def RPC_MR0_MMIO_LENGTH_SHIFT_def

interpretation op_slot: field_pair RPC_MR0_OP_WIDTH RPC_MR0_OP_SHIFT
  RPC_MR0_MMIO_SLOT_WIDTH RPC_MR0_MMIO_SLOT_SHIFT
  by unfold_locales (simp_all add: mr0_field_defs)

interpretation op_dir: field_pair RPC_MR0_OP_WIDTH RPC_MR0_OP_SHIFT
  RPC_MR0_MMIO_DIRECTION_WIDTH RPC_MR0_MMIO_DIRECTION_SHIFT
  by unfold_locales (simp_all add: mr0_field_defs)

interpretation op_as: field_pair RPC_MR0_OP_WIDTH RPC_MR0_OP_SHIFT
  RPC_MR0_MMIO_ADDR_SPACE_WIDTH RPC_MR0_MMIO_ADDR_SPACE_SHIFT
  by unfold_locales (simp_all add: mr0_field_defs)

interpretation op_len: field_pair RPC_MR0_OP_WIDTH RPC_MR0_OP_SHIFT
  RPC_MR0_MMIO_LENGTH_WIDTH RPC_MR0_MMIO_LENGTH_SHIFT
  by unfold_locales (simp_all add: mr0_field_defs)

interpretation slot_dir: field_pair RPC_MR0_MMIO_SLOT_WIDTH RPC_MR0_MMIO_SLOT_SHIFT
  RPC_MR0_MMIO_DIRECTION_WIDTH RPC_MR0_MMIO_DIRECTION_SHIFT
  by unfold_locales (simp_all add: mr0_field_defs)

interpretation slot_as: field_pair RPC_MR0_MMIO_SLOT_WIDTH RPC_MR0_MMIO_SLOT_SHIFT
  RPC_MR0_MMIO_ADDR_SPACE_WIDTH RPC_MR0_MMIO_ADDR_SPACE_SHIFT
  by unfold_locales (simp_all add: mr0_field_defs)

interpretation slot_len: field_pair RPC_MR0_MMIO_SLOT_WIDTH RPC_MR0_MMIO_SLOT_SHIFT
  RPC_MR0_MMIO_LENGTH_WIDTH RPC_MR0_MMIO_LENGTH_SHIFT
  by unfold_locales (simp_all add: mr0_field_defs)

interpretation dir_as: field_pair RPC_MR0_MMIO_DIRECTION_WIDTH RPC_MR0_MMIO_DIRECTION_SHIFT
  RPC_MR0_MMIO_ADDR_SPACE_WIDTH RPC_MR0_MMIO_ADDR_SPACE_SHIFT
  by unfold_locales (simp_all add: mr0_field_defs)

interpretation dir_len: field_pair RPC_MR0_MMIO_DIRECTION_WIDTH RPC_MR0_MMIO_DIRECTION_SHIFT
  RPC_MR0_MMIO_LENGTH_WIDTH RPC_MR0_MMIO_LENGTH_SHIFT
  by unfold_locales (simp_all add: mr0_field_defs)

interpretation as_len: field_pair RPC_MR0_MMIO_ADDR_SPACE_WIDTH RPC_MR0_MMIO_ADDR_SPACE_SHIFT
  RPC_MR0_MMIO_LENGTH_WIDTH RPC_MR0_MMIO_LENGTH_SHIFT
  by unfold_locales (simp_all add: mr0_field_defs)

lemmas mr0_fields =
  op_slot.get_a_set_b op_slot.get_b_set_a op_dir.get_a_set_b op_dir.get_b_set_a
  op_as.get_a_set_b op_as.get_b_set_a op_len.get_a_set_b op_len.get_b_set_a
  slot_dir.get_a_set_b slot_dir.get_b_set_a slot_as.get_a_set_b slot_as.get_b_set_a
  slot_len.get_a_set_b slot_len.get_b_set_a dir_as.get_a_set_b dir_as.get_b_set_a
  dir_len.get_a_set_b dir_len.get_b_set_a as_len.get_a_set_b as_len.get_b_set_a
  op_slot.a.get_set op_slot.b.get_set op_dir.b.get_set op_as.b.get_set op_len.b.get_set

abbreviation mmio_slot :: "seL4_Word \<Rightarrow> seL4_Word" where
  "mmio_slot \<equiv> BIT_FIELD_GET RPC_MR0_MMIO_SLOT_WIDTH RPC_MR0_MMIO_SLOT_SHIFT"
abbreviation mmio_direction :: "seL4_Word \<Rightarrow> seL4_Word" where
  "mmio_direction \<equiv> BIT_FIELD_GET RPC_MR0_MMIO_DIRECTION_WIDTH RPC_MR0_MMIO_DIRECTION_SHIFT"
abbreviation mmio_addr_space :: "seL4_Word \<Rightarrow> seL4_Word" where
  "mmio_addr_space \<equiv> BIT_FIELD_GET RPC_MR0_MMIO_ADDR_SPACE_WIDTH RPC_MR0_MMIO_ADDR_SPACE_SHIFT"
abbreviation mmio_length :: "seL4_Word \<Rightarrow> seL4_Word" where
  "mmio_length \<equiv> BIT_FIELD_GET RPC_MR0_MMIO_LENGTH_WIDTH RPC_MR0_MMIO_LENGTH_SHIFT"

lemma mmio_mr0_fields:
  "mmio_slot (set_op (mmio_mr0 d a s l) op) = take_bit 6 (ucast s)"
  "mmio_direction (set_op (mmio_mr0 d a s l) op) = take_bit 1 (ucast d)"
  "mmio_addr_space (set_op (mmio_mr0 d a s l) op) = take_bit 8 (ucast a)"
  "mmio_length (set_op (mmio_mr0 d a s l) op) = take_bit 4 l"
  unfolding set_op_def mmio_mr0_def Let_def
  by (simp_all add: mr0_fields)
    (simp_all add: mr0_field_defs)

lemma QEMU_OP_set_op:
  assumes "unat op < 64"
  shows "QEMU_OP (set_op w op) = op"
proof -
  have "QEMU_OP (set_op w op) = take_bit 6 op"
    unfolding QEMU_OP_def set_op_def op_slot.a.get_set
    by (rule bit_eqI) (auto simp: RPC_MR0_OP_WIDTH_def bit_unsigned_iff bit_take_bit_iff)
  also have "\<dots> = op"
    using assms by (simp add: take_bit_eq_mod word_unat_eq_iff unat_mod)
  finally show ?thesis .
qed

text \<open>
  The packed register of an MMIO request loses nothing that fits: for a slot below 64, a
  direction of one bit, an address space of eight bits and a length below 16 the receiver reads
  back exactly what was packed, and the operation is still recognised as an MMIO operation.
\<close>

lemma mmio_register_round_trip:
  assumes "unat s < 64" "unat d < 2" "unat a < 256" "unat l < 16"
  defines "r \<equiv> set_op (mmio_mr0 d a s l) QEMU_OP_MMIO"
  shows "mmio_slot r = ucast s \<and> mmio_direction r = ucast d \<and> mmio_addr_space r = ucast a \<and> mmio_length r = l
    \<and> QEMU_OP r = QEMU_OP_MMIO"
proof -
  have t: "take_bit n (ucast x :: u64) = ucast x" if "unat x < 2 ^ n" for n and x :: u32
  proof -
    have "take_bit n x = x" using that by (simp add: word_unat_eq_iff unsigned_take_bit_eq take_bit_nat_eq_self)
    then show ?thesis by (metis unsigned_take_bit_eq unsigned_ucast_eq)
  qed
  have "take_bit 4 l = l" using assms(4) by (simp add: word_unat_eq_iff unsigned_take_bit_eq take_bit_nat_eq_self)
  with assms(1-3) t [of s 6] t [of d 1] t [of a 8] show ?thesis
    unfolding r_def mmio_mr0_fields by (simp add: QEMU_OP_set_op op_code_defs)
qed

lemma mmio_register_round_trip_witness:
  "mmio_slot (set_op (mmio_mr0 1 255 35 8) QEMU_OP_MMIO) = 35 \<and>
   mmio_addr_space (set_op (mmio_mr0 1 255 35 8) QEMU_OP_MMIO) = 255"
  using mmio_register_round_trip [of 35 1 255 8] by simp

subsection \<open>The shared memory at boot\<close>

text \<open>The page the build allocates is zeroed: two empty tables and four empty rings.\<close>

definition boot_iobuf :: rpcmsg_iobuf where
  "boot_iobuf =
     \<lparr>buffers = replicate iobuf_id_last \<lparr>messages = replicate RPCMSG_BUFFER_SIZE zero_msg\<rparr>,
      queues = replicate queue_id_last
        \<lparr>prod_b = zero_bound, cons_b = zero_bound, ring = replicate RPCMSG_BUFFER_SIZE 0\<rparr>\<rparr>"

lemma boot_queue:
  assumes "queue r < queue_id_last" "buffer r < iobuf_id_last"
  shows "event_ok r boot_iobuf" "rpc_ok r boot_iobuf" "event_contents r boot_iobuf = []"
    "rpc_contents r boot_iobuf = []"
proof -
  have q: "queue_at boot_iobuf r = rpcmsg_queue_init (queue_at boot_iobuf r)"
    using assms(1) by (simp add: boot_iobuf_def queue_at_def rpcmsg_queue_init_def)
  have "queue_ok (queue_at boot_iobuf r)" "queue_ids (queue_at boot_iobuf r) = []"
    using queue_init_ok [of "queue_at boot_iobuf r"] q by simp_all
  moreover from this(2) have "queue_len (queue_at boot_iobuf r) = 0"
    by (metis length_queue_ids list.size(3))
  moreover have "length (messages (buffer_at boot_iobuf r)) = RPCMSG_BUFFER_SIZE"
    using assms(2) by (simp add: boot_iobuf_def buffer_at_def)
  ultimately show "event_ok r boot_iobuf" "rpc_ok r boot_iobuf" "event_contents r boot_iobuf = []"
    "rpc_contents r boot_iobuf = []"
    using assms
    by (simp_all add: event_ok_def rpc_ok_def ref_ok_def event_contents_def rpc_contents_def)
      (simp_all add: boot_iobuf_def)
qed

lemma boot_refs:
  "event_ok devevt_queue boot_iobuf" "rpc_ok driver_drvrpc_req boot_iobuf"
  "rpc_ok driver_drvrpc_resp boot_iobuf" "event_contents devevt_queue boot_iobuf = []"
  "rpc_contents driver_drvrpc_req boot_iobuf = []" "rpc_contents driver_drvrpc_resp boot_iobuf = []"
  by (simp_all add: boot_queue iobuf_ref_defs iobuf_layout_defs)

lemma boot_state: "state_ok [0]" "lent [0] = {}"
  by (simp add: state_ok_def slots_simps)
    (simp add: lent_def bitmap_test_def RPCMSG_BUFFER_SIZE_def n_bits_def)

subsection \<open>Properties\<close>

text \<open>
  C3. The event queue implements a bounded first-in first-out queue of messages: from any
  well-formed state of the shared memory, every sequence of \<open>rpcmsg_event_tx\<close> and
  \<open>rpcmsg_event_rx\<close> calls returns (without abort and without spinning) exactly what the same
  sequence returns on a list of capacity 32, including the refusals when full and when empty,
  at any position of the wrapping counters.
\<close>

theorem event_queue_simulates_list:
  assumes "event_ok r mem"
  shows "\<exists>mem'. fifo_run (rpcmsg_event_tx bd r) (rpcmsg_event_rx bd r) mem ops =
             Inr (fst (spec_run (event_contents r mem) ops), mem') \<and>
           event_ok r mem' \<and> event_contents r mem' = snd (spec_run (event_contents r mem) ops)"
proof -
  have "sends_ok (\<lambda>_. True) ops" by (induction "\<lambda>_::rpcmsg. True" ops rule: sends_ok.induct) simp_all
  with events.run_simulates [OF assms, of ops] show ?thesis by simp
qed

theorem event_queue_simulates_list_witness:
  "event_ok devevt_queue boot_iobuf \<and>
   (\<exists>mem'. fifo_run (rpcmsg_event_tx Userspace devevt_queue) (rpcmsg_event_rx Userspace devevt_queue)
      boot_iobuf [Send zero_msg, Send (zero_msg\<lparr>mr0 := 18\<rparr>), Recv, Recv, Recv] =
      Inr ([Sent 0, Sent 0, Got (Some zero_msg), Got (Some (zero_msg\<lparr>mr0 := 18\<rparr>)), Got None], mem'))"
  using event_queue_simulates_list [OF boot_refs(1), of Userspace
      "[Send zero_msg, Send (zero_msg\<lparr>mr0 := 18\<rparr>), Recv, Recv, Recv]"] boot_refs(1,4)
  by (auto simp: RPCMSG_BUFFER_SIZE_def)

end
