(* ===== verification/Gicv2m.thy ===== *)
theory Gicv2m
  imports Irq_Lines Rpc_Protocol
begin

unbundle bit_operations_syntax

text \<open>
  The GICv2m frame that turns message-signalled interrupts into SPIs (\<open>src/gicv2m.c\<close>), and
  the MSI request handler of the two platforms (\<open>src/plat/rpi4/msi.c\<close>,
  \<open>src/plat/qemu-arm-virt/msi.c\<close>) with its weak default (\<open>src/msi.c\<close>).
\<close>

subsection \<open>The frame\<close>

definition GICV2M_IRQ_MAX :: nat where "GICV2M_IRQ_MAX = 128"

record gicv2m =
  base :: u64
  fsize :: u64
  irq_lines :: "irq_line list"
  irq_base :: u32
  num_irq :: u32

definition V2M_MSI_TYPER :: u64 where "V2M_MSI_TYPER = 0x008"
definition V2M_MSI_SETSPI_NS :: u64 where "V2M_MSI_SETSPI_NS = 0x040"
definition V2M_MSI_IIDR :: u64 where "V2M_MSI_IIDR = 0xFCC"
definition V2M_IIDR0 :: u64 where "V2M_IIDR0 = 0xFD0"
definition V2M_IIDR11 :: u64 where "V2M_IIDR11 = 0xFFC"

lemmas v2m_reg_defs = V2M_MSI_TYPER_def V2M_MSI_SETSPI_NS_def V2M_MSI_IIDR_def V2M_IIDR0_def V2M_IIDR11_def

text \<open>Whether the read is handled, and the word stored through \<open>data\<close> if one is.\<close>

definition v2m_read_fault :: "gicv2m \<Rightarrow> u64 \<Rightarrow> u64 \<Rightarrow> bool \<times> u32 option" where
  "v2m_read_fault s paddr len =
     (if len \<noteq> 4 then (False, None)
      else
        let off = paddr - base s in
        if off = V2M_MSI_TYPER then (True, Some (push_bit 16 (irq_base s) OR num_irq s))
        else if off = V2M_MSI_IIDR then (True, Some (push_bit 20 0x53))
        else if V2M_IIDR0 \<le> off \<and> off \<le> V2M_IIDR11 then (True, Some 0)
        else (False, None))"

definition v2m_write_fault ::
  "'w sel4vm \<Rightarrow> gicv2m \<Rightarrow> u64 \<Rightarrow> u64 \<Rightarrow> u32 \<Rightarrow> 'w \<Rightarrow> (bool \<times> 'w) res" where
  "v2m_write_fault env s paddr len data w =
     (if len \<noteq> 2 \<and> len \<noteq> 4 then Inr (False, w)
      else if paddr - base s = V2M_MSI_SETSPI_NS then
        let spi = (data AND 0x3ff) - irq_base s in
        if spi < num_irq s then
          andthen (array_get (irq_lines s) (unat spi)) (\<lambda>line.
            let (err, w) = irq_line_pulse env line w in Inr (err = 0, w))
        else Inr (True, w)
      else Inr (False, w))"

text \<open>The data register is written back on a read even when the read is not handled.\<close>

definition v2m_fault_handler ::
  "'w sel4vm \<Rightarrow> gicv2m \<Rightarrow> vcpu \<Rightarrow> u64 \<Rightarrow> u64 \<Rightarrow> 'w \<Rightarrow> (fault_result \<times> 'w) res" where
  "v2m_fault_handler env s v paddr len w =
     andthen
       (if is_vcpu_read_fault env v w then
          let (handled, data) = v2m_read_fault s paddr len in
          Inr (handled, set_vcpu_fault_data env v (ucast (case data of Some d \<Rightarrow> d | None \<Rightarrow> 0)) w)
        else v2m_write_fault env s paddr len (ucast (emulate_vcpu_fault env v 0 w)) w)
       (\<lambda>(handled, w).
          if \<not> handled then Inr (FAULT_UNHANDLED, w)
          else Inr (FAULT_HANDLED, advance_vcpu_fault env v w))"

definition v2m_irq_valid :: "gicv2m \<Rightarrow> u32 \<Rightarrow> bool" where
  "v2m_irq_valid s i \<longleftrightarrow> i \<ge> irq_base s \<and> i < irq_base s + num_irq s"

definition v2m_inject_irq :: "'w sel4vm \<Rightarrow> gicv2m \<Rightarrow> u32 \<Rightarrow> 'w \<Rightarrow> (int \<times> 'w) res" where
  "v2m_inject_irq env s i w =
     (if \<not> v2m_irq_valid s i then Inr (-1, w)
      else andthen (array_get (irq_lines s) (unat (i - irq_base s))) (\<lambda>line. Inr (irq_line_pulse env line w)))"

text \<open>The loop of \<open>v2m_init\<close> at index \<open>i\<close> with \<open>n\<close> lines to go.\<close>

fun v2m_init_lines :: "'w sel4vm \<Rightarrow> gicv2m \<Rightarrow> nat \<Rightarrow> nat \<Rightarrow> 'w \<Rightarrow> (int \<times> gicv2m \<times> 'w) res" where
  "v2m_init_lines env s i 0 w = Inr (0, s, w)"
| "v2m_init_lines env s i (Suc n) w =
     andthen (array_get (irq_lines s) i) (\<lambda>line.
       case irq_line_init env line (boot_vcpu env) (irq_base s + of_nat i) None w of
         (err, line, w) \<Rightarrow>
           let s = s\<lparr>irq_lines := (irq_lines s)[i := line]\<rparr> in
           if err \<noteq> 0 then Inr (err, s, w) else v2m_init_lines env s (Suc i) n w)"

definition v2m_init :: "'w sel4vm \<Rightarrow> gicv2m \<Rightarrow> 'w \<Rightarrow> (int \<times> gicv2m \<times> 'w) res" where
  "v2m_init env s w =
     (if num_irq s > of_nat GICV2M_IRQ_MAX then Inr (-1, s, w)
      else if irq_base s + num_irq s > 1020 then Inr (-1, s, w)
      else
        andthen (v2m_init_lines env s 0 (unat (num_irq s)) w) (\<lambda>(err, s, w).
          if err \<noteq> 0 then Inr (err, s, w)
          else case vm_reserve_memory_at env (base s) (fsize s) V2m_fault_handler w of
                 (None, w) \<Rightarrow> Inr (-1, s, w)
               | (Some r, w) \<Rightarrow> Inr (0, s, w)))"

subsection \<open>Message-signalled interrupts\<close>

definition RPCMSG_RC_ERROR :: int where "RPCMSG_RC_ERROR = -1"
definition RPCMSG_RC_NONE :: int where "RPCMSG_RC_NONE = 0"
definition RPCMSG_RC_HANDLED :: int where "RPCMSG_RC_HANDLED = 1"

lemmas rc_defs = RPCMSG_RC_ERROR_def RPCMSG_RC_NONE_def RPCMSG_RC_HANDLED_def

definition zero_line :: irq_line where
  "zero_line = \<lparr>line_vcpu = 0, irq = 0, cookie = None\<rparr>"

definition v2m_rpi4 :: gicv2m where
  "v2m_rpi4 = \<lparr>base = 0x08021000, fsize = 0x1000, irq_lines = replicate GICV2M_IRQ_MAX zero_line,
     irq_base = 144, num_irq = 32\<rparr>"

definition v2m_qemu :: gicv2m where
  "v2m_qemu = \<lparr>base = 0x08020000, fsize = 0x1000, irq_lines = replicate GICV2M_IRQ_MAX zero_line,
     irq_base = 96, num_irq = 32\<rparr>"

definition msi_irq_set :: "'w sel4vm \<Rightarrow> gicv2m \<Rightarrow> u32 \<Rightarrow> u32 \<Rightarrow> 'w \<Rightarrow> (int \<times> 'w) res" where
  "msi_irq_set env v2m i op w =
     (if \<not> v2m_irq_valid v2m i then Inr (RPCMSG_RC_NONE, w)
      else if op = RPC_IRQ_SET \<or> op = RPC_IRQ_PULSE then
        andthen (v2m_inject_irq env v2m i w) (\<lambda>(err, w).
          Inr (if err \<noteq> 0 then RPCMSG_RC_ERROR else RPCMSG_RC_HANDLED, w))
      else if op = RPC_IRQ_CLR then Inr (RPCMSG_RC_HANDLED, w)
      else Inr (RPCMSG_RC_ERROR, w))"

definition msi_handle :: "'w sel4vm \<Rightarrow> gicv2m \<Rightarrow> u32 \<Rightarrow> rpcmsg \<Rightarrow> 'w \<Rightarrow> (int \<times> 'w) res" where
  "msi_handle env v2m op msg w =
     (if op = QEMU_OP_SET_IRQ then msi_irq_set env v2m (ucast (mr1 msg)) (ucast (mr2 msg)) w
      else Inr (RPCMSG_RC_NONE, w))"

subsection \<open>The range of the frame\<close>

text \<open>
  An initialised frame: the configured range fits the table and the SPI numbers, and each line
  of the range carries its number.
\<close>

definition v2m_fits :: "gicv2m \<Rightarrow> bool" where
  "v2m_fits s \<longleftrightarrow> unat (num_irq s) \<le> GICV2M_IRQ_MAX \<and> unat (irq_base s) + unat (num_irq s) \<le> 1020 \<and>
     length (irq_lines s) = GICV2M_IRQ_MAX"

definition v2m_ok :: "gicv2m \<Rightarrow> bool" where
  "v2m_ok s \<longleftrightarrow> v2m_fits s \<and> (\<forall>k < unat (num_irq s). irq (irq_lines s ! k) = irq_base s + of_nat k)"

lemma v2m_irq_valid_iff:
  assumes "v2m_fits s"
  shows "v2m_irq_valid s i \<longleftrightarrow> unat (irq_base s) \<le> unat i \<and> unat i < unat (irq_base s) + unat (num_irq s)"
proof -
  have "unat (irq_base s + num_irq s) = unat (irq_base s) + unat (num_irq s)"
    using assms by (intro unat_add_lem [THEN iffD1]) (simp add: v2m_fits_def)
  then show ?thesis by (simp add: v2m_irq_valid_def word_le_nat_alt word_less_nat_alt)
qed

lemma v2m_line:
  assumes "v2m_ok s" "v2m_irq_valid s i"
  shows "\<exists>line. array_get (irq_lines s) (unat (i - irq_base s)) = Inr line \<and> irq line = i"
proof -
  let ?k = "unat (i - irq_base s)"
  from assms have f: "v2m_fits s" by (simp add: v2m_ok_def)
  from v2m_irq_valid_iff [OF f] assms(2) have r: "irq_base s \<le> i" "unat i < unat (irq_base s) + unat (num_irq s)"
    by (simp_all add: word_le_nat_alt)
  then have k: "?k = unat i - unat (irq_base s)" by (simp add: unat_sub)
  with r have "?k < unat (num_irq s)" by (simp add: word_le_nat_alt)
  with assms(1) f have "irq (irq_lines s ! ?k) = i" "?k < length (irq_lines s)"
    by (simp_all add: v2m_ok_def v2m_fits_def)
  then show ?thesis by (simp add: array_get_def)
qed

text \<open>An injected interrupt is one rising edge on that interrupt and on no other.\<close>

definition one_edge :: "u32 \<Rightarrow> (u32 \<Rightarrow> nat) \<Rightarrow> u32 \<Rightarrow> nat" where
  "one_edge i e = e(i := e i + 1)"

lemma v2m_inject_edge:
  assumes "v2m_ok s" "v2m_irq_valid s i" "counts_edges env level edges" "\<not> level w i"
  shows "\<exists>w'. v2m_inject_irq env s i w = Inr (0, w') \<and> level w' = level w \<and> edges w' = one_edge i (edges w)"
proof -
  obtain line where l: "array_get (irq_lines s) (unat (i - irq_base s)) = Inr line" "irq line = i"
    using v2m_line [OF assms(1,2)] by blast
  from irq_line_pulse_edge [OF assms(3), of w line] assms(4) l assms(2) show ?thesis
    by (auto simp: v2m_inject_irq_def one_edge_def)
qed

subsection \<open>Initialisation\<close>

lemma v2m_init_lines_ok:
  assumes "i + n \<le> length (irq_lines s)" "\<forall>k < i. irq (irq_lines s ! k) = irq_base s + of_nat k"
  shows "\<exists>rc s' w'. v2m_init_lines env s i n w = Inr (rc, s', w') \<and> irq_base s' = irq_base s \<and> num_irq s' = num_irq s \<and>
    base s' = base s \<and> fsize s' = fsize s \<and> length (irq_lines s') = length (irq_lines s) \<and> (grants env \<longrightarrow> rc = 0) \<and>
    (rc = 0 \<longrightarrow> (\<forall>k < i + n. irq (irq_lines s' ! k) = irq_base s + of_nat k))"
  using assms
proof (induction n arbitrary: i s w)
  case (Suc n)
  obtain err line w1 where l: "irq_line_init env (irq_lines s ! i) (boot_vcpu env) (irq_base s + of_nat i) None w = (err, line, w1)"
    using prod_cases3 by blast
  then have line: "irq line = irq_base s + of_nat i" "grants env \<longrightarrow> err = 0"
    by (auto simp: irq_line_init_def grants_def split: prod.splits) (metis fst_conv)
  let ?s = "s\<lparr>irq_lines := (irq_lines s)[i := line]\<rparr>"
  have step: "v2m_init_lines env s i (Suc n) w = (if err \<noteq> 0 then Inr (err, ?s, w1) else v2m_init_lines env ?s (Suc i) n w1)"
    using Suc.prems(1) l by simp
  have lines: "\<forall>k < Suc i. irq (irq_lines ?s ! k) = irq_base ?s + of_nat k"
    using Suc.prems line by (auto simp: nth_list_update less_Suc_eq)
  have len: "Suc i + n \<le> length (irq_lines ?s)" using Suc.prems(1) by simp
  show ?case
  proof (cases "err = 0")
    case True
    from Suc.IH [OF len lines, of w1] True show ?thesis unfolding step by simp
  next
    case False
    with line(2) show ?thesis unfolding step by simp
  qed
qed simp

text \<open>The range check: the end of the range is a 32-bit sum.\<close>

definition v2m_accepts :: "gicv2m \<Rightarrow> bool" where
  "v2m_accepts s \<longleftrightarrow> unat (num_irq s) \<le> GICV2M_IRQ_MAX \<and>
     (unat (irq_base s) + unat (num_irq s) \<le> 1020 \<or> 2 ^ 32 \<le> unat (irq_base s) + unat (num_irq s))"

lemma v2m_end:
  "unat (irq_base s + num_irq s) =
    (if unat (irq_base s) + unat (num_irq s) < 2 ^ 32 then unat (irq_base s) + unat (num_irq s)
     else unat (irq_base s) + unat (num_irq s) - 2 ^ 32)"
  by (simp add: unat_plus_if')

lemma v2m_range_check:
  "num_irq s > of_nat GICV2M_IRQ_MAX \<or> irq_base s + num_irq s > 1020 \<longleftrightarrow> \<not> v2m_accepts s"
proof -
  have "unat (irq_base s) < 2 ^ 32" using unsigned_less [of "irq_base s", where 'a = nat] by simp
  then show ?thesis by (auto simp: v2m_accepts_def word_less_nat_alt v2m_end GICV2M_IRQ_MAX_def)
qed

text \<open>A range whose end wraps holds no interrupt number.\<close>

lemma v2m_wrapped_empty:
  assumes "2 ^ 32 \<le> unat (irq_base s) + unat (num_irq s)" "unat (num_irq s) \<le> GICV2M_IRQ_MAX"
  shows "\<not> v2m_irq_valid s i"
  using assms unsigned_less [of "irq_base s", where 'a = nat]
  by (auto simp: v2m_irq_valid_def word_less_nat_alt word_le_nat_alt v2m_end GICV2M_IRQ_MAX_def)

lemma v2m_init_any:
  assumes "length (irq_lines s) = GICV2M_IRQ_MAX" "grants env"
  shows "\<exists>s' w'. v2m_init env s w = Inr (if v2m_accepts s then 0 else -1, s', w') \<and>
    (if v2m_accepts s
     then base s' = base s \<and> irq_base s' = irq_base s \<and> num_irq s' = num_irq s \<and> length (irq_lines s') = GICV2M_IRQ_MAX \<and>
       (\<forall>k < unat (num_irq s). irq (irq_lines s' ! k) = irq_base s + of_nat k)
     else s' = s \<and> w' = w)"
proof (cases "v2m_accepts s")
  case True
  from v2m_init_lines_ok [of 0 "unat (num_irq s)" s env w] True assms obtain s' w' where
    l: "v2m_init_lines env s 0 (unat (num_irq s)) w = Inr (0, s', w')" "irq_base s' = irq_base s" "num_irq s' = num_irq s"
      "base s' = base s" "length (irq_lines s') = GICV2M_IRQ_MAX"
      "\<forall>k < unat (num_irq s). irq (irq_lines s' ! k) = irq_base s + of_nat k"
    by (auto simp: v2m_accepts_def)
  from assms(2) obtain r w2 where "vm_reserve_memory_at env (base s') (fsize s') V2m_fault_handler w' = (Some r, w2)"
    unfolding grants_def by (metis not_None_eq prod.collapse)
  with True l v2m_range_check [of s] show ?thesis by (simp add: v2m_init_def)
next
  case False
  with v2m_range_check [of s] show ?thesis by (auto simp: v2m_init_def)
qed

lemma v2m_init_outcome:
  assumes "length (irq_lines s) = GICV2M_IRQ_MAX" "unat (irq_base s) + unat (num_irq s) < 2 ^ 32" "grants env"
  shows "\<exists>s' w'. v2m_init env s w =
      Inr (if unat (num_irq s) \<le> GICV2M_IRQ_MAX \<and> unat (irq_base s) + unat (num_irq s) \<le> 1020 then 0 else -1, s', w') \<and>
    (if unat (num_irq s) \<le> GICV2M_IRQ_MAX \<and> unat (irq_base s) + unat (num_irq s) \<le> 1020
     then v2m_ok s' \<and> base s' = base s \<and> irq_base s' = irq_base s \<and> num_irq s' = num_irq s else s' = s \<and> w' = w)"
proof -
  have "v2m_accepts s \<longleftrightarrow> unat (num_irq s) \<le> GICV2M_IRQ_MAX \<and> unat (irq_base s) + unat (num_irq s) \<le> 1020"
    using assms(2) by (auto simp: v2m_accepts_def)
  with v2m_init_any [OF assms(1,3), of w] show ?thesis by (auto simp: v2m_ok_def v2m_fits_def)
qed

lemma v2m_rpi4_init: "length (irq_lines v2m_rpi4) = GICV2M_IRQ_MAX" "unat (irq_base v2m_rpi4) + unat (num_irq v2m_rpi4) < 2 ^ 32"
  by (simp_all add: v2m_rpi4_def)

subsection \<open>The doorbell write\<close>

lemma spi_in_range:
  assumes "v2m_fits s" "unat d < 1024"
  shows "d - irq_base s < num_irq s \<longleftrightarrow> v2m_irq_valid s d"
proof (cases "irq_base s \<le> d")
  case True
  then show ?thesis
    unfolding v2m_irq_valid_iff [OF assms(1)] by (auto simp: word_less_nat_alt unat_sub word_le_nat_alt)
next
  case False
  then have lt: "unat d < unat (irq_base s)" by (simp add: word_le_nat_alt)
  have b: "unat (irq_base s) \<le> 1020" "unat (num_irq s) \<le> 128" using assms(1) by (auto simp: v2m_fits_def GICV2M_IRQ_MAX_def)
  have "unat (d - irq_base s) = 2 ^ 32 + unat d - unat (irq_base s)"
    using lt by (simp add: unat_sub_if')
  then have "\<not> d - irq_base s < num_irq s" using lt b by (simp add: word_less_nat_alt)
  moreover have "\<not> v2m_irq_valid s d" using False by (simp add: v2m_irq_valid_def)
  ultimately show ?thesis by simp
qed

lemma spi_bound: "unat ((data :: u32) AND 0x3ff) < 1024"
proof -
  have "data AND 0x3ff = take_bit 10 data" by (simp add: take_bit_eq_mask mask_eq_exp_minus_1)
  then show ?thesis using unsigned_take_bit_eq [of 10 data, where 'a = nat] take_bit_nat_less_exp [of 10 "unat data"] by simp
qed

lemma v2m_write_is_inject:
  assumes "v2m_ok s" "len = 2 \<or> len = 4"
  shows "v2m_write_fault env s (base s + V2M_MSI_SETSPI_NS) len data w =
    (if v2m_irq_valid s (data AND 0x3ff)
     then andthen (v2m_inject_irq env s (data AND 0x3ff) w) (\<lambda>(err, w). Inr (err = 0, w))
     else Inr (True, w))"
proof -
  have fits: "v2m_fits s" using assms(1) by (simp add: v2m_ok_def)
  have "v2m_write_fault env s (base s + V2M_MSI_SETSPI_NS) len data w =
    (if v2m_irq_valid s (data AND 0x3ff) then
       andthen (array_get (irq_lines s) (unat ((data AND 0x3ff) - irq_base s)))
         (\<lambda>line. let (err, w) = irq_line_pulse env line w in Inr (err = 0, w))
     else Inr (True, w))"
    using assms(2) spi_in_range [OF fits spi_bound [of data]] by (auto simp: v2m_write_fault_def Let_def)
  then show ?thesis
    using v2m_line [OF assms(1), of "data AND 0x3ff"] by (auto simp: v2m_inject_irq_def split: prod.split)
qed

subsection \<open>Properties\<close>

text \<open>
  C26. Initialising a frame, in a VM that grants interrupts and memory, succeeds exactly when the
  range has at most 128 lines and its end, computed in 32 bits, is at most 1020. That is the case for
  the ranges that fit the table and the SPI numbers, and also for every short range whose end
  passes 2 to the 32. In both cases line \<open>k\<close> carries interrupt \<open>irq_base + k\<close>, modulo 2 to the 32, for the whole
  range. A range that fits is then ready for use; in one whose end wraps no interrupt number is
  valid. A range that is not accepted gives -1 and nothing has changed. The table of lines is never
  indexed outside.\<close>

theorem v2m_init_correct:
  assumes "length (irq_lines s) = GICV2M_IRQ_MAX" "grants env"
  shows "\<exists>s' w'.
    if unat (num_irq s) \<le> 128 \<and> (unat (irq_base s) + unat (num_irq s) \<le> 1020 \<or> 2 ^ 32 \<le> unat (irq_base s) + unat (num_irq s))
    then v2m_init env s w = Inr (0, s', w') \<and> base s' = base s \<and> irq_base s' = irq_base s \<and> num_irq s' = num_irq s \<and>
      (\<forall>k < unat (num_irq s). irq (irq_lines s' ! k) = irq_base s + of_nat k) \<and>
      (if unat (irq_base s) + unat (num_irq s) \<le> 1020 then v2m_ok s' else \<forall>i. \<not> v2m_irq_valid s' i)
    else v2m_init env s w = Inr (-1, s, w)"
proof -
  let ?sum = "unat (irq_base s) + unat (num_irq s)"
  have acc: "v2m_accepts s \<longleftrightarrow> unat (num_irq s) \<le> 128 \<and> (?sum \<le> 1020 \<or> 2 ^ 32 \<le> ?sum)"
    by (simp add: v2m_accepts_def GICV2M_IRQ_MAX_def)
  obtain s' w' where r: "v2m_init env s w = Inr (if v2m_accepts s then 0 else -1, s', w')"
    "if v2m_accepts s
     then base s' = base s \<and> irq_base s' = irq_base s \<and> num_irq s' = num_irq s \<and> length (irq_lines s') = GICV2M_IRQ_MAX \<and>
       (\<forall>k < unat (num_irq s). irq (irq_lines s' ! k) = irq_base s + of_nat k)
     else s' = s \<and> w' = w"
    using v2m_init_any [OF assms, of w] by blast
  show ?thesis
  proof (cases "v2m_accepts s")
    case True
    have "if ?sum \<le> 1020 then v2m_ok s' else \<forall>i. \<not> v2m_irq_valid s' i"
      using r True v2m_wrapped_empty [of s'] by (auto simp: v2m_accepts_def v2m_ok_def v2m_fits_def)
    with r True show ?thesis unfolding acc [symmetric] by (intro exI [of _ s'] exI [of _ w']) simp
  next
    case False
    with r show ?thesis unfolding acc [symmetric] by simp
  qed
qed

text \<open>A frame whose range wraps and passes the check.\<close>

definition v2m_wrapping :: gicv2m where
  "v2m_wrapping = v2m_rpi4\<lparr>irq_base := 0xFFFFFFF0\<rparr>"

theorem v2m_init_correct_witness:
  "(\<exists>s' w'. v2m_init idle_env v2m_rpi4 () = Inr (0, s', w') \<and> v2m_ok s' \<and> irq_base s' = 144) \<and>
   (\<exists>s' w'. v2m_init idle_env v2m_wrapping () = Inr (0, s', w') \<and> irq (irq_lines s' ! 31) = 15 \<and> \<not> v2m_irq_valid s' 15)"
proof
  show "\<exists>s' w'. v2m_init idle_env v2m_rpi4 () = Inr (0, s', w') \<and> v2m_ok s' \<and> irq_base s' = 144"
    using v2m_init_correct [OF v2m_rpi4_init(1) idle_grants, of "()"] by (auto simp: v2m_rpi4_def)
  have "length (irq_lines v2m_wrapping) = GICV2M_IRQ_MAX" by (simp add: v2m_wrapping_def v2m_rpi4_def)
  from v2m_init_correct [OF this idle_grants, of "()"]
  show "\<exists>s' w'. v2m_init idle_env v2m_wrapping () = Inr (0, s', w') \<and> irq (irq_lines s' ! 31) = 15 \<and> \<not> v2m_irq_valid s' 15"
    by (auto simp: v2m_wrapping_def v2m_rpi4_def)
qed

text \<open>
  C24. A guest write to the set-SPI register of an initialised frame raises exactly one edge on
  the interrupt it names when that is in the frame's range, and otherwise has no effect; the write
  is handled either way.\<close>

theorem v2m_doorbell_write:
  assumes "v2m_ok s" "counts_edges env level edges" "\<not> level w (data AND 0x3ff)" "len = 2 \<or> len = 4"
  shows "\<exists>w'. v2m_write_fault env s (base s + V2M_MSI_SETSPI_NS) len data w = Inr (True, w') \<and> level w' = level w \<and>
    edges w' = (if unat (irq_base s) \<le> unat (data AND 0x3ff) \<and> unat (data AND 0x3ff) < unat (irq_base s) + unat (num_irq s)
                then (edges w)(data AND 0x3ff := edges w (data AND 0x3ff) + 1) else edges w)"
proof -
  have "v2m_fits s" using assms(1) by (simp add: v2m_ok_def)
  note valid = v2m_irq_valid_iff [OF this, symmetric]
  show ?thesis
    unfolding v2m_write_is_inject [OF assms(1,4)] valid
    using v2m_inject_edge [OF assms(1) _ assms(2,3)] by (auto simp: one_edge_def)
qed

text \<open>The frame the Raspberry Pi build ends up with.\<close>

definition v2m_rpi4_ready :: gicv2m where
  "v2m_rpi4_ready = v2m_rpi4\<lparr>irq_lines := map (\<lambda>k. \<lparr>line_vcpu = 0, irq = 144 + of_nat k, cookie = None\<rparr>) [0..<GICV2M_IRQ_MAX]\<rparr>"

lemma v2m_rpi4_ready_ok: "v2m_ok v2m_rpi4_ready"
  by (simp add: v2m_ok_def v2m_fits_def v2m_rpi4_ready_def v2m_rpi4_def GICV2M_IRQ_MAX_def)

theorem v2m_doorbell_write_witness:
  "\<exists>w'. v2m_write_fault edge_controller v2m_rpi4_ready (0x08021000 + V2M_MSI_SETSPI_NS) 4 150 (\<lambda>_. False, \<lambda>_. 0) = Inr (True, w') \<and>
    snd w' = (\<lambda>_. 0)(150 := 1)"
  using v2m_doorbell_write [OF v2m_rpi4_ready_ok edge_controller_counts, of "(\<lambda>_. False, \<lambda>_. 0)" 150 4]
  by (simp add: v2m_rpi4_ready_def v2m_rpi4_def)

text \<open>
  C25. A backend's interrupt request is claimed by the MSI handler exactly when the interrupt is in
  the frame's range: \<open>SET\<close> and \<open>PULSE\<close> raise one edge on it, \<open>CLR\<close> does nothing, any
  other operation is an error, and a request outside the range is passed on untouched.\<close>

theorem msi_request:
  assumes "v2m_ok s" "counts_edges env level edges" "\<not> level w (ucast (mr1 msg))"
  shows "\<exists>rc w'. msi_handle env s QEMU_OP_SET_IRQ msg w = Inr (rc, w') \<and> level w' = level w \<and>
    (let i = ucast (mr1 msg); op = ucast (mr2 msg) in
     if \<not> (unat (irq_base s) \<le> unat i \<and> unat i < unat (irq_base s) + unat (num_irq s))
       then rc = RPCMSG_RC_NONE \<and> w' = w
     else if op = RPC_IRQ_SET \<or> op = RPC_IRQ_PULSE
       then rc = RPCMSG_RC_HANDLED \<and> edges w' = (edges w)(i := edges w i + 1)
     else rc = (if op = RPC_IRQ_CLR then RPCMSG_RC_HANDLED else RPCMSG_RC_ERROR) \<and> w' = w)"
proof -
  have "v2m_fits s" using assms(1) by (simp add: v2m_ok_def)
  note valid = v2m_irq_valid_iff [OF this, symmetric]
  show ?thesis
    unfolding valid using v2m_inject_edge [OF assms(1) _ assms(2,3)]
    by (auto simp: msi_handle_def msi_irq_set_def Let_def one_edge_def)
qed

theorem msi_request_witness:
  "\<exists>rc w'. msi_handle edge_controller v2m_rpi4_ready QEMU_OP_SET_IRQ \<lparr>mr0 = 16, mr1 = 144, mr2 = 2, mr3 = 0\<rparr> (\<lambda>_. False, \<lambda>_. 0) =
    Inr (rc, w') \<and> rc = RPCMSG_RC_HANDLED \<and> snd w' 144 = 1"
  using msi_request [OF v2m_rpi4_ready_ok edge_controller_counts, of "(\<lambda>_. False, \<lambda>_. 0)" "\<lparr>mr0 = 16, mr1 = 144, mr2 = 2, mr3 = 0\<rparr>"]
  by (auto simp: v2m_rpi4_ready_def v2m_rpi4_def RPC_IRQ_PULSE_def)

text \<open>
  The guest reads the frame's own range back from the type register: the upper half is the
  first SPI and the lower half the number of SPIs.\<close>

lemma v2m_typer_round_trip:
  assumes "v2m_ok s" "v2m_read_fault s (base s + V2M_MSI_TYPER) 4 = (True, Some d)"
  shows "drop_bit 16 d = irq_base s \<and> take_bit 16 d = num_irq s"
proof -
  have b: "take_bit 10 (irq_base s) = irq_base s" "take_bit 10 (num_irq s) = num_irq s"
    using assms(1) by (auto simp: v2m_ok_def v2m_fits_def word_unat_eq_iff unsigned_take_bit_eq take_bit_nat_eq_self)
  have d: "d = push_bit 16 (irq_base s) OR num_irq s" using assms(2) by (simp add: v2m_read_fault_def)
  have high: "\<not> bit (num_irq s) k" "\<not> bit (irq_base s) k" if "10 \<le> k" for k
    using that b bit_take_bit_iff [of 10] by (metis not_less)+
  have low: "k < 16" if "bit (irq_base s) k" for k using high(2) [of k] that by force
  show ?thesis
    unfolding d by (auto intro!: bit_word_eqI dest: low simp: high bit_drop_bit_eq bit_or_iff bit_push_bit_iff bit_take_bit_iff)
qed

lemma v2m_typer_round_trip_witness:
  "drop_bit 16 (0x00900020 :: u32) = 144 \<and> take_bit 16 (0x00900020 :: u32) = 32"
  using v2m_typer_round_trip [OF v2m_rpi4_ready_ok, of "0x00900020"]
  by (simp add: v2m_read_fault_def v2m_rpi4_ready_def v2m_rpi4_def)

end
