(* ===== verification/Reservations.thy ===== *)
theory Reservations
  imports Irq_Lines
begin

text \<open>
  The interrupts and memory regions a backend has claimed: \<open>src/list.c\<close>,
  \<open>src/irq_reservations.c\<close> and \<open>src/mmio_reservations.c\<close>. Both tables are lists searched
  with a comparison function; the locale \<open>keyed_list\<close> says what the search gives when the
  comparison is equality of keys, and is interpreted for both.
\<close>

subsection \<open>Searching a list\<close>

fun list_item :: "'a list \<Rightarrow> 'a \<Rightarrow> ('a \<Rightarrow> 'a \<Rightarrow> int) \<Rightarrow> 'a option" where
  "list_item [] data cmp = None"
| "list_item (n # ns) data cmp = (if cmp n data = 0 then Some n else list_item ns data cmp)"

text \<open>The first entry with the key of \<open>data\<close> removed.\<close>

fun remove_item :: "'a list \<Rightarrow> 'a \<Rightarrow> ('a \<Rightarrow> 'a \<Rightarrow> int) \<Rightarrow> 'a list" where
  "remove_item [] data cmp = []"
| "remove_item (n # ns) data cmp = (if cmp n data = 0 then ns else n # remove_item ns data cmp)"

locale keyed_list =
  fixes cmp :: "'a \<Rightarrow> 'a \<Rightarrow> int" and key :: "'a \<Rightarrow> 'k"
  assumes cmp_key: "cmp a b = 0 \<longleftrightarrow> key a = key b"
begin

lemma item_Some: "list_item l d cmp = Some x \<Longrightarrow> x \<in> set l \<and> key x = key d"
  by (induction l) (auto simp: cmp_key split: if_splits)

lemma item_None: "list_item l d cmp = None \<longleftrightarrow> (\<forall>x \<in> set l. key x \<noteq> key d)"
  by (induction l) (auto simp: cmp_key)

lemma item_append:
  "list_item (l @ [x]) d cmp =
     (case list_item l d cmp of Some y \<Rightarrow> Some y | None \<Rightarrow> if key x = key d then Some x else None)"
  by (induction l) (auto simp: cmp_key)

lemma item_key: "key d = key d' \<Longrightarrow> list_item l d cmp = list_item l d' cmp"
  by (induction l) (simp_all add: cmp_key)

lemma remove_set:
  assumes "distinct (map key l)"
  shows "set (remove_item l d cmp) = {x \<in> set l. key x \<noteq> key d}"
  using assms by (induction l) (auto simp: cmp_key rev_image_eqI)

lemma remove_distinct: "distinct (map key l) \<Longrightarrow> distinct (map key (remove_item l d cmp))"
  by (induction l) (auto simp: cmp_key dest: remove_set [THEN equalityD1, THEN subsetD, rotated])

lemma remove_item_lookup:
  assumes "distinct (map key l)"
  shows "list_item (remove_item l d cmp) d' cmp = (if key d' = key d then None else list_item l d' cmp)"
  using assms by (induction l) (auto simp: cmp_key item_None rev_image_eqI)

lemma remove_append_fresh:
  assumes "list_item l d cmp = None" "key x = key d"
  shows "remove_item (l @ [x]) d cmp = l"
  using assms by (induction l) (auto simp: cmp_key split: if_splits)

lemma distinct_append_fresh:
  assumes "distinct (map key l)" "list_item l d cmp = None" "key x = key d"
  shows "distinct (map key (l @ [x]))"
  using assms by (auto simp: item_None)

end

subsection \<open>The two tables\<close>

record mmio_reservation =
  addr :: u64
  msize :: u64
  res_ptr :: reservation
  io_proxy :: proxy_ptr

text \<open>
  The list of libutils. \<open>list_append\<close> allocates a node, so it may fail; the lists are the
  sequences of their data.
\<close>

record 'w list_lib =
  list_append_irq :: "irq_line list \<Rightarrow> irq_line \<Rightarrow> 'w \<Rightarrow> int \<times> irq_line list \<times> 'w"
  list_append_mmio :: "mmio_reservation list \<Rightarrow> mmio_reservation \<Rightarrow> 'w \<Rightarrow> int \<times> mmio_reservation list \<times> 'w"
  list_remove_mmio :: "mmio_reservation list \<Rightarrow> mmio_reservation
    \<Rightarrow> (mmio_reservation \<Rightarrow> mmio_reservation \<Rightarrow> int) \<Rightarrow> int \<times> mmio_reservation list"
  list_init_irq :: "irq_line list \<Rightarrow> int \<times> irq_line list"
  list_init_mmio :: "mmio_reservation list \<Rightarrow> int \<times> mmio_reservation list"

text \<open>
  What the sources rely on: appending adds at the end or fails without effect, removing takes
  out the first entry that compares equal, initialising empties the list.
\<close>

definition lists_ok :: "'w list_lib \<Rightarrow> bool" where
  "lists_ok ll \<longleftrightarrow>
     (\<forall>l x w rc l' w'. list_append_irq ll l x w = (rc, l', w') \<longrightarrow> l' = (if rc = 0 then l @ [x] else l)) \<and>
     (\<forall>l x w rc l' w'. list_append_mmio ll l x w = (rc, l', w') \<longrightarrow> l' = (if rc = 0 then l @ [x] else l)) \<and>
     (\<forall>l d cmp. snd (list_remove_mmio ll l d cmp) = remove_item l d cmp) \<and>
     (\<forall>l rc l'. list_init_irq ll l = (rc, l') \<longrightarrow> rc = 0 \<longrightarrow> l' = []) \<and>
     (\<forall>l rc l'. list_init_mmio ll l = (rc, l') \<longrightarrow> rc = 0 \<longrightarrow> l' = [])"

subsection \<open>Interrupts\<close>

definition irq_line_cmp :: "irq_line \<Rightarrow> irq_line \<Rightarrow> int" where
  "irq_line_cmp a b = (if irq a = irq b \<and> cookie a = cookie b then 0 else 1)"

interpretation irq_table: keyed_list irq_line_cmp "\<lambda>l. (irq l, cookie l)"
  by unfold_locales (simp add: irq_line_cmp_def)

text \<open>Fields the initialiser of the key leaves out are zero.\<close>

definition irq_key :: "proxy_ptr \<Rightarrow> u32 \<Rightarrow> irq_line" where
  "irq_key p i = \<lparr>line_vcpu = 0, irq = i, cookie = Some p\<rparr>"

definition irq_res_find :: "irq_line list \<Rightarrow> proxy_ptr \<Rightarrow> u32 \<Rightarrow> irq_line option" where
  "irq_res_find irqs p i = list_item irqs (irq_key p i) irq_line_cmp"

definition irq_res_assign ::
  "'w sel4vm \<Rightarrow> 'w list_lib \<Rightarrow> irq_line list \<Rightarrow> proxy_ptr \<Rightarrow> vcpu \<Rightarrow> u32 \<Rightarrow> 'w \<Rightarrow> int \<times> irq_line list \<times> 'w" where
  "irq_res_assign env ll irqs p v i w =
     (case calloc env w of (got, w) \<Rightarrow>
        if \<not> got then (-1, irqs, w)
        else
          case irq_line_init env \<lparr>line_vcpu = 0, irq = 0, cookie = None\<rparr> v i (Some p) w of (err, line, w) \<Rightarrow>
            if err \<noteq> 0 then (err, irqs, w)
            else list_append_irq ll irqs line w)"

text \<open>
  \<open>list_remove(&irqs, &res, &irq_line_cmp)\<close> passes the address of the pointer variable; the
  comparison with the first entry reads past that variable. The search before it succeeded, so
  the list has an entry.
\<close>

definition irq_res_free :: "irq_line list \<Rightarrow> proxy_ptr \<Rightarrow> u32 \<Rightarrow> (int \<times> irq_line list) res" where
  "irq_res_free irqs p i =
     (case irq_res_find irqs p i of None \<Rightarrow> Inr (-1, irqs) | Some r \<Rightarrow> Inl Out_of_bounds)"

definition irq_res_init :: "'w list_lib \<Rightarrow> irq_line list \<Rightarrow> int \<times> irq_line list" where
  "irq_res_init ll irqs = list_init_irq ll irqs"

subsection \<open>Memory regions\<close>

definition mmio_res_cmp :: "mmio_reservation \<Rightarrow> mmio_reservation \<Rightarrow> int" where
  "mmio_res_cmp a b =
     (if addr a = addr b \<and> msize a = msize b \<and> io_proxy a = io_proxy b then 0 else 1)"

interpretation mmio_table: keyed_list mmio_res_cmp "\<lambda>r. (addr r, msize r, io_proxy r)"
  by unfold_locales (simp add: mmio_res_cmp_def)

definition mmio_key :: "proxy_ptr \<Rightarrow> u64 \<Rightarrow> u64 \<Rightarrow> mmio_reservation" where
  "mmio_key p a s = \<lparr>addr = a, msize = s, res_ptr = 0, io_proxy = p\<rparr>"

definition mmio_res_find :: "mmio_reservation list \<Rightarrow> proxy_ptr \<Rightarrow> u64 \<Rightarrow> u64 \<Rightarrow> mmio_reservation option" where
  "mmio_res_find l p a s = list_item l (mmio_key p a s) mmio_res_cmp"

definition mmio_res_assign ::
  "'w sel4vm \<Rightarrow> 'w list_lib \<Rightarrow> mmio_reservation list \<Rightarrow> (proxy_ptr \<Rightarrow> fault_handler) \<Rightarrow> proxy_ptr \<Rightarrow> u64 \<Rightarrow> u64 \<Rightarrow> 'w
     \<Rightarrow> int \<times> mmio_reservation list \<times> 'w" where
  "mmio_res_assign env ll l handler p a s w =
     (case vm_reserve_memory_at env a s (handler p) w of
        (None, w) \<Rightarrow> (-1, l, w)
      | (Some r, w) \<Rightarrow>
          (case calloc env w of (got, w) \<Rightarrow>
             if \<not> got then (-1, l, w)
             else list_append_mmio ll l \<lparr>addr = a, msize = s, res_ptr = r, io_proxy = p\<rparr> w))"

definition mmio_res_free ::
  "'w sel4vm \<Rightarrow> 'w list_lib \<Rightarrow> mmio_reservation list \<Rightarrow> proxy_ptr \<Rightarrow> u64 \<Rightarrow> u64 \<Rightarrow> 'w
     \<Rightarrow> int \<times> mmio_reservation list \<times> 'w" where
  "mmio_res_free env ll l p a s w =
     (case list_item l (mmio_key p a s) mmio_res_cmp of
        None \<Rightarrow> (-1, l, w)
      | Some r \<Rightarrow>
          (case list_remove_mmio ll l (mmio_key p a s) mmio_res_cmp of (err, l) \<Rightarrow>
             case vm_reservation_free env (res_ptr r) w of (err, w) \<Rightarrow> (err, l, w)))"

definition mmio_res_init :: "'w list_lib \<Rightarrow> mmio_reservation list \<Rightarrow> int \<times> mmio_reservation list" where
  "mmio_res_init ll l = list_init_mmio ll l"

subsection \<open>What the tables promise\<close>

lemmas lists_okD = lists_ok_def [THEN iffD1, THEN conjunct1, rule_format]
  lists_ok_def [THEN iffD1, THEN conjunct2, THEN conjunct1, rule_format]
  lists_ok_def [THEN iffD1, THEN conjunct2, THEN conjunct2, THEN conjunct1, rule_format]

definition new_line :: "vcpu \<Rightarrow> proxy_ptr \<Rightarrow> u32 \<Rightarrow> irq_line" where
  "new_line v p i = \<lparr>line_vcpu = v, irq = i, cookie = Some p\<rparr>"

lemma irq_res_assign_result:
  assumes "lists_ok ll" "irq_res_assign env ll irqs p v i w = (rc, irqs', w')"
  shows "irqs' = (if rc = 0 then irqs @ [new_line v p i] else irqs)"
  using assms(2)
  by (auto simp: irq_res_assign_def irq_line_init_def new_line_def split: prod.splits if_splits
      dest!: lists_okD(1) [OF assms(1)])

lemma irq_find_append:
  "irq_res_find (irqs @ [new_line v p i]) p' i' =
     (case irq_res_find irqs p' i' of Some l \<Rightarrow> Some l | None \<Rightarrow> if p' = p \<and> i' = i then Some (new_line v p i) else None)"
  unfolding irq_res_find_def irq_table.item_append by (auto simp: new_line_def irq_key_def split: option.split)

lemma irq_res_find_key: "irq_res_find irqs p i = Some l \<Longrightarrow> l \<in> set irqs \<and> irq l = i \<and> cookie l = Some p"
  using irq_table.item_Some [of irqs "irq_key p i" l] by (simp add: irq_res_find_def irq_key_def)

text \<open>At most one line per backend and interrupt.\<close>

definition irqs_ok :: "irq_line list \<Rightarrow> bool" where
  "irqs_ok irqs \<longleftrightarrow> distinct (map (\<lambda>l. (irq l, cookie l)) irqs)"

lemma irqs_ok_append:
  assumes "irqs_ok irqs" "irq_res_find irqs p i = None"
  shows "irqs_ok (irqs @ [new_line v p i])"
  using irq_table.distinct_append_fresh [of irqs "irq_key p i" "new_line v p i"] assms
  by (simp add: irqs_ok_def irq_res_find_def irq_key_def new_line_def)

lemma mmio_res_assign_result:
  assumes "lists_ok ll" "mmio_res_assign env ll l h p a s w = (rc, l', w')"
  shows "(\<exists>r. rc = 0 \<and> fst (vm_reserve_memory_at env a s (h p) w) = Some r \<and>
            l' = l @ [\<lparr>addr = a, msize = s, res_ptr = r, io_proxy = p\<rparr>]) \<or> (rc \<noteq> 0 \<and> l' = l)"
  using assms(2)
  by (auto simp: mmio_res_assign_def split: prod.splits option.splits if_splits
      dest!: lists_okD(2) [OF assms(1)])

text \<open>
  C28. Claiming a memory region and giving it back is a round trip: the table is as it was, and
  the reservation handed to \<open>vm_reservation_free\<close> is the one \<open>vm_reserve_memory_at\<close> gave
  for this region.\<close>

theorem mmio_assign_free_round_trip:
  assumes "lists_ok ll" "mmio_res_find l p a s = None" "mmio_res_assign env ll l h p a s w = (0, l', w')"
  shows "\<exists>r. fst (vm_reserve_memory_at env a s (h p) w) = Some r \<and>
    mmio_res_free env ll l' p a s w2 = (fst (vm_reservation_free env r w2), l, snd (vm_reservation_free env r w2))"
proof -
  from mmio_res_assign_result [OF assms(1,3)] obtain r where
    r: "fst (vm_reserve_memory_at env a s (h p) w) = Some r" "l' = l @ [\<lparr>addr = a, msize = s, res_ptr = r, io_proxy = p\<rparr>]"
    by auto
  have none: "list_item l (mmio_key p a s) mmio_res_cmp = None" using assms(2) by (simp add: mmio_res_find_def)
  then have "list_item l' (mmio_key p a s) mmio_res_cmp = Some \<lparr>addr = a, msize = s, res_ptr = r, io_proxy = p\<rparr>"
    unfolding r(2) mmio_table.item_append by (simp add: mmio_key_def)
  moreover have "remove_item l' (mmio_key p a s) mmio_res_cmp = l"
    unfolding r(2) by (rule mmio_table.remove_append_fresh [OF none]) (simp add: mmio_key_def)
  ultimately show ?thesis
    using r(1) lists_okD(3) [OF assms(1), of l' "mmio_key p a s" mmio_res_cmp]
    by (auto simp: mmio_res_free_def split: prod.split)
qed

text \<open>A list that never runs out of nodes.\<close>

definition ample_lists :: "'w list_lib" where
  "ample_lists =
     \<lparr>list_append_irq = (\<lambda>l x w. (0, l @ [x], w)), list_append_mmio = (\<lambda>l x w. (0, l @ [x], w)),
      list_remove_mmio = (\<lambda>l d cmp. (if list_item l d cmp = None then 1 else 0, remove_item l d cmp)),
      list_init_irq = (\<lambda>l. (0, [])), list_init_mmio = (\<lambda>l. (0, []))\<rparr>"

lemma ample_lists_ok: "lists_ok ample_lists"
  by (simp add: lists_ok_def ample_lists_def)

theorem mmio_assign_free_round_trip_witness:
  "mmio_res_free idle_env ample_lists [\<lparr>addr = 4096, msize = 256, res_ptr = 0, io_proxy = 0\<rparr>] 0 4096 256 () = (0, [], ())"
  using mmio_assign_free_round_trip [OF ample_lists_ok, of "[]" 0 4096 256 idle_env Mmio_fault_handler "()"
      "[\<lparr>addr = 4096, msize = 256, res_ptr = 0, io_proxy = 0\<rparr>]" "()" "()"]
  by (simp add: mmio_res_find_def mmio_res_assign_def idle_env_def ample_lists_def)

end
