(* ===== verification/Vmm_State.thy ===== *)
theory Vmm_State
  imports Gicv2m Reservations
begin

text \<open>
  The state of the VMM process that the handlers share: the proxies with the shared page each
  talks through, the thread-local data of native threads, and the static variables of
  \<open>io_proxy.c\<close>, \<open>libsel4vm_glue.c\<close>, \<open>emulated_device.c\<close>, the two reservation tables and
  the MSI frame. \<open>ext\<close> is the world of the external libraries.
\<close>

datatype ioack_fn = Ioack_native_read | Ioack_native_write | Ioack_vcpu_read | Ioack_vcpu_write

datatype ack_cookie = Native_data nat | Vcpu_cookie vcpu

record ioack =
  callback :: "ioack_fn option"
  ack_data :: "ack_cookie option"

record 'w io_proxy =
  ok_to_run :: int
  rpc :: "(nat, 'w) vso_rpc"
  iobuf :: rpcmsg_iobuf
  data_base :: u64
  data_size :: u64
  ctrl_base :: u64
  ctrl_size :: u64
  ioacks :: "ioack list"

record ioreq_native_data =
  slot :: int
  native_value :: u64

record pcidev =
  devfn :: u32
  backend_devfn :: u32
  dev_proxy :: proxy_ptr

text \<open>
  \<open>pci_devs\<close> holds the first \<open>pci_dev_count\<close> entries of the array. \<open>emudev_vm\<close> is whether
  \<open>emudev_init\<close> has stored the VM and the fault handler.
\<close>

record 'w vmm =
  proxies :: "proxy_ptr \<Rightarrow> 'w io_proxy"
  natives :: "nat \<Rightarrow> ioreq_native_data"
  free_native_slot :: int
  pci_intx :: "shared_irq_line list"
  pci_devs :: "pcidev list"
  irq_done :: bool
  v2m :: gicv2m
  irqs :: "irq_line list"
  mmio_reservations :: "mmio_reservation list"
  emudev_vm :: bool
  ext :: 'w

text \<open>Which code the process is built from: the kernel or user build of the queue, and the libraries.\<close>

record 'w platform =
  env :: "'w sel4vm"
  lists :: "'w list_lib"

type_synonym 'w rpc_callback = "'w platform \<Rightarrow> proxy_ptr \<Rightarrow> u32 \<Rightarrow> rpcmsg \<Rightarrow> 'w vmm \<Rightarrow> (int \<times> 'w vmm) res"

definition set_proxy :: "proxy_ptr \<Rightarrow> 'w io_proxy \<Rightarrow> 'w vmm \<Rightarrow> 'w vmm" where
  "set_proxy p px vm = vm\<lparr>proxies := (proxies vm)(p := px)\<rparr>"

lemma set_proxy_simps [simp]:
  "proxies (set_proxy p px vm) = (proxies vm)(p := px)" "natives (set_proxy p px vm) = natives vm"
  "free_native_slot (set_proxy p px vm) = free_native_slot vm" "pci_intx (set_proxy p px vm) = pci_intx vm"
  "pci_devs (set_proxy p px vm) = pci_devs vm" "v2m (set_proxy p px vm) = v2m vm" "irqs (set_proxy p px vm) = irqs vm"
  "mmio_reservations (set_proxy p px vm) = mmio_reservations vm" "ext (set_proxy p px vm) = ext vm"
  "emudev_vm (set_proxy p px vm) = emudev_vm vm" "irq_done (set_proxy p px vm) = irq_done vm"
  by (simp_all add: set_proxy_def)

end
