(* ===== verification/Io_Proxy.thy ===== *)
theory Io_Proxy
  imports Vmm_State
begin

unbundle bit_operations_syntax

text \<open>
  The I/O proxy (\<open>src/io_proxy.c\<close>) and the vCPU side of it in \<open>src/libsel4vm_glue.c\<close>: a
  request takes a slot, remembers who waits for the answer, and goes out as an RPC; the answer
  names the slot and completes the request. Slots below 16 belong to the vCPUs, the others to
  native threads.
\<close>

subsection \<open>Completing a request\<close>

definition SEL4_MMIO_MAX_VCPU :: nat where "SEL4_MMIO_MAX_VCPU = 16"
definition SEL4_MMIO_NATIVE_BASE :: int where "SEL4_MMIO_NATIVE_BASE = 16"
definition SEL4_MMIO_MAX_NATIVE :: nat where "SEL4_MMIO_MAX_NATIVE = 16"

definition NUM_IOACKS :: nat where "NUM_IOACKS = SEL4_MMIO_MAX_VCPU + SEL4_MMIO_MAX_NATIVE"

definition ioack_native_read :: "'w platform \<Rightarrow> nat \<Rightarrow> seL4_Word \<Rightarrow> 'w vmm \<Rightarrow> int \<times> 'w vmm" where
  "ioack_native_read pf t data vm =
     (let vm = vm\<lparr>natives := (natives vm)(t := (natives vm t)\<lparr>native_value := data\<rparr>)\<rparr> in
      (0, vm\<lparr>ext := sync_sem_post (env pf) (Handoff t) (ext vm)\<rparr>))"

definition ioack_native_write :: "'w platform \<Rightarrow> nat \<Rightarrow> seL4_Word \<Rightarrow> 'w vmm \<Rightarrow> int \<times> 'w vmm" where
  "ioack_native_write pf t data vm = (0, vm\<lparr>ext := sync_sem_post (env pf) (Handoff t) (ext vm)\<rparr>)"

definition fault_shift :: "'w sel4vm \<Rightarrow> vcpu \<Rightarrow> 'w \<Rightarrow> nat" where
  "fault_shift e v w = unat (get_vcpu_fault_address e v w AND 0x3) * 8"

definition ioack_vcpu_read :: "'w platform \<Rightarrow> vcpu \<Rightarrow> seL4_Word \<Rightarrow> 'w vmm \<Rightarrow> int \<times> 'w vmm" where
  "ioack_vcpu_read pf v data vm =
     (let s = fault_shift (env pf) v (ext vm);
          w = set_vcpu_fault_data (env pf) v (push_bit s data) (ext vm);
          w = advance_vcpu_fault (env pf) v w
      in (0, vm\<lparr>ext := w\<rparr>))"

definition ioack_vcpu_write :: "'w platform \<Rightarrow> vcpu \<Rightarrow> seL4_Word \<Rightarrow> 'w vmm \<Rightarrow> int \<times> 'w vmm" where
  "ioack_vcpu_write pf v data vm = (0, vm\<lparr>ext := advance_vcpu_fault (env pf) v (ext vm)\<rparr>)"

text \<open>A call through the stored pointer; the cookie has the type the function expects.\<close>

fun call_ioack :: "'w platform \<Rightarrow> ioack_fn \<Rightarrow> ack_cookie option \<Rightarrow> seL4_Word \<Rightarrow> 'w vmm \<Rightarrow> (int \<times> 'w vmm) res" where
  "call_ioack pf Ioack_native_read (Some (Native_data t)) data vm = Inr (ioack_native_read pf t data vm)"
| "call_ioack pf Ioack_native_write (Some (Native_data t)) data vm = Inr (ioack_native_write pf t data vm)"
| "call_ioack pf Ioack_vcpu_read (Some (Vcpu_cookie v)) data vm = Inr (ioack_vcpu_read pf v data vm)"
| "call_ioack pf Ioack_vcpu_write (Some (Vcpu_cookie v)) data vm = Inr (ioack_vcpu_write pf v data vm)"
| "call_ioack pf _ _ data vm = Inl Null_deref"

text \<open>The assertion admits the index one past the table; the access does not.\<close>

definition ioreq_finish ::
  "'w platform \<Rightarrow> proxy_ptr \<Rightarrow> u32 \<Rightarrow> seL4_Word \<Rightarrow> 'w vmm \<Rightarrow> (int \<times> 'w vmm) res" where
  "ioreq_finish pf p sl data vm =
     asserting (unat sl \<le> NUM_IOACKS)
      (andthen (array_get (ioacks (proxies vm p)) (unat sl)) (\<lambda>ack.
         case callback ack of
           None \<Rightarrow> Inl Assert_failed
         | Some f \<Rightarrow>
             andthen (call_ioack pf f (ack_data ack) data vm) (\<lambda>(err, vm).
               let px = proxies vm p;
                   px = px\<lparr>ioacks := (ioacks px)[unat sl := (ioacks px ! unat sl)\<lparr>callback := None\<rparr>]\<rparr>
               in Inr (err, set_proxy p px vm))))"

definition handle_mmio :: "'w rpc_callback" where
  "handle_mmio pf p op msg vm =
     (if op \<noteq> QEMU_OP_MMIO then Inr (RPCMSG_RC_NONE, vm)
      else
        andthen (ioreq_finish pf p (ucast (mmio_slot (mr0 msg))) (mr2 msg) vm) (\<lambda>(err, vm).
          Inr (if err \<noteq> 0 then RPCMSG_RC_ERROR else RPCMSG_RC_HANDLED, vm)))"

subsection \<open>Starting a request\<close>

definition ioreq_start ::
  "'w platform \<Rightarrow> proxy_ptr \<Rightarrow> u32 \<Rightarrow> ioack_fn \<Rightarrow> ioack_fn \<Rightarrow> ack_cookie \<Rightarrow> u32 \<Rightarrow> u32 \<Rightarrow> u64 \<Rightarrow> u64 \<Rightarrow> u64
     \<Rightarrow> 'w vmm \<Rightarrow> (int \<times> 'w vmm) res" where
  "ioreq_start pf p sl ack_read ack_write ck addr_space dir offset sz v0 vm =
     asserting (sz \<le> 8)
      (if unat sl \<ge> NUM_IOACKS then Inr (-1, vm)
       else
         let px = proxies vm p in
         andthen (array_get (ioacks px) (unat sl)) (\<lambda>ack.
           asserting (callback ack = None)
            (let ack = \<lparr>callback = Some (if dir = SEL4_IO_DIR_READ then ack_read else ack_write), ack_data = Some ck\<rparr>;
                 px = px\<lparr>ioacks := (ioacks px)[unat sl := ack]\<rparr>
             in andthen (driver_rpc_req_mmio_start Userspace (rpc px) (iobuf px) (ext vm) dir addr_space sl offset sz v0)
                  (\<lambda>(rc, r, mem, w). Inr (rc, (set_proxy p (px\<lparr>rpc := r, iobuf := mem\<rparr>) vm)\<lparr>ext := w\<rparr>)))))"

text \<open>A native thread gets a slot the first time it asks for one.\<close>

definition ioreq_native_slot :: "'w platform \<Rightarrow> nat \<Rightarrow> 'w vmm \<Rightarrow> int \<times> 'w vmm" where
  "ioreq_native_slot pf t vm =
     (if slot (natives vm t) \<noteq> 0 then (slot (natives vm t), vm)
      else
        case sync_sem_new (env pf) (Handoff t) (ext vm) of (err, w) \<Rightarrow>
          let vm = vm\<lparr>ext := w\<rparr> in
          if err \<noteq> 0 then (-1, vm)
          else if free_native_slot vm \<ge> int NUM_IOACKS then (-1, vm)
          else
            let vm = vm\<lparr>natives := (natives vm)(t := (natives vm t)\<lparr>slot := free_native_slot vm\<rparr>),
                        free_native_slot := free_native_slot vm + 1\<rparr>
            in (slot (natives vm t), vm))"

text \<open>
  \<open>ioreq_native\<close> blocks on the thread's semaphore between starting the request and reading the
  result, while other threads run. The first definition is the part before the wait, where 0
  means that the thread goes on to wait; the second is the part after it.
\<close>

definition ioreq_native_start ::
  "'w platform \<Rightarrow> nat \<Rightarrow> proxy_ptr \<Rightarrow> u32 \<Rightarrow> u32 \<Rightarrow> u64 \<Rightarrow> u64 \<Rightarrow> u64 \<Rightarrow> 'w vmm \<Rightarrow> (int \<times> 'w vmm) res" where
  "ioreq_native_start pf t p addr_space dir a sz v0 vm =
     (case ioreq_native_slot pf t vm of (sl, vm) \<Rightarrow>
        if sl < 0 then Inr (-1, vm)
        else
          andthen (ioreq_start pf p (word_of_int sl) Ioack_native_read Ioack_native_write (Native_data t)
                     addr_space dir a sz v0 vm) (\<lambda>(err, vm).
            Inr (if err < 0 then -1 else 0, vm)))"

definition ioreq_native_wait :: "nat \<Rightarrow> 'w vmm \<Rightarrow> int \<times> u64" where
  "ioreq_native_wait t vm = (0, native_value (natives vm t))"

definition ioreq_native_end :: "nat \<Rightarrow> 'w vmm \<Rightarrow> int \<times> u64" where
  "ioreq_native_end t vm = (case ioreq_native_wait t vm of (err, v) \<Rightarrow> (if err \<noteq> 0 then -1 else 0, v))"

subsection \<open>The vCPU's side\<close>

definition mmio_fault_handler ::
  "'w platform \<Rightarrow> proxy_ptr \<Rightarrow> vcpu \<Rightarrow> u64 \<Rightarrow> u64 \<Rightarrow> 'w vmm \<Rightarrow> (fault_result \<times> 'w vmm) res" where
  "mmio_fault_handler pf p v paddr len vm =
     (let (dir, value) =
            (if is_vcpu_read_fault (env pf) v (ext vm) then (SEL4_IO_DIR_READ, 0)
             else
               let s = fault_shift (env pf) v (ext vm);
                   mask = drop_bit s (get_vcpu_fault_data_mask (env pf) v (ext vm))
               in (SEL4_IO_DIR_WRITE, get_vcpu_fault_data (env pf) v (ext vm) AND mask))
      in andthen (ioreq_start pf p (vcpu_id (env pf) v) Ioack_vcpu_read Ioack_vcpu_write (Vcpu_cookie v)
                    AS_GLOBAL dir paddr len value vm) (\<lambda>(err, vm).
           Inr (if err \<noteq> 0 then FAULT_ERROR else FAULT_HANDLED, vm)))"

subsection \<open>Setting a proxy up\<close>

definition io_proxy_init :: "'w platform \<Rightarrow> proxy_ptr \<Rightarrow> 'w vmm \<Rightarrow> 'w vmm res" where
  "io_proxy_init pf p vm =
     (let px = proxies vm p in
      andthen (vso_driver_rpc_init vso_rpc_driver (driver_rpc (rpc px)) (iobuf px)) (\<lambda>(err, drv, mem).
        if err \<noteq> 0 then Inl Fatal
        else
          let px = px\<lparr>iobuf := mem, rpc := (rpc px)\<lparr>driver_rpc := drv, device_event := devevt_queue\<rparr>\<rparr>
          in case sync_sem_new (env pf) (Backend_started p) (ext vm) of (err, w) \<Rightarrow>
               if err \<noteq> 0 then Inl Fatal else Inr ((set_proxy p px vm)\<lparr>ext := w\<rparr>)))"

text \<open>
  The waiting loop sees the states in which its condition is evaluated, one after each wait on
  the semaphore; it returns at the first in which the flag is set.
\<close>

fun io_proxy_wait_for_backend :: "proxy_ptr \<Rightarrow> 'w vmm list \<Rightarrow> 'w vmm option" where
  "io_proxy_wait_for_backend p [] = None"
| "io_proxy_wait_for_backend p (vm # vms) =
     (if ok_to_run (proxies vm p) \<noteq> 0 then Some vm else io_proxy_wait_for_backend p vms)"

end
