(* ===== verification/Emulated_Device.thy ===== *)
theory Emulated_Device
  imports Vmm_State
begin

unbundle bit_operations_syntax

text \<open>
  Emulated devices (\<open>src/emulated_device.c\<close>): a backend claims memory regions and drives
  interrupts above the PCI range; an interrupt is registered the first time it is driven.
\<close>

definition PCI_NUM_SLOTS :: nat where "PCI_NUM_SLOTS = 32"

definition irq_is_emulated_device :: "u32 \<Rightarrow> bool" where
  "irq_is_emulated_device i \<longleftrightarrow> i \<ge> of_nat PCI_NUM_SLOTS"

definition emudev_irq_register ::
  "'w platform \<Rightarrow> proxy_ptr \<Rightarrow> vcpu \<Rightarrow> u32 \<Rightarrow> 'w vmm \<Rightarrow> irq_line option \<times> 'w vmm" where
  "emudev_irq_register pf p v i vm =
     (case irq_res_assign (env pf) (lists pf) (irqs vm) p v i (ext vm) of (err, is, w) \<Rightarrow>
        let vm = vm\<lparr>irqs := is, ext := w\<rparr> in
        if err \<noteq> 0 then (None, vm) else (irq_res_find (irqs vm) p i, vm))"

definition drive_line :: "'w platform \<Rightarrow> irq_line \<Rightarrow> u32 \<Rightarrow> 'w vmm \<Rightarrow> int \<times> 'w vmm" where
  "drive_line pf line op vm =
     (case (if op = RPC_IRQ_SET then irq_line_change (env pf) line True (ext vm)
            else if op = RPC_IRQ_CLR then irq_line_change (env pf) line False (ext vm)
            else if op = RPC_IRQ_PULSE then irq_line_pulse (env pf) line (ext vm)
            else (-1, ext vm)) of
        (err, w) \<Rightarrow> (err, vm\<lparr>ext := w\<rparr>))"

definition emudev_irq_set :: "'w platform \<Rightarrow> proxy_ptr \<Rightarrow> u32 \<Rightarrow> u32 \<Rightarrow> 'w vmm \<Rightarrow> (int \<times> 'w vmm) res" where
  "emudev_irq_set pf p i op vm =
     (if \<not> irq_is_emulated_device i then Inr (-1, vm)
      else
        andthen
          (case irq_res_find (irqs vm) p i of
             Some line \<Rightarrow> Inr (Some line, vm)
           | None \<Rightarrow>
               if \<not> emudev_vm vm then Inl Null_deref
               else Inr (emudev_irq_register pf p (boot_vcpu (env pf)) i vm))
          (\<lambda>(line, vm).
             case line of
               None \<Rightarrow> Inr (-1, vm)
             | Some line \<Rightarrow> Inr (drive_line pf line op vm)))"

text \<open>The complement is taken at 32 bits and then widened, so it covers the lower half only.\<close>

definition unknown_flags :: "u64 \<Rightarrow> u64" where
  "unknown_flags flags = flags AND ucast (NOT SEL4_MMIO_REGION_FREE)"

definition emudev_mmio_config ::
  "'w platform \<Rightarrow> proxy_ptr \<Rightarrow> u64 \<Rightarrow> u64 \<Rightarrow> u64 \<Rightarrow> 'w vmm \<Rightarrow> int \<times> 'w vmm" where
  "emudev_mmio_config pf p a s flags vm =
     (if unknown_flags flags \<noteq> 0 then (-1, vm)
      else
        case (if flags AND ucast SEL4_MMIO_REGION_FREE \<noteq> 0
              then mmio_res_free (env pf) (lists pf) (mmio_reservations vm) p a s (ext vm)
              else mmio_res_assign (env pf) (lists pf) (mmio_reservations vm) Mmio_fault_handler p a s (ext vm)) of
          (err, l, w) \<Rightarrow> (err, vm\<lparr>mmio_reservations := l, ext := w\<rparr>))"

definition handle_emudev :: "'w rpc_callback" where
  "handle_emudev pf p op msg vm =
     andthen
       (if op = QEMU_OP_MMIO_REGION_CONFIG then
          Inr (Some (emudev_mmio_config pf p (mr1 msg) (mr2 msg) (mr3 msg) vm))
        else if op = QEMU_OP_SET_IRQ then
          andthen (emudev_irq_set pf p (ucast (mr1 msg)) (ucast (mr2 msg)) vm) (\<lambda>r. Inr (Some r))
        else Inr None)
       (\<lambda>r. case r of
          None \<Rightarrow> Inr (RPCMSG_RC_NONE, vm)
        | Some (err, vm) \<Rightarrow> Inr (if err \<noteq> 0 then RPCMSG_RC_ERROR else RPCMSG_RC_HANDLED, vm))"

definition emudev_init :: "'w platform \<Rightarrow> 'w vmm \<Rightarrow> int \<times> 'w vmm" where
  "emudev_init pf vm =
     (let vm = vm\<lparr>emudev_vm := True\<rparr> in
      case irq_res_init (lists pf) (irqs vm) of (err, is) \<Rightarrow>
        let vm = vm\<lparr>irqs := is\<rparr> in
        if err \<noteq> 0 then (err, vm)
        else case mmio_res_init (lists pf) (mmio_reservations vm) of (err, l) \<Rightarrow> (err, vm\<lparr>mmio_reservations := l\<rparr>))"

subsection \<open>Interrupts of emulated devices\<close>

lemma emudev_register_result:
  assumes "lists_ok (lists pf)" "emudev_irq_register pf p v i vm = (line, vm')" "irq_res_find (irqs vm) p i = None"
  shows "(line = Some (new_line v p i) \<and> irqs vm' = irqs vm @ [new_line v p i]) \<or> (line = None \<and> irqs vm' = irqs vm)"
proof -
  obtain rc l w where a: "irq_res_assign (env pf) (lists pf) (irqs vm) p v i (ext vm) = (rc, l, w)"
    using prod_cases3 by blast
  from irq_res_assign_result [OF assms(1) a] assms(2,3) a show ?thesis
    by (auto simp: emudev_irq_register_def Let_def irq_find_append split: if_splits)
qed

lemma drive_line_frame:
  assumes "drive_line pf line op vm = (rc, vm')"
  shows "irqs vm' = irqs vm" "mmio_reservations vm' = mmio_reservations vm" "proxies vm' = proxies vm"
  using assms by (auto simp: drive_line_def split: prod.splits)

lemma emudev_irq_set_frame:
  assumes "emudev_irq_set pf p i op vm = Inr (rc, vm')"
  shows "proxies vm' = proxies vm"
  using assms
  by (auto simp: emudev_irq_set_def emudev_irq_register_def Let_def drive_line_def
      split: if_splits option.splits prod.splits)

lemma emudev_irq_set_table:
  assumes "lists_ok (lists pf)" "irqs_ok (irqs vm)" "emudev_irq_set pf p i op vm = Inr (rc, vm')"
  shows "irqs_ok (irqs vm') \<and> (\<forall>l \<in> set (irqs vm). l \<in> set (irqs vm'))"
proof (cases "irq_res_find (irqs vm) p i")
  case None
  show ?thesis
  proof (cases "irq_is_emulated_device i \<and> emudev_vm vm")
    case True
    obtain line vm1 where r: "emudev_irq_register pf p (boot_vcpu (env pf)) i vm = (line, vm1)" by fastforce
    have "irqs vm' = irqs vm1"
      using assms(3) None True r by (auto simp: emudev_irq_set_def split: option.splits dest: drive_line_frame(1))
    with emudev_register_result [OF assms(1) r None] irqs_ok_append [OF assms(2) None] assms(2) show ?thesis by auto
  next
    case False
    with assms None show ?thesis by (auto simp: emudev_irq_set_def split: if_splits)
  qed
next
  case (Some l)
  with assms show ?thesis
    by (auto simp: emudev_irq_set_def split: if_splits dest: drive_line_frame(1))
qed

lemma handle_emudev_frame:
  assumes "handle_emudev pf p op msg vm = Inr (rc, vm')"
  shows "proxies vm' = proxies vm" "rc \<in> {RPCMSG_RC_ERROR, RPCMSG_RC_NONE, RPCMSG_RC_HANDLED}"
  using assms
  by (auto simp: handle_emudev_def emudev_mmio_config_def andthen_def split: if_splits sum.splits prod.splits
      dest: emudev_irq_set_frame)

lemma drive_line_level:
  assumes "keeps_levels (env pf) level" "op = RPC_IRQ_SET \<or> op = RPC_IRQ_CLR"
  shows "\<exists>vm'. drive_line pf line op vm = (0, vm') \<and> level (ext vm') = (level (ext vm))(irq line := op = RPC_IRQ_SET)"
proof -
  obtain w where "vm_set_irq_level (env pf) (line_vcpu line) (irq line) (op = RPC_IRQ_SET) (ext vm) = (0, w)"
    "level w = (level (ext vm))(irq line := op = RPC_IRQ_SET)"
    using set_level [OF assms(1)] .
  note w = this
  show ?thesis
  proof (cases "op = RPC_IRQ_SET")
    case True
    with w show ?thesis by (simp add: drive_line_def irq_line_change_def)
  next
    case False
    with assms(2) have "op = RPC_IRQ_CLR" by simp
    with w False show ?thesis by (simp add: drive_line_def irq_line_change_def)
  qed
qed

text \<open>Libraries in which nothing a new interrupt line needs can fail.\<close>

definition never_short :: "'w platform \<Rightarrow> bool" where
  "never_short pf \<longleftrightarrow>
     (\<forall>w. fst (calloc (env pf) w)) \<and> (\<forall>v i a w. fst (vm_register_irq (env pf) v i a w) = 0) \<and>
     (\<forall>l x w. fst (list_append_irq (lists pf) l x w) = 0)"

definition keeps_world :: "'w platform \<Rightarrow> ('w \<Rightarrow> 'l) \<Rightarrow> bool" where
  "keeps_world pf level \<longleftrightarrow>
     (\<forall>w. level (snd (calloc (env pf) w)) = level w) \<and>
     (\<forall>v i a w. level (snd (vm_register_irq (env pf) v i a w)) = level w) \<and>
     (\<forall>l x w. level (snd (snd (list_append_irq (lists pf) l x w))) = level w)"

lemma register_succeeds:
  assumes "never_short pf" "keeps_world pf level" "lists_ok (lists pf)" "irq_res_find (irqs vm) p i = None"
  shows "\<exists>vm'. emudev_irq_register pf p v i vm = (Some (new_line v p i), vm') \<and> level (ext vm') = level (ext vm)"
proof -
  obtain c w1 where c: "calloc (env pf) (ext vm) = (c, w1)" by fastforce
  obtain r w2 where r: "vm_register_irq (env pf) v i Irq_line_ack w1 = (r, w2)" by fastforce
  obtain a l w3 where a: "list_append_irq (lists pf) (irqs vm) (new_line v p i) w2 = (a, l, w3)" using prod_cases3 by blast
  from assms(1) c r a have "c" "r = 0" "a = 0" by (auto simp: never_short_def) (metis fst_conv)+
  moreover from this have "l = irqs vm @ [new_line v p i]" using lists_okD(1) [OF assms(3) a] by simp
  moreover from assms(2) c r a have "level w3 = level (ext vm)" unfolding keeps_world_def by (metis snd_conv)
  ultimately show ?thesis
    using c r a assms(4) by (simp add: emudev_irq_register_def irq_res_assign_def irq_line_init_def new_line_def irq_find_append [unfolded new_line_def])
qed

text \<open>A process at boot: no devices, no lines, and one proxy on a zeroed page.\<close>

definition boot_rpc :: "('c \<Rightarrow> 'w \<Rightarrow> 'w) option \<Rightarrow> 'c \<Rightarrow> ('c, 'w) vso_rpc" where
  "boot_rpc bell c =
     \<lparr>driver_rpc = \<lparr>request = driver_drvrpc_req, response = driver_drvrpc_resp, buffer_state = [0]\<rparr>,
      device_event = devevt_queue, doorbell = bell, doorbell_cookie = c\<rparr>"

definition boot_proxy :: "'w io_proxy" where
  "boot_proxy =
     \<lparr>ok_to_run = 0, rpc = boot_rpc (Some (\<lambda>c w. w)) 0, iobuf = boot_iobuf,
      data_base = 0x60000000, data_size = 0x100000, ctrl_base = 0x70000000, ctrl_size = 0x100000,
      ioacks = replicate 32 \<lparr>callback = None, ack_data = None\<rparr>\<rparr>"

definition boot_vmm :: "'w \<Rightarrow> 'w vmm" where
  "boot_vmm w =
     \<lparr>proxies = (\<lambda>_. boot_proxy), natives = (\<lambda>_. \<lparr>slot = 0, native_value = 0\<rparr>), free_native_slot = 16,
      pci_intx = map (\<lambda>k. \<lparr>sh_vcpu = 0, sh_irq = 160 + of_nat k, sources = 0\<rparr>) [0..<4], pci_devs = [],
      irq_done = True, v2m = v2m_rpi4_ready, irqs = [], mmio_reservations = [], emudev_vm = True, ext = w\<rparr>"

subsection \<open>Properties\<close>

text \<open>
  C27. A backend that sets or clears an interrupt of an emulated device gets exactly that level on
  exactly that interrupt, whether or not it has driven the interrupt before.\<close>

theorem emudev_level:
  assumes "keeps_levels (env pf) level" "never_short pf" "keeps_world pf level" "lists_ok (lists pf)"
    "32 \<le> unat i" "emudev_vm vm" "op = RPC_IRQ_SET \<or> op = RPC_IRQ_CLR"
  shows "\<exists>vm'. emudev_irq_set pf p i op vm = Inr (0, vm') \<and> level (ext vm') = (level (ext vm))(i := op = RPC_IRQ_SET)"
proof -
  have e: "irq_is_emulated_device i" using assms(5) by (simp add: irq_is_emulated_device_def PCI_NUM_SLOTS_def word_le_nat_alt)
  show ?thesis
  proof (cases "irq_res_find (irqs vm) p i")
    case None
    obtain vm1 where "emudev_irq_register pf p (boot_vcpu (env pf)) i vm = (Some (new_line (boot_vcpu (env pf)) p i), vm1)"
      "level (ext vm1) = level (ext vm)"
      using register_succeeds [OF assms(2-4) None] by blast
    with None e assms(6) drive_line_level [OF assms(1,7), of "new_line (boot_vcpu (env pf)) p i" vm1] show ?thesis
      by (simp add: emudev_irq_set_def new_line_def)
  next
    case (Some l)
    with e drive_line_level [OF assms(1,7), of l vm] irq_res_find_key [OF Some] show ?thesis
      by (simp add: emudev_irq_set_def)
  qed
qed

definition level_platform :: "(u32 \<Rightarrow> bool) platform" where
  "level_platform = \<lparr>env = level_controller, lists = ample_lists\<rparr>"

lemma level_platform_ok:
  "keeps_levels (env level_platform) (\<lambda>w. w)" "never_short level_platform" "keeps_world level_platform (\<lambda>w. w)"
  "lists_ok (lists level_platform)"
  using level_controller_keeps ample_lists_ok
  by (simp_all add: level_platform_def never_short_def keeps_world_def level_controller_def idle_env_def ample_lists_def)

theorem emudev_level_witness:
  "\<exists>vm'. emudev_irq_set level_platform 0 40 RPC_IRQ_SET (boot_vmm (\<lambda>_. False)) = Inr (0, vm') \<and> ext vm' = (\<lambda>_. False)(40 := True)"
  using emudev_level [OF level_platform_ok, of 40 "boot_vmm (\<lambda>_. False)" RPC_IRQ_SET 0] by (simp add: boot_vmm_def)

text \<open>
  The table of a backend's interrupts holds at most one line per backend and interrupt: driving
  an interrupt keeps that, never drops a line, and adds a line at most once.\<close>

lemma emudev_irq_table:
  assumes "lists_ok (lists pf)" "irqs_ok (irqs vm)" "emudev_irq_set pf p i op vm = Inr (rc, vm')"
  shows "irqs_ok (irqs vm') \<and> set (irqs vm) \<subseteq> set (irqs vm')"
  using emudev_irq_set_table [OF assms] by blast

lemma emudev_irq_table_witness:
  "\<exists>vm'. emudev_irq_set level_platform 0 40 RPC_IRQ_SET (boot_vmm (\<lambda>_. False)) = Inr (0, vm') \<and> irqs_ok (irqs vm')"
proof -
  have "\<exists>vm'. emudev_irq_set level_platform 0 40 RPC_IRQ_SET (boot_vmm (\<lambda>_. False)) = Inr (0, vm')"
    by (simp add: emudev_irq_set_def boot_vmm_def irq_res_find_def emudev_irq_register_def irq_res_assign_def level_platform_def
        irq_is_emulated_device_def PCI_NUM_SLOTS_def level_controller_def idle_env_def irq_line_init_def ample_lists_def
        irq_line_cmp_def irq_key_def drive_line_def irq_line_change_def)
  then obtain vm' where "emudev_irq_set level_platform 0 40 RPC_IRQ_SET (boot_vmm (\<lambda>_. False)) = Inr (0, vm')" ..
  moreover from emudev_irq_table [OF level_platform_ok(4) _ this] have "irqs_ok (irqs vm')" by (simp add: boot_vmm_def irqs_ok_def)
  ultimately show ?thesis by blast
qed

text \<open>
  A region request is refused for its flags only when one of the bits 1 to 31 is set: the
  32-bit complement leaves the upper half of the 64-bit flags unchecked.\<close>

lemma unknown_flags_low_half:
  "unknown_flags flags = 0 \<longleftrightarrow> (\<forall>k. 1 \<le> k \<and> k < 32 \<longrightarrow> \<not> bit flags k)"
proof -
  have n1: "bit (NOT (1 :: u32)) k \<longleftrightarrow> 1 \<le> k \<and> k < 32" for k
    unfolding bit_not_iff by (auto simp: bit_1_iff)
  have "bit (unknown_flags flags) k \<longleftrightarrow> 1 \<le> k \<and> k < 32 \<and> bit flags k" for k
    unfolding unknown_flags_def SEL4_MMIO_REGION_FREE_def bit_and_iff bit_unsigned_iff n1 by auto
  moreover have "unknown_flags flags = 0 \<longleftrightarrow> (\<forall>k. \<not> bit (unknown_flags flags) k)"
    by (auto intro: bit_eqI)
  ultimately show ?thesis by blast
qed

text \<open>
  The upper 32 bits of a region request's flags are never looked at: with any of them set the
  request is treated exactly as without, although unknown flags are meant to be refused.
\<close>

lemma upper_region_flags_ignored:
  "emudev_mmio_config pf p a s (flags OR push_bit 32 x) vm = emudev_mmio_config pf p a s flags vm"
proof -
  have n1: "bit (NOT (1 :: u32)) k \<Longrightarrow> k < 32" for k
    unfolding bit_not_iff by simp
  have u: "unknown_flags (flags OR push_bit 32 x) = unknown_flags flags"
  proof (rule bit_word_eqI)
    fix k
    show "bit (unknown_flags (flags OR push_bit 32 x)) k \<longleftrightarrow> bit (unknown_flags flags) k"
      unfolding unknown_flags_def SEL4_MMIO_REGION_FREE_def bit_and_iff bit_or_iff bit_unsigned_iff bit_push_bit_iff
      using n1 [of k] by auto
  qed
  have f: "(flags OR push_bit 32 x) AND ucast SEL4_MMIO_REGION_FREE = flags AND ucast SEL4_MMIO_REGION_FREE"
    by (rule bit_word_eqI)
      (auto simp: SEL4_MMIO_REGION_FREE_def bit_and_iff bit_or_iff bit_unsigned_iff bit_push_bit_iff bit_1_iff)
  show ?thesis unfolding emudev_mmio_config_def u f ..
qed

end
