(* ===== verification/Pci_Bus.thy ===== *)
theory Pci_Bus
  imports Io_Proxy Emulated_Device
begin

unbundle bit_operations_syntax

text \<open>
  The virtual PCI bus of \<open>src/libsel4vm_glue.c\<close> and \<open>include/tii/pci.h\<close>: registering a
  backend's device on a slot, forwarding its configuration space, and driving the four shared
  INTx lines.
\<close>

definition PCI_NUM_PINS :: nat where "PCI_NUM_PINS = 4"
definition PCI_NUM_AVAIL_DEVICES :: nat where "PCI_NUM_AVAIL_DEVICES = PCI_NUM_SLOTS - 1"

definition PCI_DEVFN :: "seL4_Word \<Rightarrow> seL4_Word \<Rightarrow> seL4_Word" where
  "PCI_DEVFN sl func = push_bit 3 (sl AND 0x1f) OR (func AND 0x07)"
definition PCI_SLOT :: "u32 \<Rightarrow> u32" where
  "PCI_SLOT df = drop_bit 3 df AND 0x1f"
definition PCI_FUNC :: "u32 \<Rightarrow> u32" where
  "PCI_FUNC df = df AND 0x07"

definition irq_is_pci :: "u32 \<Rightarrow> bool" where
  "irq_is_pci i \<longleftrightarrow> i < of_nat PCI_NUM_SLOTS"

definition pci_swizzle :: "int \<Rightarrow> int \<Rightarrow> int" where
  "pci_swizzle sl pin = (sl + pin) mod int PCI_NUM_PINS"

definition pci_map_irq :: "pcidev \<Rightarrow> int" where
  "pci_map_irq d = pci_swizzle (uint (PCI_SLOT (devfn d))) 0"

subsection \<open>Configuration space\<close>

text \<open>
  A configuration access is answered here or goes to the backend, and then blocks in
  \<open>ioreq_native\<close>: the outcome \<open>Waiting err\<close> is the part before the wait, \<open>pci_cfg_value\<close> the
  value after it.
\<close>

datatype cfg_outcome = Answer u8 | Waiting int

definition pci_cfg_start ::
  "'w platform \<Rightarrow> nat \<Rightarrow> pcidev \<Rightarrow> u32 \<Rightarrow> u64 \<Rightarrow> u64 \<Rightarrow> u64 \<Rightarrow> 'w vmm \<Rightarrow> (int \<times> 'w vmm) res" where
  "pci_cfg_start pf t d dir offset sz v0 vm =
     ioreq_native_start pf t (dev_proxy d) (AS_PCIDEV (PCI_SLOT (backend_devfn d))) dir offset sz v0 vm"

definition pci_cfg_value :: "nat \<Rightarrow> int \<Rightarrow> 'w vmm \<Rightarrow> u64" where
  "pci_cfg_value t err vm =
     (if err \<noteq> 0 then 0 else case ioreq_native_wait t vm of (err, v) \<Rightarrow> if err \<noteq> 0 then 0 else v)"

definition pci_cfg_read ::
  "'w platform \<Rightarrow> nat \<Rightarrow> pcidev \<Rightarrow> u32 \<Rightarrow> u64 \<Rightarrow> 'w vmm \<Rightarrow> (cfg_outcome \<times> 'w vmm) res" where
  "pci_cfg_read pf t d offset sz vm =
     andthen (pci_cfg_start pf t d SEL4_IO_DIR_READ (ucast offset) sz 0 vm) (\<lambda>(err, vm). Inr (Waiting err, vm))"

definition pci_cfg_write ::
  "'w platform \<Rightarrow> nat \<Rightarrow> pcidev \<Rightarrow> u32 \<Rightarrow> u64 \<Rightarrow> u64 \<Rightarrow> 'w vmm \<Rightarrow> (cfg_outcome \<times> 'w vmm) res" where
  "pci_cfg_write pf t d offset sz v0 vm =
     andthen (pci_cfg_start pf t d SEL4_IO_DIR_WRITE (ucast offset) sz v0 vm) (\<lambda>(err, vm). Inr (Waiting err, vm))"

definition pci_cfg_read8 :: "'w platform \<Rightarrow> nat \<Rightarrow> pcidev \<Rightarrow> u32 \<Rightarrow> 'w vmm \<Rightarrow> (cfg_outcome \<times> 'w vmm) res" where
  "pci_cfg_read8 pf t d offset vm =
     (if offset = pci_interrupt_line (env pf) then
        Inr (Answer (ucast (intx_base (env pf) + word_of_int (pci_map_irq d))), vm)
      else if offset = pci_interrupt_pin (env pf) then Inr (Answer (word_of_int (pci_map_irq d + 1)), vm)
      else pci_cfg_read pf t d offset 1 vm)"

definition pci_cfg_read16 :: "'w platform \<Rightarrow> nat \<Rightarrow> pcidev \<Rightarrow> u32 \<Rightarrow> 'w vmm \<Rightarrow> (cfg_outcome \<times> 'w vmm) res" where
  "pci_cfg_read16 pf t d offset vm = pci_cfg_read pf t d offset 2 vm"

definition pci_cfg_read32 :: "'w platform \<Rightarrow> nat \<Rightarrow> pcidev \<Rightarrow> u32 \<Rightarrow> 'w vmm \<Rightarrow> (cfg_outcome \<times> 'w vmm) res" where
  "pci_cfg_read32 pf t d offset vm = pci_cfg_read pf t d offset 4 vm"

text \<open>What the three functions return once the wait is over: the value, cut to the width of their result.\<close>

definition pci_cfg_read8_end :: "nat \<Rightarrow> cfg_outcome \<Rightarrow> 'w vmm \<Rightarrow> u8" where
  "pci_cfg_read8_end t out vm = (case out of Answer v \<Rightarrow> v | Waiting err \<Rightarrow> ucast (pci_cfg_value t err vm))"

definition pci_cfg_read16_end :: "nat \<Rightarrow> cfg_outcome \<Rightarrow> 'w vmm \<Rightarrow> u16" where
  "pci_cfg_read16_end t out vm = (case out of Answer v \<Rightarrow> ucast v | Waiting err \<Rightarrow> ucast (pci_cfg_value t err vm))"

definition pci_cfg_read32_end :: "nat \<Rightarrow> cfg_outcome \<Rightarrow> 'w vmm \<Rightarrow> u32" where
  "pci_cfg_read32_end t out vm = (case out of Answer v \<Rightarrow> ucast v | Waiting err \<Rightarrow> ucast (pci_cfg_value t err vm))"

definition pci_cfg_write8 :: "'w platform \<Rightarrow> nat \<Rightarrow> pcidev \<Rightarrow> u32 \<Rightarrow> u8 \<Rightarrow> 'w vmm \<Rightarrow> (cfg_outcome \<times> 'w vmm) res" where
  "pci_cfg_write8 pf t d offset v0 vm = pci_cfg_write pf t d offset 1 (ucast v0) vm"

definition pci_cfg_write16 :: "'w platform \<Rightarrow> nat \<Rightarrow> pcidev \<Rightarrow> u32 \<Rightarrow> u16 \<Rightarrow> 'w vmm \<Rightarrow> (cfg_outcome \<times> 'w vmm) res" where
  "pci_cfg_write16 pf t d offset v0 vm = pci_cfg_write pf t d offset 2 (ucast v0) vm"

definition pci_cfg_write32 :: "'w platform \<Rightarrow> nat \<Rightarrow> pcidev \<Rightarrow> u32 \<Rightarrow> u32 \<Rightarrow> 'w vmm \<Rightarrow> (cfg_outcome \<times> 'w vmm) res" where
  "pci_cfg_write32 pf t d offset v0 vm = pci_cfg_write pf t d offset 4 (ucast v0) vm"

subsection \<open>Devices\<close>

definition pcidev_register :: "'w platform \<Rightarrow> proxy_ptr \<Rightarrow> u32 \<Rightarrow> 'w vmm \<Rightarrow> int \<times> 'w vmm" where
  "pcidev_register pf p bdf vm =
     (if length (pci_devs vm) \<ge> PCI_NUM_AVAIL_DEVICES then (-1, vm)
      else
        case calloc (env pf) (ext vm) of (got, w) \<Rightarrow>
          let vm = vm\<lparr>ext := w\<rparr> in
          if \<not> got then (-1, vm)
          else
            case vmm_pci_add_entry (env pf) (ext vm) of (err, ad, w) \<Rightarrow>
              let vm = vm\<lparr>ext := w\<rparr> in
              if err \<noteq> 0 then (-1, vm)
              else
                let d = \<lparr>devfn = ucast (PCI_DEVFN (ucast (dev ad)) (ucast (fn ad))),
                         backend_devfn = bdf, dev_proxy = p\<rparr>
                in (0, vm\<lparr>pci_devs := pci_devs vm @ [d]\<rparr>))"

fun pcidev_find :: "pcidev list \<Rightarrow> proxy_ptr \<Rightarrow> u32 \<Rightarrow> pcidev option" where
  "pcidev_find [] p bdf = None"
| "pcidev_find (d # ds) p bdf =
     (if dev_proxy d = p \<and> backend_devfn d = bdf then Some d else pcidev_find ds p bdf)"

definition pcidev_intx_set ::
  "'w platform \<Rightarrow> proxy_ptr \<Rightarrow> u32 \<Rightarrow> bool \<Rightarrow> 'w vmm \<Rightarrow> (int \<times> 'w vmm) res" where
  "pcidev_intx_set pf p bdf level vm =
     (if \<not> irq_is_pci (PCI_SLOT bdf) then Inr (-1, vm)
      else
        case pcidev_find (pci_devs vm) p bdf of
          None \<Rightarrow> Inr (-1, vm)
        | Some d \<Rightarrow>
            andthen (array_get (pci_intx vm) (nat (pci_map_irq d))) (\<lambda>line.
            andthen (shared_irq_line_change (env pf) line (PCI_SLOT (devfn d)) level (ext vm)) (\<lambda>(rc, line, w).
              Inr (rc, vm\<lparr>pci_intx := (pci_intx vm)[nat (pci_map_irq d) := line], ext := w\<rparr>))))"

definition handle_pci_intx ::
  "'w platform \<Rightarrow> proxy_ptr \<Rightarrow> u32 \<Rightarrow> u32 \<Rightarrow> 'w vmm \<Rightarrow> (int \<times> 'w vmm) res" where
  "handle_pci_intx pf p bdf irq_op vm =
     (if irq_op = RPC_IRQ_SET then pcidev_intx_set pf p bdf True vm
      else if irq_op = RPC_IRQ_CLR then pcidev_intx_set pf p bdf False vm
      else if irq_op = RPC_IRQ_PULSE then
        andthen (pcidev_intx_set pf p bdf True vm) (\<lambda>(err, vm).
          if err \<noteq> 0 then Inr (err, vm) else pcidev_intx_set pf p bdf False vm)
      else Inr (-1, vm))"

definition handle_pci :: "'w rpc_callback" where
  "handle_pci pf p op msg vm =
     andthen
       (if op = QEMU_OP_SET_IRQ then
          if \<not> irq_is_pci (ucast (mr1 msg)) then Inr None
          else andthen (handle_pci_intx pf p (ucast (PCI_DEVFN (mr1 msg) 0)) (ucast (mr2 msg)) vm) (\<lambda>r. Inr (Some r))
        else if op = QEMU_OP_REGISTER_PCI_DEV then
          Inr (Some (pcidev_register pf p (ucast (PCI_DEVFN (mr1 msg) 0)) vm))
        else Inr None)
       (\<lambda>r. case r of
          None \<Rightarrow> Inr (RPCMSG_RC_NONE, vm)
        | Some (err, vm) \<Rightarrow> Inr (if err \<noteq> 0 then RPCMSG_RC_ERROR else RPCMSG_RC_HANDLED, vm))"

subsection \<open>The invariant of the bus\<close>

text \<open>At most 31 devices, and four INTx lines whose masks are well formed.\<close>

definition bus_ok :: "'w vmm \<Rightarrow> bool" where
  "bus_ok vm \<longleftrightarrow> length (pci_devs vm) \<le> PCI_NUM_AVAIL_DEVICES \<and> length (pci_intx vm) = PCI_NUM_PINS \<and>
     (\<forall>line \<in> set (pci_intx vm). shared_line_ok line)"

lemma slot_less: "unat (PCI_SLOT df) < 32"
proof -
  have "PCI_SLOT df = take_bit 5 (drop_bit 3 df)"
    by (simp add: PCI_SLOT_def take_bit_eq_mask mask_eq_exp_minus_1)
  then show ?thesis
    using unsigned_take_bit_eq [of 5 "drop_bit 3 df", where 'a = nat] take_bit_nat_less_exp [of 5 "unat (drop_bit 3 df)"]
    by simp
qed

lemma irq_is_pci_slot: "irq_is_pci (PCI_SLOT df)"
  using slot_less [of df] by (simp add: irq_is_pci_def PCI_NUM_SLOTS_def word_less_nat_alt)

lemma map_irq_range: "nat (pci_map_irq d) < 4" "pci_map_irq d \<ge> 0" "pci_map_irq d = int (unat (PCI_SLOT (devfn d)) mod 4)"
  by (simp_all add: pci_map_irq_def pci_swizzle_def PCI_NUM_PINS_def zmod_int)

lemma pcidev_find_Some: "pcidev_find ds p bdf = Some d \<Longrightarrow> d \<in> set ds \<and> dev_proxy d = p \<and> backend_devfn d = bdf"
  by (induction ds) (auto split: if_splits)

lemma pcidev_find_append:
  "pcidev_find (ds @ [d]) p bdf =
     (case pcidev_find ds p bdf of Some x \<Rightarrow> Some x
      | None \<Rightarrow> if dev_proxy d = p \<and> backend_devfn d = bdf then Some d else None)"
  by (induction ds) auto

lemma intx_set_refines:
  assumes ok: "bus_ok vm" and d: "pcidev_find (pci_devs vm) p bdf = Some d"
  shows "\<exists>rc line' w'. pcidev_intx_set pf p bdf level vm =
      Inr (rc, vm\<lparr>pci_intx := (pci_intx vm)[nat (pci_map_irq d) := line'], ext := w'\<rparr>) \<and> shared_line_ok line' \<and>
      sh_irq line' = sh_irq (pci_intx vm ! nat (pci_map_irq d)) \<and>
      active_sources line' = change_sources (unat (PCI_SLOT (devfn d))) level (active_sources (pci_intx vm ! nat (pci_map_irq d)))"
proof -
  let ?k = "nat (pci_map_irq d)"
  have k: "?k < length (pci_intx vm)" using ok map_irq_range(1) by (simp add: bus_ok_def PCI_NUM_PINS_def)
  then have l: "shared_line_ok (pci_intx vm ! ?k)" using ok by (simp add: bus_ok_def)
  obtain line' where line': "shared_line_ok line'" "sh_irq line' = sh_irq (pci_intx vm ! ?k)"
    "active_sources line' = change_sources (unat (PCI_SLOT (devfn d))) level (active_sources (pci_intx vm ! ?k))"
    and eq: "shared_irq_line_change (env pf) (pci_intx vm ! ?k) (PCI_SLOT (devfn d)) level (ext vm) =
      (if (active_sources (pci_intx vm ! ?k) = {}) = (active_sources line' = {}) then Inr (0, line', ext vm)
       else case vm_set_irq_level (env pf) (sh_vcpu (pci_intx vm ! ?k)) (sh_irq (pci_intx vm ! ?k)) (active_sources line' \<noteq> {}) (ext vm) of
         (rc, w') \<Rightarrow> Inr (rc, line', w'))"
    using shared_change_refines [OF l slot_less, of "devfn d" level "env pf" "ext vm"] by blast
  have "\<exists>rc w'. shared_irq_line_change (env pf) (pci_intx vm ! ?k) (PCI_SLOT (devfn d)) level (ext vm) = Inr (rc, line', w')"
    unfolding eq by (simp split: prod.split)
  then obtain rc w' where "shared_irq_line_change (env pf) (pci_intx vm ! ?k) (PCI_SLOT (devfn d)) level (ext vm) = Inr (rc, line', w')"
    by blast
  with k d have "pcidev_intx_set pf p bdf level vm = Inr (rc, vm\<lparr>pci_intx := (pci_intx vm)[?k := line'], ext := w'\<rparr>)"
    by (simp add: pcidev_intx_set_def irq_is_pci_slot)
  with line' show ?thesis by blast
qed

lemma intx_set_missing:
  "pcidev_find (pci_devs vm) p bdf = None \<Longrightarrow> pcidev_intx_set pf p bdf level vm = Inr (-1, vm)"
  by (simp add: pcidev_intx_set_def)

lemma intx_set_ok:
  assumes "bus_ok vm"
  shows "\<exists>rc vm'. pcidev_intx_set pf p bdf level vm = Inr (rc, vm') \<and> bus_ok vm' \<and> proxies vm' = proxies vm \<and> pci_devs vm' = pci_devs vm"
proof (cases "pcidev_find (pci_devs vm) p bdf")
  case None
  with assms intx_set_missing show ?thesis by blast
next
  case (Some d)
  from intx_set_refines [OF assms Some, of pf level] assms show ?thesis
    by (auto simp: bus_ok_def dest!: set_update_subset_insert [THEN subsetD])
qed

lemma handle_pci_intx_ok:
  assumes "bus_ok vm"
  shows "\<exists>rc vm'. handle_pci_intx pf p bdf irq_op vm = Inr (rc, vm') \<and> bus_ok vm' \<and> proxies vm' = proxies vm \<and> pci_devs vm' = pci_devs vm"
proof (cases "irq_op = RPC_IRQ_PULSE")
  case True
  obtain rc vm1 where s: "pcidev_intx_set pf p bdf True vm = Inr (rc, vm1)" "bus_ok vm1" "proxies vm1 = proxies vm" "pci_devs vm1 = pci_devs vm"
    using intx_set_ok [OF assms] by blast
  have ne: "irq_op \<noteq> RPC_IRQ_SET" "irq_op \<noteq> RPC_IRQ_CLR"
    using True by (simp_all add: RPC_IRQ_PULSE_def RPC_IRQ_SET_def RPC_IRQ_CLR_def)
  show ?thesis
    using intx_set_ok [OF s(2), of pf p bdf False] s True ne by (cases "rc = 0") (auto simp: handle_pci_intx_def)
next
  case False
  then show ?thesis using intx_set_ok [OF assms] assms by (auto simp: handle_pci_intx_def)
qed

lemma pcidev_register_result:
  assumes "pcidev_register pf p bdf vm = (rc, vm')"
  shows "proxies vm' = proxies vm" "pci_intx vm' = pci_intx vm"
    "rc = 0 \<Longrightarrow> length (pci_devs vm) < PCI_NUM_AVAIL_DEVICES \<and>
       (\<exists>df. pci_devs vm' = pci_devs vm @ [\<lparr>devfn = df, backend_devfn = bdf, dev_proxy = p\<rparr>])"
    "rc \<noteq> 0 \<Longrightarrow> rc = -1 \<and> pci_devs vm' = pci_devs vm"
  using assms by (auto simp: pcidev_register_def Let_def split: if_splits prod.splits)

lemma pcidev_register_ok:
  assumes "bus_ok vm" "pcidev_register pf p bdf vm = (rc, vm')"
  shows "bus_ok vm'"
  using pcidev_register_result [OF assms(2)] assms(1) by (cases "rc = 0") (auto simp: bus_ok_def)

lemma handle_pci_ok:
  assumes "bus_ok vm"
  shows "\<exists>rc vm'. handle_pci pf p op msg vm = Inr (rc, vm') \<and> bus_ok vm' \<and> proxies vm' = proxies vm"
proof -
  obtain rc vm1 where r: "pcidev_register pf p (ucast (PCI_DEVFN (mr1 msg) 0)) vm = (rc, vm1)" by fastforce
  have reg: "bus_ok vm1" "proxies vm1 = proxies vm"
    using pcidev_register_ok [OF assms r] pcidev_register_result(1) [OF r] by simp_all
  obtain rc2 vm2 where i: "handle_pci_intx pf p (ucast (PCI_DEVFN (mr1 msg) 0)) (ucast (mr2 msg)) vm = Inr (rc2, vm2)"
      "bus_ok vm2" "proxies vm2 = proxies vm"
    using handle_pci_intx_ok [OF assms] by blast
  show ?thesis
  proof (cases "op = QEMU_OP_SET_IRQ")
    case True
    with i assms show ?thesis by (simp add: handle_pci_def)
  next
    case False
    with r reg assms show ?thesis by (simp add: handle_pci_def)
  qed
qed

subsection \<open>Addresses\<close>

lemma and_masks: "(x :: 'a::len word) AND 0x1f = take_bit 5 x" "x AND 0x07 = take_bit 3 x"
  by (simp_all add: take_bit_eq_mask mask_eq_exp_minus_1)

lemma devfn_slot:
  "PCI_SLOT (ucast (PCI_DEVFN sl func)) = ucast (take_bit 5 sl)"
  by (rule bit_word_eqI)
    (auto simp: PCI_SLOT_def PCI_DEVFN_def and_masks bit_or_iff bit_drop_bit_eq bit_push_bit_iff bit_unsigned_iff bit_take_bit_iff)

lemma devfn_of_slot: "unat (PCI_SLOT (ucast (PCI_DEVFN sl func))) = unat sl mod 32"
  unfolding devfn_slot by (simp add: unsigned_ucast_eq take_bit_eq_mod unat_mod)

subsection \<open>What the guest sees\<close>

text \<open>The INTx lines as \<open>irq_init\<close> leaves them, and the levels the guest's controller shows for them.\<close>

definition intx_wired :: "'w platform \<Rightarrow> 'w vmm \<Rightarrow> bool" where
  "intx_wired pf vm \<longleftrightarrow> (\<forall>k < PCI_NUM_PINS. sh_irq (pci_intx vm ! k) = intx_base (env pf) + of_nat k)"

definition intx_levels :: "('w \<Rightarrow> u32 \<Rightarrow> bool) \<Rightarrow> 'w vmm \<Rightarrow> bool" where
  "intx_levels level vm \<longleftrightarrow>
     (\<forall>k < PCI_NUM_PINS. level (ext vm) (sh_irq (pci_intx vm ! k)) \<longleftrightarrow> active_sources (pci_intx vm ! k) \<noteq> {})"

lemma intx_distinct:
  assumes "intx_wired pf vm" "j < PCI_NUM_PINS" "k < PCI_NUM_PINS" "sh_irq (pci_intx vm ! j) = sh_irq (pci_intx vm ! k)"
  shows "j = k"
proof -
  have small: "unat (of_nat n :: u32) = n" if "n < PCI_NUM_PINS" for n
    using that by (simp add: PCI_NUM_PINS_def unat_of_nat)
  have "(of_nat j :: u32) = of_nat k" using assms by (simp add: intx_wired_def)
  then show ?thesis using small assms(2,3) by metis
qed

lemma intx_set_guest:
  assumes ok: "bus_ok vm" and d: "pcidev_find (pci_devs vm) p bdf = Some d" and keep: "keeps_levels (env pf) level"
    and wired: "intx_wired pf vm" and lev: "intx_levels level vm"
  shows "\<exists>vm'. pcidev_intx_set pf p bdf on vm = Inr (0, vm') \<and> bus_ok vm' \<and> intx_wired pf vm' \<and> intx_levels level vm' \<and>
    active_sources (pci_intx vm' ! nat (pci_map_irq d)) =
      change_sources (unat (PCI_SLOT (devfn d))) on (active_sources (pci_intx vm ! nat (pci_map_irq d))) \<and>
    (\<forall>k. k \<noteq> nat (pci_map_irq d) \<longrightarrow> pci_intx vm' ! k = pci_intx vm ! k) \<and>
    level (ext vm') = (level (ext vm))(sh_irq (pci_intx vm ! nat (pci_map_irq d)) :=
      active_sources (pci_intx vm' ! nat (pci_map_irq d)) \<noteq> {})"
proof -
  let ?k = "nat (pci_map_irq d)" and ?s = "PCI_SLOT (devfn d)"
  let ?l = "pci_intx vm ! ?k"
  have k: "?k < PCI_NUM_PINS" "length (pci_intx vm) = PCI_NUM_PINS" using ok map_irq_range(1) by (simp_all add: bus_ok_def PCI_NUM_PINS_def)
  then have l: "shared_line_ok ?l" using ok by (simp add: bus_ok_def)
  have lv: "level (ext vm) (sh_irq ?l) \<longleftrightarrow> active_sources ?l \<noteq> {}" using lev k by (simp add: intx_levels_def)
  from shared_change_level [OF keep l slot_less lv, of "devfn d" on] obtain line' w' where
    c: "shared_irq_line_change (env pf) ?l ?s on (ext vm) = Inr (0, line', w')" "shared_line_ok line'" "sh_irq line' = sh_irq ?l"
      "active_sources line' = change_sources (unat ?s) on (active_sources ?l)"
      "level w' = (level (ext vm))(sh_irq ?l := active_sources line' \<noteq> {})"
    by blast
  let ?vm = "vm\<lparr>pci_intx := (pci_intx vm)[?k := line'], ext := w'\<rparr>"
  have "pcidev_intx_set pf p bdf on vm = Inr (0, ?vm)"
    using c(1) d k by (simp add: pcidev_intx_set_def irq_is_pci_slot)
  moreover have "bus_ok ?vm"
    using ok c(2) by (auto simp: bus_ok_def dest!: set_update_subset_insert [THEN subsetD])
  moreover have "intx_wired pf ?vm" using wired c(3) k by (simp add: intx_wired_def nth_list_update)
  moreover have "intx_levels level ?vm"
    unfolding intx_levels_def
  proof (intro allI impI)
    fix j assume j: "j < PCI_NUM_PINS"
    show "level (ext ?vm) (sh_irq (pci_intx ?vm ! j)) \<longleftrightarrow> active_sources (pci_intx ?vm ! j) \<noteq> {}"
    proof (cases "j = ?k")
      case True
      with k c(3,5) show ?thesis by simp
    next
      case False
      then have "sh_irq (pci_intx vm ! j) \<noteq> sh_irq ?l" using intx_distinct [OF wired j k(1)] by blast
      with False lev j c(5) show ?thesis by (simp add: intx_levels_def)
    qed
  qed
  ultimately show ?thesis using c(4,5) k by (intro exI [of _ ?vm]) simp
qed

subsection \<open>Properties\<close>

text \<open>
  C22. Driving the interrupt of a registered PCI device changes, among the four shared lines, only
  the line of its slot, and on it only the device's own source; afterwards the guest's controller
  still shows each line active exactly while one of its sources is.\<close>

theorem pci_intx_wired_or:
  assumes "bus_ok vm" "pcidev_find (pci_devs vm) p bdf = Some d" "keeps_levels (env pf) level"
    "intx_wired pf vm" "intx_levels level vm"
  shows "\<exists>vm'. pcidev_intx_set pf p bdf on vm = Inr (0, vm') \<and> bus_ok vm' \<and> intx_wired pf vm' \<and> intx_levels level vm' \<and>
    active_sources (pci_intx vm' ! nat (pci_map_irq d)) =
      change_sources (unat (PCI_SLOT (devfn d))) on (active_sources (pci_intx vm ! nat (pci_map_irq d))) \<and>
    (\<forall>k. k \<noteq> nat (pci_map_irq d) \<longrightarrow> pci_intx vm' ! k = pci_intx vm ! k)"
  using intx_set_guest [OF assms, of on] by blast

definition one_device :: "(u32 \<Rightarrow> bool) vmm" where
  "one_device = (boot_vmm (\<lambda>_. False))\<lparr>pci_devs := [\<lparr>devfn = 0x28, backend_devfn = 0x10, dev_proxy = 0\<rparr>]\<rparr>"

lemma one_device_ok:
  "bus_ok one_device" "intx_wired level_platform one_device" "intx_levels (\<lambda>w. w) one_device"
  "pcidev_find (pci_devs one_device) 0 0x10 = Some \<lparr>devfn = 0x28, backend_devfn = 0x10, dev_proxy = 0\<rparr>"
  by (auto simp: one_device_def boot_vmm_def bus_ok_def intx_wired_def intx_levels_def PCI_NUM_PINS_def PCI_NUM_AVAIL_DEVICES_def
      PCI_NUM_SLOTS_def shared_line_ok_def active_sources_def level_platform_def level_controller_def idle_env_def)

theorem pci_intx_wired_or_witness:
  "\<exists>vm'. pcidev_intx_set level_platform 0 0x10 True one_device = Inr (0, vm') \<and> active_sources (pci_intx vm' ! 1) = {5}"
  using pci_intx_wired_or [OF one_device_ok(1,4) level_platform_ok(1) one_device_ok(2,3), of True]
  by (auto simp: pci_map_irq_def pci_swizzle_def PCI_SLOT_def PCI_NUM_PINS_def change_sources_def one_device_def boot_vmm_def
      active_sources_def)

text \<open>The number of an INTx line, and what the two interrupt registers of a device on it answer.\<close>

lemma intx_number:
  assumes "intx_wired pf vm" "unat (intx_base (env pf)) + 4 \<le> 256"
  shows "sh_irq (pci_intx vm ! nat (pci_map_irq d)) = intx_base (env pf) + word_of_int (pci_map_irq d)"
    "ucast (ucast (intx_base (env pf) + word_of_int (pci_map_irq d)) :: u8) = intx_base (env pf) + word_of_int (pci_map_irq d)"
proof -
  let ?k = "nat (pci_map_irq d)"
  have k: "?k < 4" "(word_of_int (pci_map_irq d) :: u32) = of_nat ?k" using map_irq_range by simp_all
  show "sh_irq (pci_intx vm ! ?k) = intx_base (env pf) + word_of_int (pci_map_irq d)"
    using assms(1) k by (simp add: intx_wired_def PCI_NUM_PINS_def)
  have "unat (intx_base (env pf) + of_nat ?k) = unat (intx_base (env pf)) + ?k"
    using assms(2) k(1) by (simp add: unat_word_ariths unat_of_nat)
  then have "unat (intx_base (env pf) + of_nat ?k) < 2 ^ 8" using assms(2) k(1) by simp
  then show "ucast (ucast (intx_base (env pf) + word_of_int (pci_map_irq d)) :: u8) = intx_base (env pf) + word_of_int (pci_map_irq d)"
    unfolding k(2) by (simp add: word_unat_eq_iff unsigned_ucast_eq unsigned_take_bit_eq take_bit_nat_eq_self)
qed

lemma pin_number: "unat (word_of_int (pci_map_irq d + 1) :: u8) = nat (pci_map_irq d) + 1"
proof -
  have k: "nat (pci_map_irq d) < 4" "pci_map_irq d + 1 = int (nat (pci_map_irq d) + 1)" using map_irq_range [of d] by simp_all
  have "unat (of_nat (nat (pci_map_irq d) + 1) :: u8) = nat (pci_map_irq d) + 1"
    unfolding unat_of_nat by (rule mod_less) (use k(1) in simp)
  then show ?thesis unfolding k(2) of_int_of_nat_eq .
qed

text \<open>
  C23. The interrupt registers tell the guest the truth. For a registered device, let \<open>line\<close> and
  \<open>pin\<close> be what the guest reads from its interrupt-line and interrupt-pin registers. When the backend
  sets or clears the device's interrupt, the level of interrupt number \<open>line\<close> becomes active exactly
  if the device's interrupt is set or another source of that line is active, no other interrupt
  changes, and of the four shared lines only the one of \<open>pin\<close>, which is between 1 and 4, is touched.
  The numbers of the four lines must fit the register's eight bits.\<close>

theorem interrupt_registers_match_line:
  assumes "bus_ok vm" "pcidev_find (pci_devs vm) p bdf = Some d" "keeps_levels (env pf) level"
    "intx_wired pf vm" "intx_levels level vm"
    "unat (intx_base (env pf)) + 4 \<le> 256" "pci_interrupt_pin (env pf) \<noteq> pci_interrupt_line (env pf)"
  shows "\<exists>line pin. pci_cfg_read8 pf t d (pci_interrupt_line (env pf)) vm = Inr (Answer line, vm) \<and>
    pci_cfg_read8 pf t d (pci_interrupt_pin (env pf)) vm = Inr (Answer pin, vm) \<and> 1 \<le> unat pin \<and> unat pin \<le> 4 \<and>
    (\<forall>on. \<exists>vm'. pcidev_intx_set pf p bdf on vm = Inr (0, vm') \<and>
       level (ext vm') = (level (ext vm))(ucast line :=
         on \<or> active_sources (pci_intx vm ! (unat pin - 1)) - {unat (PCI_SLOT (devfn d))} \<noteq> {}) \<and>
       (\<forall>k. k + 1 \<noteq> unat pin \<longrightarrow> pci_intx vm' ! k = pci_intx vm ! k))"
proof -
  let ?k = "nat (pci_map_irq d)"
  define line :: u8 where "line = ucast (intx_base (env pf) + word_of_int (pci_map_irq d))"
  define pin :: u8 where "pin = word_of_int (pci_map_irq d + 1)"
  have pin: "unat pin = ?k + 1" unfolding pin_def by (rule pin_number)
  note n = intx_number [OF assms(4,6), of d]
  have reads: "pci_cfg_read8 pf t d (pci_interrupt_line (env pf)) vm = Inr (Answer line, vm)"
    "pci_cfg_read8 pf t d (pci_interrupt_pin (env pf)) vm = Inr (Answer pin, vm)"
    using assms(7) by (simp_all add: pci_cfg_read8_def line_def pin_def)
  have drive: "\<exists>vm'. pcidev_intx_set pf p bdf on vm = Inr (0, vm') \<and>
       level (ext vm') = (level (ext vm))(ucast line := on \<or> active_sources (pci_intx vm ! ?k) - {unat (PCI_SLOT (devfn d))} \<noteq> {}) \<and>
       (\<forall>k. k + 1 \<noteq> unat pin \<longrightarrow> pci_intx vm' ! k = pci_intx vm ! k)" for on
    using intx_set_guest [OF assms(1-5), of on] unfolding line_def n pin by (auto simp: change_sources_def)
  show ?thesis
    by (rule exI [of _ line], rule exI [of _ pin]) (use reads drive map_irq_range(1) [of d] in \<open>simp add: pin\<close>)
qed

theorem interrupt_registers_match_line_witness:
  "\<exists>vm'. pci_cfg_read8 level_platform 0 \<lparr>devfn = 0x28, backend_devfn = 0x10, dev_proxy = 0\<rparr> 0x3c one_device = Inr (Answer 161, one_device) \<and>
    pcidev_intx_set level_platform 0 0x10 True one_device = Inr (0, vm') \<and> ext vm' = (ext one_device)(161 := True)"
proof -
  have pf: "intx_base (env level_platform) = 160" "pci_interrupt_line (env level_platform) = 0x3c" "pci_interrupt_pin (env level_platform) = 0x3d"
    by (simp_all add: level_platform_def level_controller_def idle_env_def)
  have r: "pci_cfg_read8 level_platform 0 \<lparr>devfn = 0x28, backend_devfn = 0x10, dev_proxy = 0\<rparr> 0x3c one_device = Inr (Answer 161, one_device)"
    by (simp add: pci_cfg_read8_def pf pci_map_irq_def pci_swizzle_def PCI_SLOT_def PCI_NUM_PINS_def)
  have "unat (intx_base (env level_platform)) + 4 \<le> 256" "pci_interrupt_pin (env level_platform) \<noteq> pci_interrupt_line (env level_platform)"
    by (simp_all add: pf)
  from interrupt_registers_match_line [OF one_device_ok(1,4) level_platform_ok(1) one_device_ok(2,3) this, of 0, unfolded pf]
  obtain line vm' where l: "pci_cfg_read8 level_platform 0 \<lparr>devfn = 0x28, backend_devfn = 0x10, dev_proxy = 0\<rparr> 0x3c one_device = Inr (Answer line, one_device)"
    "pcidev_intx_set level_platform 0 0x10 True one_device = Inr (0, vm')" "ext vm' = (ext one_device)(ucast line := True)"
    by (elim exE conjE) (drule spec [of _ True], auto)
  from l(1) r have "line = 161" by simp
  with l(2,3) r show ?thesis by auto
qed

text \<open>
  A backend's device can be found once its registration succeeded and no other lookup
  changes; registration fails without touching the bus when 31 devices are present, and keeps the
  bus well formed in every case.\<close>

lemma pci_registration:
  assumes "bus_ok vm" "pcidev_register pf p bdf vm = (rc, vm')"
  shows "bus_ok vm' \<and> (length (pci_devs vm) = 31 \<longrightarrow> rc = -1 \<and> vm' = vm) \<and>
    (rc \<noteq> 0 \<longrightarrow> pci_devs vm' = pci_devs vm) \<and>
    (rc = 0 \<longrightarrow> pcidev_find (pci_devs vm') p bdf \<noteq> None \<and>
       (\<forall>q b. (q, b) \<noteq> (p, bdf) \<longrightarrow> pcidev_find (pci_devs vm') q b = pcidev_find (pci_devs vm) q b))"
proof (intro conjI impI)
  note R = pcidev_register_result [OF assms(2)]
  show "bus_ok vm'" by (rule pcidev_register_ok [OF assms])
  show "rc = -1" "vm' = vm" if "length (pci_devs vm) = 31"
    using assms(2) that by (simp_all add: pcidev_register_def PCI_NUM_AVAIL_DEVICES_def PCI_NUM_SLOTS_def)
  show "pci_devs vm' = pci_devs vm" if "rc \<noteq> 0" using R(4) [OF that] by blast
  assume "rc = 0"
  from R(3) [OF this] obtain df where "pci_devs vm' = pci_devs vm @ [\<lparr>devfn = df, backend_devfn = bdf, dev_proxy = p\<rparr>]" by blast
  then show "pcidev_find (pci_devs vm') p bdf \<noteq> None"
    "\<forall>q b. (q, b) \<noteq> (p, bdf) \<longrightarrow> pcidev_find (pci_devs vm') q b = pcidev_find (pci_devs vm) q b"
    by (auto simp: pcidev_find_append split: option.split)
qed

lemma pci_registration_witness:
  "\<exists>vm'. pcidev_register level_platform 0 0x18 one_device = (0, vm') \<and> pcidev_find (pci_devs vm') 0 0x18 \<noteq> None"
proof -
  have e: "calloc (env level_platform) w = (True, w)"
    "vmm_pci_add_entry (env level_platform) w = (0, \<lparr>bus = 0, dev = 1, fn = 0\<rparr>, w)" for w
    by (simp_all add: level_platform_def level_controller_def idle_env_def)
  obtain rc vm' where r: "pcidev_register level_platform 0 0x18 one_device = (rc, vm')" by fastforce
  have "fst (pcidev_register level_platform 0 0x18 one_device) = 0"
    by (simp add: pcidev_register_def one_device_def PCI_NUM_AVAIL_DEVICES_def PCI_NUM_SLOTS_def Let_def e)
  with r have "rc = 0" by simp
  with pci_registration [OF one_device_ok(1) r] have "pcidev_find (pci_devs vm') 0 0x18 \<noteq> None" by simp
  with r \<open>rc = 0\<close> show ?thesis by simp
qed

end
