(* ===== verification/Fdt.thy ===== *)
theory Fdt
  imports Pci_Bus
begin

unbundle bit_operations_syntax

text \<open>
  Device-tree generation: \<open>src/fdt.c\<close>, the platform part \<open>src/plat/rpi4/fdt.c\<close> and the
  guest's tree in \<open>src/guest_linux.c\<close>. libfdt and the memory node of the CAmkES VM are
  parameters: a record of functions over the blob \<open>'f\<close>.
\<close>

subsection \<open>libfdt\<close>

record 'f fdt_lib =
  fdt_path_offset :: "'f \<Rightarrow> string \<Rightarrow> int"
  fdt_address_cells :: "'f \<Rightarrow> int \<Rightarrow> int"
  fdt_size_cells :: "'f \<Rightarrow> int \<Rightarrow> int"
  fdt_add_subnode :: "'f \<Rightarrow> int \<Rightarrow> string \<Rightarrow> int \<times> 'f"
  fdt_appendprop_string :: "'f \<Rightarrow> int \<Rightarrow> string \<Rightarrow> string \<Rightarrow> int \<times> 'f"
  fdt_appendprop_u32 :: "'f \<Rightarrow> int \<Rightarrow> string \<Rightarrow> u32 \<Rightarrow> int \<times> 'f"
  fdt_appendprop_uint :: "'f \<Rightarrow> int \<Rightarrow> string \<Rightarrow> u64 \<Rightarrow> int \<Rightarrow> int \<times> 'f"
  fdt_get_max_phandle :: "'f \<Rightarrow> u32"
  fdt_get_phandle :: "'f \<Rightarrow> int \<Rightarrow> u32"
  fdt_generate_memory_node :: "'f \<Rightarrow> u64 \<Rightarrow> u64 \<Rightarrow> int \<times> 'f"
  FDT_ERR_INTERNAL :: int
  FDT_ERR_NOPHANDLES :: int
  FDT_ERR_NOTFOUND :: int

subsection \<open>Names\<close>

definition digit :: "nat \<Rightarrow> char" where
  "digit d = (''0123456789abcdef'' ! d)"

text \<open>The conversions \<open>%x\<close> and \<open>%u\<close> of \<open>snprintf\<close>.\<close>

fun in_base :: "nat \<Rightarrow> nat \<Rightarrow> string" where
  "in_base b n = (if b < 2 \<or> n < b then [digit n] else in_base b (n div b) @ [digit (n mod b)])"

declare in_base.simps [simp del]

definition hex :: "nat \<Rightarrow> string" where "hex = in_base 16"
definition dec :: "nat \<Rightarrow> string" where "dec = in_base 10"

text \<open>\<open>fdt_format\<close>: the error code, and the buffer, which holds at most \<open>len - 1\<close> characters.\<close>

definition fdt_format :: "'f fdt_lib \<Rightarrow> nat \<Rightarrow> string \<Rightarrow> int \<times> string" where
  "fdt_format lib len s = (if length s \<ge> len then - FDT_ERR_INTERNAL lib else 0, take (len - 1) s)"

definition fdt_format_memory_name :: "'f fdt_lib \<Rightarrow> nat \<Rightarrow> string \<Rightarrow> u64 \<Rightarrow> int \<times> string" where
  "fdt_format_memory_name lib len prefix b = fdt_format lib len (prefix @ ''@'' @ hex (unat b))"

definition fdt_format_pci_devfn_name :: "'f fdt_lib \<Rightarrow> nat \<Rightarrow> string \<Rightarrow> u32 \<Rightarrow> int \<times> string" where
  "fdt_format_pci_devfn_name lib len prefix df =
     fdt_format lib len (prefix @ ''@'' @ dec (unat (PCI_SLOT df)) @ '','' @ dec (unat (PCI_FUNC df)))"

subsection \<open>Nodes\<close>

definition fdt_assign_phandle :: "'f fdt_lib \<Rightarrow> 'f \<Rightarrow> int \<Rightarrow> int \<times> 'f" where
  "fdt_assign_phandle lib fdt offset =
     (let max_phandle = fdt_get_max_phandle lib fdt in
      if max_phandle = -1 then (- FDT_ERR_NOPHANDLES lib, fdt)
      else
        let phandle = max_phandle + 1 in
        if phandle < max_phandle \<or> phandle = -1 then (- FDT_ERR_NOPHANDLES lib, fdt)
        else fdt_appendprop_u32 lib fdt offset ''phandle'' phandle)"

definition fdt_generate_reserved_node ::
  "'f fdt_lib \<Rightarrow> 'f \<Rightarrow> string \<Rightarrow> string \<Rightarrow> u64 \<Rightarrow> u64 \<Rightarrow> int \<times> 'f" where
  "fdt_generate_reserved_node lib fdt prefix cmpt b sz =
     (case fdt_format_memory_name lib 64 prefix b of (err, name) \<Rightarrow>
      if err \<noteq> 0 then (- FDT_ERR_INTERNAL lib, fdt)
      else
        let root_offset = fdt_path_offset lib fdt ''/reserved-memory'' in
        if root_offset < 0 then (root_offset, fdt)
        else
          let address_cells = fdt_address_cells lib fdt root_offset;
              size_cells = fdt_size_cells lib fdt root_offset
          in case fdt_add_subnode lib fdt root_offset name of (this, fdt) \<Rightarrow>
          if this < 0 then (this, fdt)
          else case fdt_appendprop_string lib fdt this ''compatible'' cmpt of (err, fdt) \<Rightarrow>
          if err \<noteq> 0 then (err, fdt)
          else case fdt_appendprop_uint lib fdt this ''reg'' b address_cells of (err, fdt) \<Rightarrow>
          if err \<noteq> 0 then (err, fdt)
          else case fdt_appendprop_uint lib fdt this ''reg'' sz size_cells of (err, fdt) \<Rightarrow>
          if err \<noteq> 0 then (err, fdt)
          else case fdt_assign_phandle lib fdt this of (err, fdt) \<Rightarrow>
          if err \<noteq> 0 then (err, fdt)
          else case fdt_generate_memory_node lib fdt b sz of (err, fdt) \<Rightarrow>
          if err \<noteq> 0 then (-1, fdt) else (this, fdt))"

fun append_cells :: "'f fdt_lib \<Rightarrow> 'f \<Rightarrow> int \<Rightarrow> string \<Rightarrow> u32 list \<Rightarrow> int \<times> 'f" where
  "append_cells lib fdt off prop [] = (0, fdt)"
| "append_cells lib fdt off prop (c # cs) =
     (case fdt_appendprop_u32 lib fdt off prop c of (err, fdt) \<Rightarrow>
        if err \<noteq> 0 then (err, fdt) else append_cells lib fdt off prop cs)"

text \<open>The cells of the \<open>reg\<close> property: the function number in bits 8 to 15, then four zeros.\<close>

definition pci_reg :: "u32 \<Rightarrow> u32 list" where
  "pci_reg df = push_bit 8 (df AND 0xff) # replicate 4 0"

definition fdt_generate_pci_node :: "'f fdt_lib \<Rightarrow> 'f \<Rightarrow> string \<Rightarrow> u32 \<Rightarrow> int \<times> 'f" where
  "fdt_generate_pci_node lib fdt prefix df =
     (let root_offset = fdt_path_offset lib fdt ''/pci'' in
      if root_offset < 0 then (root_offset, fdt)
      else
        case fdt_format_pci_devfn_name lib 64 prefix df of (err, name) \<Rightarrow>
        if err \<noteq> 0 then (- FDT_ERR_INTERNAL lib, fdt)
        else case fdt_add_subnode lib fdt root_offset name of (this, fdt) \<Rightarrow>
        if this < 0 then (this, fdt)
        else case append_cells lib fdt this ''reg'' (pci_reg df) of (err, fdt) \<Rightarrow>
        if err \<noteq> 0 then (err, fdt) else (this, fdt))"

definition fdt_reserved_memory_phandle :: "'f fdt_lib \<Rightarrow> 'f \<Rightarrow> string \<Rightarrow> int \<times> u32 option" where
  "fdt_reserved_memory_phandle lib fdt name =
     (let path = ''/reserved-memory/'' @ name in
      if length path \<ge> 256 then (- FDT_ERR_INTERNAL lib, None)
      else
        let off = fdt_path_offset lib fdt path in
        if off < 0 then (off, None)
        else
          let p = fdt_get_phandle lib fdt off in
          if p = 0 then (- FDT_ERR_NOTFOUND lib, None) else (0, Some p))"

text \<open>The result of formatting the name is not looked at: the test is on the array, which is never null.\<close>

definition fdt_assign_reserved_memory :: "'f fdt_lib \<Rightarrow> 'f \<Rightarrow> int \<Rightarrow> string \<Rightarrow> u64 \<Rightarrow> int \<times> 'f" where
  "fdt_assign_reserved_memory lib fdt off prefix b =
     (let name = snd (fdt_format_memory_name lib 64 prefix b) in
      case fdt_reserved_memory_phandle lib fdt name of (err, phandle) \<Rightarrow>
        if err = - FDT_ERR_NOTFOUND lib then (0, fdt)
        else if err < 0 then (-1, fdt)
        else case phandle of
               None \<Rightarrow> (0, fdt)
             | Some ph \<Rightarrow> fdt_appendprop_u32 lib fdt off ''memory-region'' ph)"

subsection \<open>Registered nodes\<close>

text \<open>
  A node is the first member of a data port; \<open>generate\<close> is one of the two functions of the file,
  or null. The section lists node pointers, null where a slot of \<open>fdt_nodes\<close> is unused.
\<close>

datatype generate_fn = Generate_dataport | Generate_swiotlb

record fdt_node =
  node_name :: string
  compatible :: "string option"
  generated :: bool
  generate :: "generate_fn option"
  gpa :: u64
  dp_size :: u64

definition MAX_FDT_NODES :: nat where "MAX_FDT_NODES = 32"

definition fdt_node_add :: "nat list \<Rightarrow> nat \<Rightarrow> int \<times> nat list" where
  "fdt_node_add nodes node = (if length nodes \<ge> MAX_FDT_NODES then (-1, nodes) else (0, nodes @ [node]))"

record 'f fdt_state =
  store :: "nat \<Rightarrow> fdt_node"
  blob :: 'f
  guest_ram_base :: u64
  guest_ram_size :: u64

text \<open>\<open>node->compatible\<close>; the filter passes on only nodes that have one.\<close>

definition compat_of :: "fdt_node \<Rightarrow> string" where
  "compat_of n = (case compatible n of Some c \<Rightarrow> c | None \<Rightarrow> [])"

definition fdt_node_generate_dataport :: "'f fdt_lib \<Rightarrow> nat \<Rightarrow> 'f fdt_state \<Rightarrow> int \<times> 'f fdt_state" where
  "fdt_node_generate_dataport lib node st =
     (let n = store st node in
      case fdt_generate_reserved_node lib (blob st) (node_name n) (compat_of n) (gpa n) (dp_size n) of (offset, fdt) \<Rightarrow>
        (if offset \<le> 0 then -1 else 1, st\<lparr>blob := fdt\<rparr>))"

definition fdt_node_generate_swiotlb :: "'f fdt_lib \<Rightarrow> nat \<Rightarrow> 'f fdt_state \<Rightarrow> int \<times> 'f fdt_state" where
  "fdt_node_generate_swiotlb lib node st =
     (let n = store st node in
      if gpa n = guest_ram_base st \<and> dp_size n = guest_ram_size st then (0, st)
      else fdt_node_generate_dataport lib node st)"

definition fdt_node_generate :: "'f fdt_lib \<Rightarrow> nat \<Rightarrow> 'f fdt_state \<Rightarrow> int \<times> 'f fdt_state" where
  "fdt_node_generate lib node st =
     (case generate (store st node) of
        None \<Rightarrow> (-1, st)
      | Some g \<Rightarrow>
          if generated (store st node) then (0, st)
          else
            case (case g of Generate_dataport \<Rightarrow> fdt_node_generate_dataport lib node st
                          | Generate_swiotlb \<Rightarrow> fdt_node_generate_swiotlb lib node st) of (rc, st) \<Rightarrow>
              (rc, if rc > 0 then st\<lparr>store := (store st)(node := (store st node)\<lparr>generated := True\<rparr>)\<rparr> else st))"

definition fdt_node_filter_compatible :: "string \<Rightarrow> fdt_node \<Rightarrow> int" where
  "fdt_node_filter_compatible cmpt n =
     (case compatible n of None \<Rightarrow> 0 | Some c \<Rightarrow> if c \<noteq> cmpt then 0 else 1)"

fun fdt_node_generate_filter ::
  "'f fdt_lib \<Rightarrow> (fdt_node \<Rightarrow> int) option \<Rightarrow> nat option list \<Rightarrow> int \<Rightarrow> 'f fdt_state \<Rightarrow> int \<times> 'f fdt_state" where
  "fdt_node_generate_filter lib filt [] rc st = (0, st)"
| "fdt_node_generate_filter lib filt (ptr # ptrs) rc st =
     (if rc \<noteq> 0 then (0, st)
      else
        case ptr of
          None \<Rightarrow> fdt_node_generate_filter lib filt ptrs rc st
        | Some node \<Rightarrow>
            let rc = (case filt of None \<Rightarrow> rc | Some f \<Rightarrow> f (store st node)) in
            if filt \<noteq> None \<and> rc = -1 then (-1, st)
            else if rc = 0 then fdt_node_generate_filter lib filt ptrs rc st
            else
              case fdt_node_generate lib node st of (rc, st) \<Rightarrow>
                if rc < 0 then (-1, st) else fdt_node_generate_filter lib filt ptrs rc st)"

definition fdt_node_generate_compatibles ::
  "'f fdt_lib \<Rightarrow> nat option list \<Rightarrow> string \<Rightarrow> 'f fdt_state \<Rightarrow> int \<times> 'f fdt_state" where
  "fdt_node_generate_compatibles lib sect cmpt st =
     fdt_node_generate_filter lib (Some (fdt_node_filter_compatible cmpt)) sect 0 st"

definition fdt_node_generate_all :: "'f fdt_lib \<Rightarrow> nat option list \<Rightarrow> 'f fdt_state \<Rightarrow> int \<times> 'f fdt_state" where
  "fdt_node_generate_all lib sect st = fdt_node_generate_filter lib None sect 0 st"

subsection \<open>The guest's tree\<close>

fun fdt_generate_pci_config ::
  "'f fdt_lib \<Rightarrow> (proxy_ptr \<Rightarrow> u64) \<Rightarrow> pcidev list \<Rightarrow> 'f \<Rightarrow> int \<times> 'f" where
  "fdt_generate_pci_config lib data_base_of [] fdt = (0, fdt)"
| "fdt_generate_pci_config lib data_base_of (d # ds) fdt =
     (case fdt_generate_pci_node lib fdt ''virtio'' (devfn d) of (this, fdt) \<Rightarrow>
        if this \<le> 0 then (-1, fdt)
        else
          case fdt_assign_reserved_memory lib fdt this ''swiotlb'' (data_base_of (dev_proxy d)) of (err, fdt) \<Rightarrow>
            if err \<noteq> 0 then (-1, fdt) else fdt_generate_pci_config lib data_base_of ds fdt)"

text \<open>\<open>vpci\<close> is the result of \<open>vmm_module_init_by_name\<close>.\<close>

definition guest_configure ::
  "'f fdt_lib \<Rightarrow> int \<Rightarrow> bool \<Rightarrow> nat option list \<Rightarrow> 'w vmm \<Rightarrow> 'f fdt_state \<Rightarrow> int \<times> 'f fdt_state" where
  "guest_configure lib vpci generate_dtb sect vm st =
     (if vpci \<noteq> 0 then (-1, st)
      else if \<not> generate_dtb then (0, st)
      else
        case fdt_node_generate_compatibles lib sect ''restricted-dma-pool'' st of (err, st) \<Rightarrow>
        if err \<noteq> 0 then (-1, st)
        else case fdt_generate_pci_config lib (\<lambda>p. data_base (proxies vm p)) (pci_devs vm) (blob st) of (err, fdt) \<Rightarrow>
        let st = st\<lparr>blob := fdt\<rparr> in
        if err \<noteq> 0 then (-1, st)
        else case fdt_node_generate_all lib sect st of (err, st) \<Rightarrow>
        if err \<noteq> 0 then (-1, st) else (0, st))"

definition USB_PCI_NODE_PATH :: string where "USB_PCI_NODE_PATH = ''/scb/pcie@7d500000/pci@0,0''"
definition USB_NODE_NAME :: string where "USB_NODE_NAME = ''usb@0,0''"

definition fdt_generate_usb_node :: "'f fdt_lib \<Rightarrow> 'f \<Rightarrow> int \<times> 'f" where
  "fdt_generate_usb_node lib fdt =
     (let root_offset = fdt_path_offset lib fdt USB_PCI_NODE_PATH in
      if root_offset \<le> 0 then (0, fdt)
      else
        case fdt_add_subnode lib fdt root_offset USB_NODE_NAME of (this, fdt) \<Rightarrow>
        if this < 0 then (this, fdt)
        else case append_cells lib fdt this ''resets'' [0x2d, 0x00] of (err, fdt) \<Rightarrow>
        if err \<noteq> 0 then (err, fdt)
        else append_cells lib fdt this ''reg'' [0x10000, 0, 0, 0, 0])"

definition fdt_plat_customize :: "'f fdt_lib \<Rightarrow> 'f \<Rightarrow> int \<times> 'f" where
  "fdt_plat_customize lib fdt =
     (case fdt_generate_usb_node lib fdt of (err, fdt) \<Rightarrow> (if err \<noteq> 0 then -1 else 0, fdt))"

subsection \<open>Reading a number back\<close>

definition undigit :: "char \<Rightarrow> nat" where
  "undigit c = length (takeWhile (\<lambda>d. d \<noteq> c) ''0123456789abcdef'')"

definition read_base :: "nat \<Rightarrow> string \<Rightarrow> nat" where
  "read_base b s = foldl (\<lambda>a c. a * b + undigit c) 0 s"

lemma undigit_digit:
  assumes "d < 16"
  shows "undigit (digit d) = d"
proof -
  have index: "length (takeWhile (\<lambda>y. y \<noteq> xs ! i) xs) = i" if "distinct xs" "i < length xs" for xs :: string and i
    using that by (induction xs arbitrary: i) (auto simp: nth_Cons split: nat.split)
  have "distinct ''0123456789abcdef''" by simp
  from index [OF this, of d] assms show ?thesis by (simp add: undigit_def digit_def)
qed

lemma read_in_base: "2 \<le> b \<Longrightarrow> b \<le> 16 \<Longrightarrow> read_base b (in_base b n) = n"
proof (induction b n rule: in_base.induct)
  case (1 b n)
  show ?case
  proof (cases "n < b")
    case True
    then have "in_base b n = [digit n]" by (subst in_base.simps) simp
    with True 1 show ?thesis by (simp add: read_base_def undigit_digit)
  next
    case False
    then have eq: "in_base b n = in_base b (n div b) @ [digit (n mod b)]" using 1(2) by (subst in_base.simps) simp
    have "n mod b < b" using 1(2) by simp
    then have "undigit (digit (n mod b)) = n mod b" using 1(3) by (intro undigit_digit) simp
    moreover have "read_base b (in_base b (n div b)) = n div b" using 1 False by simp
    ultimately show ?thesis unfolding eq by (simp add: read_base_def)
  qed
qed

lemma hex_inject: "hex m = hex n \<longleftrightarrow> m = n"
proof
  have "read_base 16 (hex k) = k" for k unfolding hex_def by (rule read_in_base) simp_all
  then show "hex m = hex n \<Longrightarrow> m = n" by metis
qed simp

lemma format_ok:
  assumes "FDT_ERR_INTERNAL lib \<noteq> 0" "fdt_format lib len s = (0, name)"
  shows "name = s \<and> length s < len"
  using assms by (auto simp: fdt_format_def split: if_splits)

subsection \<open>Which nodes are generated\<close>

lemma generate_store:
  assumes "fdt_node_generate lib node st = (rc, st')"
  shows "rc \<le> 0 \<Longrightarrow> store st' = store st"
    "k \<noteq> node \<Longrightarrow> store st' k = store st k"
  using assms
  by (auto simp: fdt_node_generate_def fdt_node_generate_swiotlb_def fdt_node_generate_dataport_def Let_def
      split: option.splits if_splits prod.splits generate_fn.splits)

lemma filter_stopped: "rc \<noteq> 0 \<Longrightarrow> fdt_node_generate_filter lib filt ptrs rc st = (0, st)"
  by (cases ptrs) simp_all

lemma filter_changes_one:
  assumes "fdt_node_generate_filter lib filt ptrs 0 st = (rc, st')"
  shows "\<exists>node. \<forall>k. k \<noteq> node \<longrightarrow> store st' k = store st k"
  using assms
proof (induction ptrs arbitrary: st)
  case (Cons ptr ptrs)
  show ?case
  proof (cases ptr)
    case None
    with Cons show ?thesis by simp
  next
    case (Some node)
    define f where "f = (case filt of None \<Rightarrow> 0 | Some f \<Rightarrow> f (store st node))"
    obtain rc1 st1 where g: "fdt_node_generate lib node st = (rc1, st1)" by fastforce
    have step: "fdt_node_generate_filter lib filt (ptr # ptrs) 0 st =
      (if filt \<noteq> None \<and> f = -1 then (-1, st) else if f = 0 then fdt_node_generate_filter lib filt ptrs 0 st
       else if rc1 < 0 then (-1, st1) else fdt_node_generate_filter lib filt ptrs rc1 st1)"
      by (simp add: Some Let_def g f_def)
    note P = Cons.prems [unfolded step]
    consider "filt \<noteq> None \<and> f = -1" | "\<not> (filt \<noteq> None \<and> f = -1)" "f = 0" | "\<not> (filt \<noteq> None \<and> f = -1)" "f \<noteq> 0" "rc1 = 0" |
      "\<not> (filt \<noteq> None \<and> f = -1)" "f \<noteq> 0" "rc1 \<noteq> 0" by blast
    then show ?thesis
    proof cases
      case 1
      with P show ?thesis by simp
    next
      case 2
      with P have "fdt_node_generate_filter lib filt ptrs 0 st = (rc, st')" by simp
      then show ?thesis by (rule Cons.IH)
    next
      case 3
      with P have "fdt_node_generate_filter lib filt ptrs 0 st1 = (rc, st')" by (simp split: if_splits)
      from Cons.IH [OF this] generate_store(1) [OF g] 3(3) show ?thesis by simp
    next
      case 4
      with P filter_stopped [of rc1 lib filt ptrs st1] have "st' = st1" by (auto split: if_splits)
      with generate_store(2) [OF g] show ?thesis by blast
    qed
  qed
qed simp

subsection \<open>Properties\<close>

text \<open>
  The name of a reserved-memory node identifies its base address: two formatted names with one
  prefix are equal only when the addresses are, and a name that does not fit the buffer is
  reported.\<close>

lemma memory_names_unique:
  assumes "FDT_ERR_INTERNAL lib \<noteq> 0" "fdt_format_memory_name lib len prefix b1 = (0, n1)" "fdt_format_memory_name lib len prefix b2 = (0, n2)"
  shows "length n1 < len \<and> (n1 = n2 \<longleftrightarrow> b1 = b2)"
proof -
  from format_ok [OF assms(1) assms(2) [unfolded fdt_format_memory_name_def]] format_ok [OF assms(1) assms(3) [unfolded fdt_format_memory_name_def]]
  have "n1 = prefix @ ''@'' @ hex (unat b1)" "n2 = prefix @ ''@'' @ hex (unat b2)" "length n1 < len" by auto
  then show ?thesis by (simp add: hex_inject word_unat_eq_iff)
qed

text \<open>A blob that records the properties appended to it.\<close>

definition log_lib :: "(int \<times> string \<times> u64) list fdt_lib" where
  "log_lib = \<lparr>fdt_path_offset = (\<lambda>f p. 8), fdt_address_cells = (\<lambda>f o'. 2), fdt_size_cells = (\<lambda>f o'. 2),
     fdt_add_subnode = (\<lambda>f o' n. (16, f)), fdt_appendprop_string = (\<lambda>f o' p v. (0, f)),
     fdt_appendprop_u32 = (\<lambda>f o' p v. (0, f @ [(o', p, ucast v)])), fdt_appendprop_uint = (\<lambda>f o' p v n. (0, f @ [(o', p, v)])),
     fdt_get_max_phandle = (\<lambda>f. 3), fdt_get_phandle = (\<lambda>f o'. 3), fdt_generate_memory_node = (\<lambda>f b s. (0, f)),
     FDT_ERR_INTERNAL = 13, FDT_ERR_NOPHANDLES = 17, FDT_ERR_NOTFOUND = 1\<rparr>"

lemma memory_names_unique_witness:
  "fst (fdt_format_memory_name log_lib 64 ''swiotlb'' 0x60000000) = 0 \<and> fst (fdt_format_memory_name log_lib 64 ''swiotlb'' 0x60100000) = 0 \<and>
    snd (fdt_format_memory_name log_lib 64 ''swiotlb'' 0x60000000) \<noteq> snd (fdt_format_memory_name log_lib 64 ''swiotlb'' 0x60100000)"
proof -
  obtain e1 n1 where 1: "fdt_format_memory_name log_lib 64 ''swiotlb'' 0x60000000 = (e1, n1)" by fastforce
  obtain e2 n2 where 2: "fdt_format_memory_name log_lib 64 ''swiotlb'' 0x60100000 = (e2, n2)" by fastforce
  from 1 2 have "e1 = 0" "e2 = 0"
    by (simp_all add: fdt_format_memory_name_def fdt_format_def log_lib_def hex_def) (simp_all add: in_base.simps split: if_splits)
  with memory_names_unique [of log_lib 64 "''swiotlb''" "0x60000000" n1 "0x60100000" n2] 1 2 show ?thesis
    by (simp add: log_lib_def)
qed

lemma generate_all_skips: "fdt_node_generate_filter lib None ptrs 0 st = (0, st)"
  by (induction ptrs) (auto split: option.split)

text \<open>
  C40. The two entry points of node generation do less than their names say. \<open>fdt_node_generate_all\<close>
  generates nothing: without a filter the loop takes the initial code 0 for a node that was
  filtered out, so every registered node is skipped and the tree is returned as it was. One call of
  \<open>fdt_node_generate_compatibles\<close> generates at most one node, however many registered nodes match:
  the loop stops at the first one it generates.\<close>

theorem filtered_generation:
  "fdt_node_generate_all lib sect st = (0, st) \<and>
   (\<exists>node n. store (snd (fdt_node_generate_compatibles lib sect cmpt st)) = (store st)(node := n))"
proof -
  let ?st = "snd (fdt_node_generate_compatibles lib sect cmpt st)"
  obtain node where "\<forall>k. k \<noteq> node \<longrightarrow> store ?st k = store st k"
    using filter_changes_one [of lib "Some (fdt_node_filter_compatible cmpt)" sect st]
    unfolding fdt_node_generate_compatibles_def by (metis prod.collapse)
  then have "store ?st = (store st)(node := store ?st node)" by auto
  then have "\<exists>node n. store ?st = (store st)(node := n)" by blast
  then show ?thesis by (simp add: fdt_node_generate_all_def generate_all_skips)
qed

end
