(* ===== verification/Trace.thy ===== *)
theory Trace
  imports Fdt
begin

text \<open>
  Tracing (\<open>src/camkes/modules/trace.c\<close>, \<open>include/tii/trace.h\<close>): the names of trace points, the
  buffers that the kernel, the VMM and the guest share, and the control of the kernel's log. The
  allocators, address spaces and system calls of seL4 are parameters.
\<close>

subsection \<open>Trace points\<close>

definition TRACE_POINT_MAX :: nat where "TRACE_POINT_MAX = 256"

text \<open>The first index from \<open>i\<close> on at which the name is stored.\<close>

fun find_name :: "string list \<Rightarrow> string \<Rightarrow> nat \<Rightarrow> nat option" where
  "find_name [] str i = None"
| "find_name (n # ns) str i = (if n = str then Some i else find_name ns str (Suc i))"

text \<open>The search starts at index 1; \<open>names\<close> holds the first \<open>trace_names_count\<close> entries.\<close>

definition trace_index :: "string list \<Rightarrow> string \<Rightarrow> (nat \<times> string list) res" where
  "trace_index names str =
     (case find_name (drop 1 names) str 1 of
        Some i \<Rightarrow> Inr (i, names)
      | None \<Rightarrow>
          if length names = TRACE_POINT_MAX then Inl Fatal
          else Inr (length names, names @ [str]))"

text \<open>
  The macro \<open>trace\<close> at one place of the code; \<open>idx\<close> is the static variable of that place.
\<close>

definition trace :: "string \<Rightarrow> nat \<Rightarrow> string list \<Rightarrow> (nat \<times> string list) res" where
  "trace str idx names = (if idx = 0 then trace_index names str else Inr (idx, names))"

subsection \<open>Shared buffers\<close>

type_synonym cptr = seL4_Word

record cspacepath =
  root :: seL4_Word
  capPtr :: seL4_Word
  capDepth :: seL4_Word

text \<open>An entry of the kernel's log, as far as it is printed.\<close>

record track_entry =
  start_time :: u64
  path :: u32
  next_thread :: u64

text \<open>
  Calls of libsel4vka, libsel4vspace and the kernel. Mappings get all rights and are cacheable, as
  every call in the source asks. An address that is \<open>None\<close> is the null pointer; \<open>log_entry\<close> is element \<open>i\<close>
  of the array at an address, or \<open>None\<close> behind the end of what is mapped there.
\<close>

record 'w trace_lib =
  vka_alloc_frame :: "u64 \<Rightarrow> 'w \<Rightarrow> int \<times> cptr \<times> 'w"
  vspace_reserve_range_at :: "u64 \<Rightarrow> u64 \<Rightarrow> 'w \<Rightarrow> nat option \<times> 'w"
  vspace_map_pages_at_vaddr :: "cptr \<Rightarrow> u64 \<Rightarrow> nat \<Rightarrow> u64 \<Rightarrow> nat \<Rightarrow> 'w \<Rightarrow> int \<times> 'w"
  vka_cspace_alloc :: "'w \<Rightarrow> int \<times> cptr \<times> 'w"
  vka_cspace_make_path :: "cptr \<Rightarrow> cspacepath"
  seL4_CNode_Copy :: "cspacepath \<Rightarrow> cspacepath \<Rightarrow> 'w \<Rightarrow> int \<times> 'w"
  vspace_map_pages :: "cptr \<Rightarrow> nat \<Rightarrow> u64 \<Rightarrow> 'w \<Rightarrow> u64 option \<times> 'w"
  seL4_BenchmarkSetLogBuffer :: "cptr \<Rightarrow> 'w \<Rightarrow> int \<times> 'w"
  seL4_BenchmarkResetLog :: "'w \<Rightarrow> 'w"
  seL4_BenchmarkFinalizeLog :: "'w \<Rightarrow> seL4_Word \<times> 'w"
  seL4_DebugDumpScheduler :: "'w \<Rightarrow> 'w"
  pmuserenr_el0 :: "'w \<Rightarrow> u64"
  log_entry :: "u64 \<Rightarrow> nat \<Rightarrow> 'w \<Rightarrow> track_entry option"
  print_line :: "string \<Rightarrow> 'w \<Rightarrow> 'w"
  seL4_LargePageBits :: u64
  Entry_Switch :: u32

definition vka_cnode_copy :: "'w trace_lib \<Rightarrow> cptr \<Rightarrow> cptr \<Rightarrow> 'w \<Rightarrow> int \<times> 'w" where
  "vka_cnode_copy lib slot_src slot_dst w =
     seL4_CNode_Copy lib (vka_cspace_make_path lib slot_dst) (vka_cspace_make_path lib slot_src) w"

text \<open>The three static variables that one call of \<open>trace_init_shared_mem\<close> fills in.\<close>

record shared_mem =
  local_mem :: cptr
  vm_memory :: u64
  vmm_memory :: "u64 option"

definition trace_init_shared_mem :: "'w trace_lib \<Rightarrow> u64 \<Rightarrow> u64 \<Rightarrow> 'w \<Rightarrow> (shared_mem \<times> 'w) res" where
  "trace_init_shared_mem lib mem_addr mem_size w =
     (case vka_alloc_frame lib mem_size w of (err, frame, w) \<Rightarrow>
      if err \<noteq> 0 then Inl Fatal
      else case vspace_reserve_range_at lib mem_addr (push_bit (unat mem_size) 1) w of
        (None, w) \<Rightarrow> Inl Assert_failed
      | (Some res, w) \<Rightarrow>
          (case vspace_map_pages_at_vaddr lib frame mem_addr 1 mem_size res w of (err, w) \<Rightarrow>
           asserting (err = 0)
             (case vka_cspace_alloc lib w of (err, dup, w) \<Rightarrow>
              asserting (err = 0)
                (case vka_cnode_copy lib frame dup w of (err, w) \<Rightarrow>
                 asserting (err = 0)
                   (case vspace_map_pages lib dup 1 mem_size w of (va, w) \<Rightarrow>
                    asserting (va \<noteq> None) (Inr (\<lparr>local_mem = frame, vm_memory = mem_addr, vmm_memory = va\<rparr>, w)))))))"

text \<open>The four constants of the configuration are of type \<open>int\<close>; conversions to 64 bits extend the sign.\<close>

record trace_config =
  tracebuffer_base :: u32
  tracebuffer_size :: u32
  ramoops_base :: u32
  ramoops_size :: u32

text \<open>
  The calls in \<open>fdt_generate_trace_nodes\<close> pass a null pointer as a sixth argument, for which
  \<open>fdt_generate_reserved_node\<close> has no parameter. The definition is what they do without it.
\<close>

definition fdt_generate_trace_nodes :: "'f fdt_lib \<Rightarrow> trace_config \<Rightarrow> 'f \<Rightarrow> int \<times> 'f" where
  "fdt_generate_trace_nodes fl cfg fdt =
     (case (if tracebuffer_base cfg \<noteq> 0 \<and> tracebuffer_size cfg \<noteq> 0
            then fdt_generate_reserved_node fl fdt ''sel4_tracebuffer'' ''sel4_tracebuffer''
                   (scast (tracebuffer_base cfg)) (scast (tracebuffer_size cfg))
            else (0, fdt)) of (err, fdt) \<Rightarrow>
      if err < 0 then (err, fdt)
      else case (if ramoops_base cfg \<noteq> 0 \<and> ramoops_size cfg \<noteq> 0
                 then fdt_generate_reserved_node fl fdt ''ramoops'' ''ramoops''
                        (scast (ramoops_base cfg)) (scast (ramoops_size cfg))
                 else (0, fdt)) of (err, fdt) \<Rightarrow>
      if err < 0 then (err, fdt) else (0, fdt))"

text \<open>The file-scope variables: the buffer of the guest's crash log, the kernel's log and its control.\<close>

record trace_state =
  pstore :: "shared_mem option"
  kernel_trace :: "shared_mem option"
  trace_started :: bool
  benchmark_entries :: u32

text \<open>The two conditional parts of \<open>trace_init\<close>. The constants are weak definitions, so their addresses are never null.\<close>

definition trace_init_pstore :: "'w trace_lib \<Rightarrow> trace_config \<Rightarrow> trace_state \<Rightarrow> 'w \<Rightarrow> (trace_state \<times> 'w) res" where
  "trace_init_pstore lib cfg st w =
     (if ramoops_base cfg \<noteq> 0 \<and> ramoops_size cfg \<noteq> 0 then
        if scast (ramoops_size cfg) \<noteq> push_bit (unat (seL4_LargePageBits lib)) (1::u64) then Inl Fatal
        else andthen (trace_init_shared_mem lib (scast (ramoops_base cfg)) (seL4_LargePageBits lib) w) (\<lambda>(m, w).
               Inr (st\<lparr>pstore := Some m\<rparr>, w))
      else Inr (st, w))"

definition trace_init_log :: "'w trace_lib \<Rightarrow> trace_config \<Rightarrow> trace_state \<Rightarrow> 'w \<Rightarrow> (trace_state \<times> 'w) res" where
  "trace_init_log lib cfg st w =
     (if tracebuffer_base cfg \<noteq> 0 \<and> tracebuffer_size cfg \<noteq> 0 then
        if scast (tracebuffer_size cfg) \<noteq> push_bit (unat (seL4_LargePageBits lib)) (1::u64) then Inl Fatal
        else andthen (trace_init_shared_mem lib (scast (tracebuffer_base cfg)) (seL4_LargePageBits lib) w) (\<lambda>(m, w).
               case seL4_BenchmarkSetLogBuffer lib (local_mem m) w of (err, w) \<Rightarrow>
               if err \<noteq> 0 then Inl Fatal else Inr (st\<lparr>kernel_trace := Some m\<rparr>, w))
      else Inr (st, w))"

definition trace_init ::
  "'w trace_lib \<Rightarrow> 'f fdt_lib \<Rightarrow> trace_config \<Rightarrow> 'f \<Rightarrow> trace_state \<Rightarrow> 'w \<Rightarrow> ('f \<times> trace_state \<times> 'w) res" where
  "trace_init lib fl cfg fdt st w =
     andthen (trace_init_pstore lib cfg st w) (\<lambda>(st, w).
     andthen (trace_init_log lib cfg st w) (\<lambda>(st, w).
     case fdt_generate_trace_nodes fl cfg fdt of (err, fdt) \<Rightarrow>
       if err \<noteq> 0 then Inl Fatal else Inr (fdt, st, w)))"

subsection \<open>The kernel's log\<close>

text \<open>
  \<open>pmuserenr_el0 & 1 == 0\<close> compares first: the mask is the truth value of \<open>1 == 0\<close>.
\<close>

definition trace_start :: "'w trace_lib \<Rightarrow> trace_state \<Rightarrow> 'w \<Rightarrow> (trace_state \<times> 'w) res" where
  "trace_start lib st w =
     (if trace_started st then Inr (st, w)
      else if pmuserenr_el0 lib w AND of_bool ((1::int) = 0) \<noteq> 0 then Inl Fatal
      else Inr (st\<lparr>trace_started := True\<rparr>, seL4_BenchmarkResetLog lib w))"

definition trace_stop :: "'w trace_lib \<Rightarrow> trace_state \<Rightarrow> 'w \<Rightarrow> trace_state \<times> 'w" where
  "trace_stop lib st w =
     (case seL4_BenchmarkFinalizeLog lib w of (n, w) \<Rightarrow> (st\<lparr>benchmark_entries := ucast n, trace_started := False\<rparr>, w))"

text \<open>A line of \<open>trace_dump\<close>: the start time as a signed number, the next thread in hexadecimal.\<close>

definition entry_line :: "track_entry \<Rightarrow> string" where
  "entry_line e =
     (if sint (start_time e) < 0 then ''-'' else []) @ dec (nat \<bar>sint (start_time e)\<bar>) @ '' '' @ hex (unat (next_thread e)) @ [CHR 0x0a]"

text \<open>The array lies where the buffer is mapped in the VMM; without a buffer it is null.\<close>

fun dump_entries :: "'w trace_lib \<Rightarrow> u64 option \<Rightarrow> nat list \<Rightarrow> 'w \<Rightarrow> 'w res" where
  "dump_entries lib ptr [] w = Inr w"
| "dump_entries lib ptr (i # js) w =
     (case ptr of None \<Rightarrow> Inl Null_deref
      | Some a \<Rightarrow>
          (case log_entry lib a i w of None \<Rightarrow> Inl Out_of_bounds
           | Some e \<Rightarrow> dump_entries lib ptr js (if path e = Entry_Switch lib then print_line lib (entry_line e) w else w)))"

definition trace_dump :: "'w trace_lib \<Rightarrow> trace_state \<Rightarrow> 'w \<Rightarrow> 'w res" where
  "trace_dump lib st w =
     dump_entries lib (Option.bind (kernel_trace st) vmm_memory) [0..<unat (benchmark_entries st)] (seL4_DebugDumpScheduler lib w)"

subsection \<open>What the trace table keeps\<close>

text \<open>The table never exceeds its array and holds each name once from index 1 on.\<close>

definition trace_ok :: "string list \<Rightarrow> bool" where
  "trace_ok names \<longleftrightarrow> length names \<le> TRACE_POINT_MAX \<and> distinct (drop 1 names)"

lemma find_name_None: "find_name ns str i = None \<longleftrightarrow> str \<notin> set ns"
  by (induction ns arbitrary: i) auto

lemma find_name_SomeD: "find_name ns str i = Some k \<Longrightarrow> i \<le> k \<and> k < i + length ns \<and> ns ! (k - i) = str"
proof (induction ns arbitrary: i)
  case (Cons n ns)
  show ?case
  proof (cases "n = str")
    case False
    with Cons.prems Cons.IH [of "Suc i"] have "Suc i \<le> k" "k < Suc i + length ns" "ns ! (k - Suc i) = str" by auto
    then show ?thesis by (simp add: nth_Cons')
  qed (use Cons.prems in auto)
qed simp

lemma find_name_distinct: "distinct ns \<Longrightarrow> j < length ns \<Longrightarrow> find_name ns (ns ! j) i = Some (i + j)"
proof (induction ns arbitrary: i j)
  case (Cons n ns)
  show ?case
  proof (cases j)
    case (Suc k)
    then have "ns ! k \<noteq> n" using Cons.prems by auto
    then show ?thesis using Suc Cons by simp
  qed simp
qed simp

lemma trace_index_known:
  assumes "trace_ok names" "1 \<le> i" "i < length names"
  shows "trace_index names (names ! i) = Inr (i, names)"
  using assms find_name_distinct [of "drop 1 names" "i - 1" 1]
  by (simp add: trace_index_def trace_ok_def)

lemma trace_index_hit:
  assumes "trace_ok names" "find_name (drop 1 names) str 1 = Some i"
  shows "trace_index names str = Inr (i, names)" "1 \<le> i" "i < length names" "names ! i = str"
  using assms find_name_SomeD [of "drop 1 names" str 1 i]
  by (auto simp: trace_index_def)

lemma trace_index_miss:
  assumes "trace_ok names" "find_name (drop 1 names) str 1 = None" "trace_index names str = Inr (i, names')"
  shows "i = length names" "names' = names @ [str]" "trace_ok names'"
proof -
  have e: "i = length names" "names' = names @ [str]" "length names \<noteq> TRACE_POINT_MAX"
    using assms(2,3) by (auto simp: trace_index_def split: if_splits)
  moreover have "str \<notin> set (drop 1 names)" by (rule find_name_None [THEN iffD1, OF assms(2)])
  ultimately show "i = length names" "names' = names @ [str]" "trace_ok names'"
    using assms(1) by (cases names; simp add: trace_ok_def)+
qed

text \<open>A known name keeps its index however the table grows.\<close>

lemma trace_index_grows:
  assumes "trace_ok (names @ later)" "1 \<le> i" "i < length names"
  shows "trace_index (names @ later) (names ! i) = Inr (i, names @ later)"
  using trace_index_known [OF assms(1,2)] assms(3) by (simp add: nth_append)

text \<open>
  The first name ever registered gets index 0, although the header promises an index of at
  least 1, and index 0 is outside the search: asking for the same name again stores it a second
  time, at index 1.
\<close>

lemma first_trace_point_is_registered_twice:
  "trace_index [] str = Inr (0, [str])" "trace_index [str] str = Inr (1, [str, str])"
  by (simp_all add: trace_index_def TRACE_POINT_MAX_def)

text \<open>
  C31. What \<open>trace_index\<close> returns, on every table within its bound and free of duplicates from index
  1 on. It is fatal exactly when the table is full and the name is not stored from index 1 on.
  Otherwise the table stays so, moves no earlier name, and the index returned is below 256 and holds
  the name. When the table was not empty the index is at least 1, and it is the answer for this name
  on the new table and on every table that extends it. The first name of all is the exception: it gets
  index 0, against the comment on \<open>trace_index\<close> in \<open>trace.h\<close>, the next request stores it again at
  index 1, and only that index is the answer from then on.
\<close>

theorem trace_index_stable:
  assumes "trace_ok names"
  shows "case trace_index names str of
      Inl e \<Rightarrow> e = Fatal \<and> length names = TRACE_POINT_MAX \<and> str \<notin> set (drop 1 names)
    | Inr (i, names') \<Rightarrow> \<not> (length names = TRACE_POINT_MAX \<and> str \<notin> set (drop 1 names)) \<and>
        trace_ok names' \<and> i < 256 \<and> i < length names' \<and> names' ! i = str \<and> take (length names) names' = names \<and>
        (if names = []
         then i = 0 \<and> trace_index names' str = Inr (1, [str, str]) \<and>
           (\<forall>later. trace_ok ([str, str] @ later) \<longrightarrow> trace_index ([str, str] @ later) str = Inr (1, [str, str] @ later))
         else 1 \<le> i \<and>
           (\<forall>later. trace_ok (names' @ later) \<longrightarrow> trace_index (names' @ later) str = Inr (i, names' @ later)))"
proof (cases "find_name (drop 1 names) str 1")
  case (Some k)
  note h = trace_index_hit [OF assms Some]
  have "str \<in> set (drop 1 names)" using find_name_None [of "drop 1 names" str 1] Some by auto
  moreover have "trace_index (names @ later) str = Inr (k, names @ later)" if "trace_ok (names @ later)" for later
    using trace_index_grows [OF that h(2,3)] h(4) by simp
  ultimately show ?thesis using h assms by (auto simp: trace_ok_def TRACE_POINT_MAX_def)
next
  case None
  then have new: "str \<notin> set (drop 1 names)" using find_name_None by blast
  show ?thesis
  proof (cases "length names = TRACE_POINT_MAX")
    case True
    with None new show ?thesis by (simp add: trace_index_def)
  next
    case False
    then have r: "trace_index names str = Inr (length names, names @ [str])" using None by (simp add: trace_index_def)
    note m = trace_index_miss [OF assms None r]
    have after: "trace_index ((names @ [str]) @ later) str = Inr (length names, (names @ [str]) @ later)"
      if "trace_ok ((names @ [str]) @ later)" "names \<noteq> []" for later
      using trace_index_grows [OF that(1), of "length names"] that(2) by (cases names) (simp_all add: nth_append)
    have first: "trace_index ([str, str] @ later) str = Inr (1, [str, str] @ later)" if "trace_ok ([str, str] @ later)" for later
      using trace_index_grows [OF that, of 1] by simp
    have "length names < 256" using m(3) by (simp add: trace_ok_def TRACE_POINT_MAX_def)
    with r m(3) False after first first_trace_point_is_registered_twice(2) [of str] show ?thesis
      by (cases "names = []") (simp_all add: Suc_le_eq)
  qed
qed

theorem trace_index_stable_witness:
  "trace_index [''boot'', ''irq''] ''fault'' = Inr (2, [''boot'', ''irq'', ''fault''])
   \<and> trace_index [''boot'', ''irq'', ''fault'', ''rpc''] ''fault'' = Inr (2, [''boot'', ''irq'', ''fault'', ''rpc''])
   \<and> trace_index [''boot''] ''boot'' = Inr (1, [''boot'', ''boot''])"
proof -
  have ok: "trace_ok [''boot'', ''irq'']" "trace_ok []" "trace_ok [''boot'', ''irq'', ''fault'', ''rpc'']"
    by (simp_all add: trace_ok_def TRACE_POINT_MAX_def)
  have r: "trace_index [''boot'', ''irq''] ''fault'' = Inr (2, [''boot'', ''irq'', ''fault''])" "trace_index [] ''boot'' = Inr (0, [''boot''])"
    by (simp_all add: trace_index_def TRACE_POINT_MAX_def)
  from trace_index_stable [OF ok(1), of "''fault''"] have
    "\<forall>later. trace_ok ([''boot'', ''irq'', ''fault''] @ later) \<longrightarrow>
      trace_index ([''boot'', ''irq'', ''fault''] @ later) ''fault'' = Inr (2, [''boot'', ''irq'', ''fault''] @ later)"
    unfolding r by simp
  from this [THEN spec, of "[''rpc'']"] ok(3) r trace_index_stable [OF ok(2), of "''boot''"]
  show ?thesis by simp
qed

text \<open>
  So a place in the code has its final number after it was passed twice at most, and that number
  is the index of its name.
\<close>

theorem trace_point_settles:
  assumes "trace_ok names" "trace str 0 names = Inr (i, names1)" "trace str i names1 = Inr (j, names2)"
  shows "1 \<le> j \<and> trace str j names2 = Inr (j, names2) \<and> trace_ok names2 \<and> j < length names2 \<and> names2 ! j = str"
proof -
  have e: "trace_index names str = Inr (i, names1)" using assms(2) by (simp add: trace_def)
  have look: "trace_ok ms' \<and> k < length ms' \<and> ms' ! k = str \<and> (k = 0 \<longrightarrow> ms = [])"
    if "trace_ok ms" "trace_index ms str = Inr (k, ms')" for ms k ms'
  proof (cases "find_name (drop 1 ms) str 1")
    case None
    show ?thesis using trace_index_miss [OF that(1) None that(2)] by simp
  next
    case (Some n)
    show ?thesis using trace_index_hit [OF that(1) Some] that by auto
  qed
  note first = look [OF assms(1) e]
  show ?thesis
  proof (cases i)
    case 0
    then have "trace_index names1 str = Inr (j, names2)" "names1 \<noteq> []"
      using assms(3) first by (auto simp: trace_def)
    with look [of names1 j names2] first show ?thesis by (cases j) (auto simp: trace_def)
  next
    case (Suc n)
    then show ?thesis using assms(3) first by (auto simp: trace_def)
  qed
qed

subsection \<open>One frame behind three views\<close>

text \<open>
  The documented effect of the calls on the frame a capability names (\<open>caps\<close>), on the frame behind an
  address of the guest (\<open>gmap\<close>) or of the VMM (\<open>vmap\<close>) and on the kernel's log buffer (\<open>logb\<close>), when
  they succeed.
\<close>

definition maps_frames ::
  "'w trace_lib \<Rightarrow> ('w \<Rightarrow> cptr \<Rightarrow> nat option) \<Rightarrow> ('w \<Rightarrow> u64 \<Rightarrow> nat option) \<Rightarrow> ('w \<Rightarrow> u64 \<Rightarrow> nat option) \<Rightarrow> ('w \<Rightarrow> nat option) \<Rightarrow> bool" where
  "maps_frames lib caps gmap vmap logb \<longleftrightarrow>
     (\<forall>sz w c w'. vka_alloc_frame lib sz w = (0, c, w') \<longrightarrow> caps w' c \<noteq> None) \<and>
     (\<forall>a n w r w'. vspace_reserve_range_at lib a n w = (r, w') \<longrightarrow> caps w' = caps w) \<and>
     (\<forall>c a n sz r w w'. vspace_map_pages_at_vaddr lib c a n sz r w = (0, w') \<longrightarrow> gmap w' a = caps w c \<and> caps w' = caps w) \<and>
     (\<forall>w c w'. vka_cspace_alloc lib w = (0, c, w') \<longrightarrow> caps w c = None \<and> caps w' = caps w \<and> gmap w' = gmap w) \<and>
     (\<forall>d s w w'. vka_cnode_copy lib s d w = (0, w') \<longrightarrow> caps w' = (caps w)(d := caps w s) \<and> gmap w' = gmap w) \<and>
     (\<forall>c n sz w a w'. vspace_map_pages lib c n sz w = (Some a, w') \<longrightarrow> vmap w' a = caps w c \<and> caps w' = caps w \<and> gmap w' = gmap w) \<and>
     (\<forall>c w w'. seL4_BenchmarkSetLogBuffer lib c w = (0, w') \<longrightarrow> logb w' = caps w c \<and> gmap w' = gmap w \<and> vmap w' = vmap w)"

lemma shared_mem_shares:
  assumes "maps_frames lib caps gmap vmap logb" "trace_init_shared_mem lib va sz w = Inr (m, w')"
  shows "\<exists>f a. caps w' (local_mem m) = Some f \<and> gmap w' va = Some f \<and> vmm_memory m = Some a \<and> vmap w' a = Some f"
proof -
  note L = assms(1) [unfolded maps_frames_def]
  obtain c w1 r w2 w3 d w4 w5 a where s: "vka_alloc_frame lib sz w = (0, c, w1)"
    "vspace_reserve_range_at lib va (push_bit (unat sz) 1) w1 = (Some r, w2)"
    "vspace_map_pages_at_vaddr lib c va 1 sz r w2 = (0, w3)" "vka_cspace_alloc lib w3 = (0, d, w4)"
    "vka_cnode_copy lib c d w4 = (0, w5)" "vspace_map_pages lib d 1 sz w5 = (Some a, w')"
    "m = \<lparr>local_mem = c, vm_memory = va, vmm_memory = Some a\<rparr>"
    using assms(2) by (auto simp: trace_init_shared_mem_def asserting_eq_Inr split: prod.splits option.splits if_splits)
  obtain f where f: "caps w1 c = Some f" using L s(1) by (metis not_None_eq)
  have w2: "caps w2 = caps w1" using L s(2) by metis
  have w3: "gmap w3 va = caps w2 c" "caps w3 = caps w2" using L s(3) by metis+
  have w4: "caps w4 = caps w3" "gmap w4 = gmap w3" using L s(4) by metis+
  have w5: "caps w5 = (caps w4)(d := caps w4 c)" "gmap w5 = gmap w4" using L s(5) by metis+
  have w6: "vmap w' a = caps w5 d" "caps w' = caps w5" "gmap w' = gmap w5" using L s(6) by metis+
  show ?thesis using f w2 w3 w4 w5 w6 s(7) by simp
qed

text \<open>
  C32. When the trace module starts with a trace buffer configured, the buffer has the size of a large page
  and one frame is behind all three views of it: the configured address of the guest, the
  address at which the VMM reads the entries, and the kernel's log. Another size stops the boot.
\<close>

theorem trace_buffer_is_shared:
  assumes "maps_frames lib caps gmap vmap logb" "tracebuffer_base cfg \<noteq> 0" "tracebuffer_size cfg \<noteq> 0"
  shows "(\<forall>fdt' st' w'. trace_init lib fl cfg fdt st w = Inr (fdt', st', w') \<longrightarrow>
      (\<exists>f m a. gmap w' (scast (tracebuffer_base cfg)) = Some f \<and> kernel_trace st' = Some m \<and> vmm_memory m = Some a \<and>
        vmap w' a = Some f \<and> logb w' = Some f)) \<and>
    (scast (tracebuffer_size cfg) \<noteq> push_bit (unat (seL4_LargePageBits lib)) (1::u64) \<longrightarrow> isl (trace_init lib fl cfg fdt st w))"
proof (intro conjI allI impI)
  fix fdt' st' w'
  assume i: "trace_init lib fl cfg fdt st w = Inr (fdt', st', w')"
  obtain err fdt1 where "fdt_generate_trace_nodes fl cfg fdt = (err, fdt1)" by fastforce
  with i obtain st1 w1 where "trace_init_log lib cfg st1 w1 = Inr (st', w')"
    by (auto simp: trace_init_def andthen_eq_Inr split: if_splits)
  then obtain m w2 where s: "trace_init_shared_mem lib (scast (tracebuffer_base cfg)) (seL4_LargePageBits lib) w1 = Inr (m, w2)"
    "seL4_BenchmarkSetLogBuffer lib (local_mem m) w2 = (0, w')" "kernel_trace st' = Some m"
    using assms(2,3) by (auto simp: trace_init_log_def andthen_eq_Inr case_prod_beta prod_eq_iff split: if_splits)
  from shared_mem_shares [OF assms(1) s(1)] obtain f a where f: "caps w2 (local_mem m) = Some f"
    "gmap w2 (scast (tracebuffer_base cfg)) = Some f" "vmm_memory m = Some a" "vmap w2 a = Some f" by blast
  have "logb w' = caps w2 (local_mem m)" "gmap w' = gmap w2" "vmap w' = vmap w2"
    using assms(1) s(2) unfolding maps_frames_def by metis+
  with f s(3) show "\<exists>f m a. gmap w' (scast (tracebuffer_base cfg)) = Some f \<and> kernel_trace st' = Some m \<and> vmm_memory m = Some a \<and>
      vmap w' a = Some f \<and> logb w' = Some f" by auto
next
  assume "scast (tracebuffer_size cfg) \<noteq> push_bit (unat (seL4_LargePageBits lib)) (1::u64)"
  then have "trace_init_log lib cfg st1 w1 = Inl Fatal" for st1 w1 using assms(2,3) by (simp add: trace_init_log_def)
  then show "isl (trace_init lib fl cfg fdt st w)"
    by (auto simp: trace_init_def andthen_def split: sum.splits prod.splits)
qed

text \<open>A world of frames: the capability table, both address spaces and the log buffer.\<close>

record frames =
  fr_caps :: "cptr \<Rightarrow> nat option"
  fr_gmap :: "u64 \<Rightarrow> nat option"
  fr_vmap :: "u64 \<Rightarrow> nat option"
  fr_logb :: "nat option"

definition frame_lib :: "frames trace_lib" where
  "frame_lib = \<lparr>vka_alloc_frame = (\<lambda>sz w. (0, 1, w\<lparr>fr_caps := (fr_caps w)(1 \<mapsto> 7)\<rparr>)),
     vspace_reserve_range_at = (\<lambda>a n w. (Some 0, w)),
     vspace_map_pages_at_vaddr = (\<lambda>c a n sz r w. (0, w\<lparr>fr_gmap := (fr_gmap w)(a := fr_caps w c)\<rparr>)),
     vka_cspace_alloc = (\<lambda>w. (if fr_caps w 2 = None then 0 else -1, 2, w)),
     vka_cspace_make_path = (\<lambda>c. \<lparr>root = 0, capPtr = c, capDepth = 64\<rparr>),
     seL4_CNode_Copy = (\<lambda>d s w. (0, w\<lparr>fr_caps := (fr_caps w)(capPtr d := fr_caps w (capPtr s))\<rparr>)),
     vspace_map_pages = (\<lambda>c n sz w. (Some 0x5000, w\<lparr>fr_vmap := (fr_vmap w)(0x5000 := fr_caps w c)\<rparr>)),
     seL4_BenchmarkSetLogBuffer = (\<lambda>c w. (0, w\<lparr>fr_logb := fr_caps w c\<rparr>)),
     seL4_BenchmarkResetLog = (\<lambda>w. w), seL4_BenchmarkFinalizeLog = (\<lambda>w. (0, w)), seL4_DebugDumpScheduler = (\<lambda>w. w),
     pmuserenr_el0 = (\<lambda>w. 1), log_entry = (\<lambda>a i w. None), print_line = (\<lambda>s w. w), seL4_LargePageBits = 21, Entry_Switch = 1\<rparr>"

lemma frame_lib_maps: "maps_frames frame_lib fr_caps fr_gmap fr_vmap fr_logb"
  unfolding maps_frames_def by (intro conjI) (auto simp: frame_lib_def vka_cnode_copy_def split: if_splits)

theorem trace_buffer_is_shared_witness:
  "\<exists>fdt' st' w' f m a. trace_init frame_lib log_lib \<lparr>tracebuffer_base = 0x10000000, tracebuffer_size = 0x200000, ramoops_base = 0, ramoops_size = 0\<rparr> []
      \<lparr>pstore = None, kernel_trace = None, trace_started = False, benchmark_entries = 0\<rparr>
      \<lparr>fr_caps = (\<lambda>_. None), fr_gmap = (\<lambda>_. None), fr_vmap = (\<lambda>_. None), fr_logb = None\<rparr> = Inr (fdt', st', w') \<and>
    fr_gmap w' 0x10000000 = Some f \<and> kernel_trace st' = Some m \<and> vmm_memory m = Some a \<and> fr_vmap w' a = Some f \<and> fr_logb w' = Some f"
proof -
  let ?cfg = "\<lparr>tracebuffer_base = 0x10000000, tracebuffer_size = 0x200000, ramoops_base = 0, ramoops_size = 0\<rparr>"
  let ?st = "\<lparr>pstore = None, kernel_trace = None, trace_started = False, benchmark_entries = 0\<rparr>"
  let ?w = "\<lparr>fr_caps = (\<lambda>_. None), fr_gmap = (\<lambda>_. None), fr_vmap = (\<lambda>_. None), fr_logb = None\<rparr>"
  have n: "fdt_format_memory_name log_lib 64 ''sel4_tracebuffer'' 0x10000000 = (0, ''sel4_tracebuffer@10000000'')"
    by (simp add: fdt_format_memory_name_def fdt_format_def hex_def in_base.simps digit_def)
  obtain fdt' where t: "fdt_generate_trace_nodes log_lib ?cfg [] = (0, fdt')"
    by (simp add: fdt_generate_trace_nodes_def fdt_generate_reserved_node_def n)
       (simp add: log_lib_def fdt_assign_phandle_def)
  obtain m w1 where m: "trace_init_shared_mem frame_lib 0x10000000 21 ?w = Inr (m, w1)"
    by (simp add: trace_init_shared_mem_def vka_cnode_copy_def frame_lib_def)
  have p: "seL4_LargePageBits frame_lib = 21" "fst (seL4_BenchmarkSetLogBuffer frame_lib c w) = 0" for c w
    by (simp_all add: frame_lib_def)
  have i: "\<exists>st' w'. trace_init frame_lib log_lib ?cfg [] ?st ?w = Inr (fdt', st', w')"
    by (simp add: trace_init_def t trace_init_pstore_def trace_init_log_def p m case_prod_beta)
  then show ?thesis
    using trace_buffer_is_shared [OF frame_lib_maps, of ?cfg log_lib "[]" ?st ?w] by auto
qed

text \<open>What \<open>trace_dump\<close> prints: the thread switches among the entries, in order.\<close>

lemma dump_prints_switches:
  assumes "\<forall>i < length es. \<forall>w. log_entry lib a i w = Some (es ! i)"
  shows "dump_entries lib (Some a) [0..<length es] w =
    Inr (fold (\<lambda>e. print_line lib (entry_line e)) (filter (\<lambda>e. path e = Entry_Switch lib) es) w)"
proof -
  have "dump_entries lib (Some a) [k..<length es] w =
      Inr (fold (\<lambda>e. print_line lib (entry_line e)) (filter (\<lambda>e. path e = Entry_Switch lib) (drop k es)) w)" if "k \<le> length es" for k w
    using that
  proof (induction k arbitrary: w rule: inc_induct)
    case (step k)
    then have "drop k es = es ! k # drop (Suc k) es" "[k..<length es] = k # [Suc k..<length es]" "log_entry lib a k w = Some (es ! k)"
      using assms by (simp_all add: Cons_nth_drop_Suc upt_conv_Cons)
    with step.IH show ?case by simp
  qed simp
  from this [of 0 w] show ?thesis by simp
qed

end
