(* ===== verification/Vm_Glue.thy ===== *)
theory Vm_Glue
  imports Pci_Bus
begin

text \<open>
  The request dispatcher of \<open>src/libsel4vm_glue.c\<close>: the chain of handlers, the loop that
  drains the two queues of a proxy, and bringing a proxy up. Every handler meets the interface
  \<open>rpc_handler\<close>; what holds of the chain is proved once from it.
\<close>

subsection \<open>Handlers\<close>

definition handle_msi :: "'w rpc_callback" where
  "handle_msi pf p op msg vm =
     andthen (msi_handle (env pf) (v2m vm) op msg (ext vm)) (\<lambda>(rc, w). Inr (rc, vm\<lparr>ext := w\<rparr>))"

definition handle_msi_weak :: "'w rpc_callback" where
  "handle_msi_weak pf p op msg vm = Inr (RPCMSG_RC_NONE, vm)"

definition msi_init :: "'w platform \<Rightarrow> 'w vmm \<Rightarrow> (int \<times> 'w vmm) res" where
  "msi_init pf vm = andthen (v2m_init (env pf) (v2m vm) (ext vm)) (\<lambda>(rc, s, w). Inr (rc, vm\<lparr>v2m := s, ext := w\<rparr>))"

definition msi_init_weak :: "'w platform \<Rightarrow> 'w vmm \<Rightarrow> (int \<times> 'w vmm) res" where
  "msi_init_weak pf vm = Inr (0, vm)"

definition handle_control :: "'w rpc_callback" where
  "handle_control pf p op msg vm =
     (if op = QEMU_OP_START_VM then
        let vm = set_proxy p ((proxies vm p)\<lparr>ok_to_run := 1\<rparr>) vm in
        Inr (RPCMSG_RC_HANDLED, vm\<lparr>ext := sync_sem_post (env pf) (Backend_started p) (ext vm)\<rparr>)
      else Inr (RPCMSG_RC_NONE, vm))"

definition rpc_callbacks :: "'w rpc_callback list" where
  "rpc_callbacks = [handle_mmio, handle_msi, handle_pci, handle_emudev, handle_control]"

fun run_callbacks ::
  "'w rpc_callback list \<Rightarrow> 'w platform \<Rightarrow> proxy_ptr \<Rightarrow> u32 \<Rightarrow> rpcmsg \<Rightarrow> 'w vmm \<Rightarrow> (int \<times> 'w vmm) res" where
  "run_callbacks [] pf p op msg vm = Inr (RPCMSG_RC_NONE, vm)"
| "run_callbacks (cb # cbs) pf p op msg vm =
     andthen (cb pf p op msg vm) (\<lambda>(rc, vm).
       if rc = RPCMSG_RC_NONE then run_callbacks cbs pf p op msg vm else Inr (rc, vm))"

definition rpc_process :: "'w platform \<Rightarrow> rpcmsg \<Rightarrow> proxy_ptr \<Rightarrow> 'w vmm \<Rightarrow> (int \<times> 'w vmm) res" where
  "rpc_process pf msg p vm =
     andthen (run_callbacks rpc_callbacks pf p (QEMU_OP (mr0 msg)) msg vm) (\<lambda>(rc, vm).
       if rc = RPCMSG_RC_ERROR then Inr (-1, vm)
       else if rc = RPCMSG_RC_NONE then Inr (-1, vm)
       else Inr (0, vm))"

subsection \<open>Draining the queues\<close>

definition set_iobuf :: "proxy_ptr \<Rightarrow> rpcmsg_iobuf \<Rightarrow> 'w vmm \<Rightarrow> 'w vmm" where
  "set_iobuf p mem vm = set_proxy p ((proxies vm p)\<lparr>iobuf := mem\<rparr>) vm"

definition set_buffer_state :: "proxy_ptr \<Rightarrow> rpcmsg_buffer_state \<Rightarrow> 'w vmm \<Rightarrow> 'w vmm" where
  "set_buffer_state p st vm =
     (let px = proxies vm p in
      set_proxy p (px\<lparr>rpc := (rpc px)\<lparr>driver_rpc := (driver_rpc (rpc px))\<lparr>buffer_state := st\<rparr>\<rparr>\<rparr>) vm)"

abbreviation resp_queue :: "'w vmm \<Rightarrow> proxy_ptr \<Rightarrow> rpcmsg_rpc_queue" where
  "resp_queue vm p \<equiv> response (driver_rpc (rpc (proxies vm p)))"

abbreviation event_queue :: "'w vmm \<Rightarrow> proxy_ptr \<Rightarrow> rpcmsg_event_queue" where
  "event_queue vm p \<equiv> device_event (rpc (proxies vm p))"

abbreviation lending :: "'w vmm \<Rightarrow> proxy_ptr \<Rightarrow> rpcmsg_buffer_state" where
  "lending vm p \<equiv> buffer_state (driver_rpc (rpc (proxies vm p)))"

text \<open>
  One pass of each loop body: \<open>None\<close> when the queue is empty. On an error the response loop
  leaves before the message is reclaimed.
\<close>

definition resp_step :: "'w platform \<Rightarrow> proxy_ptr \<Rightarrow> 'w vmm \<Rightarrow> ((int \<times> 'w vmm) option \<times> 'w vmm) res" where
  "resp_step pf p vm =
     andthen (rpcmsg_receive_response Userspace (resp_queue vm p) (iobuf (proxies vm p))) (\<lambda>(msg, i, mem).
       let vm = set_iobuf p mem vm in
       case msg of
         None \<Rightarrow> Inr (None, vm)
       | Some off \<Rightarrow>
           andthen (load_queue (iobuf (proxies vm p)) (resp_queue vm p)) (\<lambda>(q, b).
           andthen (read_msg b msg) (\<lambda>m.
           andthen (rpc_process pf m p vm) (\<lambda>(rc, vm).
             if rc \<noteq> 0 then Inr (Some (rc, vm), vm)
             else
               andthen (rpcmsg_reclaim_buffer (lending vm p) msg) (\<lambda>st.
                 let vm = set_buffer_state p st vm in Inr (Some (0, vm), vm))))))"

definition event_step :: "'w platform \<Rightarrow> proxy_ptr \<Rightarrow> 'w vmm \<Rightarrow> ((int \<times> 'w vmm) option \<times> 'w vmm) res" where
  "event_step pf p vm =
     andthen (rpcmsg_event_rx Userspace (event_queue vm p) (iobuf (proxies vm p))) (\<lambda>(err, msg, mem).
       let vm = set_iobuf p mem vm in
       if err \<noteq> 0 then Inr (None, vm)
       else
         case msg of
           None \<Rightarrow> Inr (None, vm)
         | Some m \<Rightarrow> andthen (rpc_process pf m p vm) (\<lambda>(rc, vm). Inr (Some (rc, vm), vm)))"

partial_function (option) drain ::
  "('w vmm \<Rightarrow> ((int \<times> 'w vmm) option \<times> 'w vmm) res) \<Rightarrow> int \<Rightarrow> 'w vmm \<Rightarrow> ((int \<times> 'w vmm) res) option" where
  "drain body rc vm =
     (case body vm of
        Inl e \<Rightarrow> Some (Inl e)
      | Inr (r, vm) \<Rightarrow>
          (case r of
             None \<Rightarrow> Some (Inr (rc, vm))
           | Some (rc, vm) \<Rightarrow> if rc \<noteq> 0 then Some (Inr (rc, vm)) else drain body 0 vm))"

definition rpc_run :: "'w platform \<Rightarrow> proxy_ptr \<Rightarrow> 'w vmm \<Rightarrow> ((int \<times> 'w vmm) res) option" where
  "rpc_run pf p vm =
     Option.bind (drain (resp_step pf p) 0 vm) (\<lambda>r.
       case r of Inl e \<Rightarrow> Some (Inl e) | Inr (rc, vm) \<Rightarrow> drain (event_step pf p) rc vm)"

subsection \<open>Bringing a proxy up\<close>

fun irq_init_loop :: "'w platform \<Rightarrow> nat \<Rightarrow> nat \<Rightarrow> 'w vmm \<Rightarrow> (int \<times> 'w vmm) res" where
  "irq_init_loop pf i 0 vm = Inr (0, vm)"
| "irq_init_loop pf i (Suc n) vm =
     andthen (array_get (pci_intx vm) i) (\<lambda>line.
       case shared_irq_line_init (env pf) line (boot_vcpu (env pf)) (intx_base (env pf) + of_nat i) (ext vm) of
         (err, line, w) \<Rightarrow>
           let vm = vm\<lparr>pci_intx := (pci_intx vm)[i := line], ext := w\<rparr> in
           if err \<noteq> 0 then Inr (err, vm) else irq_init_loop pf (Suc i) n vm)"

definition irq_init :: "'w platform \<Rightarrow> 'w vmm \<Rightarrow> (int \<times> 'w vmm) res" where
  "irq_init pf vm =
     (if irq_done vm then Inr (0, vm)
      else
        andthen (irq_init_loop pf 0 PCI_NUM_PINS vm) (\<lambda>(err, vm).
          if err = 0 then Inr (0, vm\<lparr>irq_done := True\<rparr>) else Inr (-1, vm)))"

text \<open>\<open>io_proxy->run\<close> works on the state of the whole VMM, so it is an argument and not a field.\<close>

type_synonym 'w run_fn = "proxy_ptr \<Rightarrow> 'w vmm \<Rightarrow> (int \<times> 'w vmm) res"

definition io_proxy_run :: "'w run_fn \<Rightarrow> 'w run_fn" where
  "io_proxy_run run_fn p vm = run_fn p vm"

text \<open>
  Everything up to the wait for the backend, which returns once \<open>handle_control\<close> has set the
  flag (\<open>io_proxy_wait_for_backend\<close>); 0 means that the caller goes on to wait.
\<close>

definition libsel4vm_io_proxy_init :: "'w platform \<Rightarrow> 'w run_fn \<Rightarrow> proxy_ptr \<Rightarrow> 'w vmm \<Rightarrow> (int \<times> 'w vmm) res" where
  "libsel4vm_io_proxy_init pf run_fn p vm =
     andthen (io_proxy_init pf p vm) (\<lambda>vm.
       let px = proxies vm p in
       case vm_reserve_memory_at (env pf) (ctrl_base px) (ctrl_size px) (Mmio_fault_handler p) (ext vm) of
         (None, w) \<Rightarrow> Inl Fatal
       | (Some r, w) \<Rightarrow>
           andthen (irq_init pf (vm\<lparr>ext := w\<rparr>)) (\<lambda>(err, vm).
           if err \<noteq> 0 then Inr (-1, vm)
           else andthen (msi_init pf vm) (\<lambda>(err, vm).
           if err \<noteq> 0 then Inr (-1, vm)
           else case emudev_init pf vm of (err, vm) \<Rightarrow>
           if err \<noteq> 0 then Inr (-1, vm)
           else andthen (io_proxy_run run_fn p vm) (\<lambda>(err, vm).
           if err \<noteq> 0 then Inr (-1, vm) else Inr (0, vm)))))"

subsection \<open>The interface of a handler\<close>

text \<open>
  A handler has a set of operations it may claim. It leaves every other request alone, answers
  with one of the three codes, and does not touch the queues or the bookkeeping of any proxy.
\<close>

definition same_rpc :: "'w vmm \<Rightarrow> 'w vmm \<Rightarrow> bool" where
  "same_rpc vm vm' \<longleftrightarrow> (\<forall>q. rpc (proxies vm' q) = rpc (proxies vm q) \<and> iobuf (proxies vm' q) = iobuf (proxies vm q))"

locale rpc_handler =
  fixes handle :: "'w rpc_callback" and ops :: "u32 set"
  assumes ignores: "op \<notin> ops \<Longrightarrow> handle pf p op msg vm = Inr (RPCMSG_RC_NONE, vm)"
    and frame: "handle pf p op msg vm = Inr (rc, vm') \<Longrightarrow> same_rpc vm vm'"
    and codes: "handle pf p op msg vm = Inr (rc, vm') \<Longrightarrow> rc \<in> {RPCMSG_RC_ERROR, RPCMSG_RC_NONE, RPCMSG_RC_HANDLED}"
begin

lemma chain_skips: "op \<notin> ops \<Longrightarrow> run_callbacks (handle # cbs) pf p op msg vm = run_callbacks cbs pf p op msg vm"
  by (simp add: ignores)

lemma chain_frame:
  assumes "\<And>vm rc vm'. run_callbacks cbs pf p op msg vm = Inr (rc, vm') \<Longrightarrow>
      same_rpc vm vm' \<and> rc \<in> {RPCMSG_RC_ERROR, RPCMSG_RC_NONE, RPCMSG_RC_HANDLED}"
    and "run_callbacks (handle # cbs) pf p op msg vm = Inr (rc, vm')"
  shows "same_rpc vm vm' \<and> rc \<in> {RPCMSG_RC_ERROR, RPCMSG_RC_NONE, RPCMSG_RC_HANDLED}"
proof -
  from assms(2) obtain rc1 vm1 where h: "handle pf p op msg vm = Inr (rc1, vm1)"
    by (cases "handle pf p op msg vm") auto
  with frame codes have f: "same_rpc vm vm1" "rc1 \<in> {RPCMSG_RC_ERROR, RPCMSG_RC_NONE, RPCMSG_RC_HANDLED}" by blast+
  show ?thesis
  proof (cases "rc1 = RPCMSG_RC_NONE")
    case True
    with assms(2) h have "run_callbacks cbs pf p op msg vm1 = Inr (rc, vm')" by simp
    with assms(1) f(1) show ?thesis by (auto simp: same_rpc_def)
  next
    case False
    with assms(2) h f show ?thesis by simp
  qed
qed

end

lemma same_rpcI: "proxies vm' = proxies vm \<Longrightarrow> same_rpc vm vm'"
  by (simp add: same_rpc_def)

lemma call_ioack_frame:
  assumes "call_ioack pf f ck data vm = Inr (rc, vm')"
  shows "proxies vm' = proxies vm" "rc = 0"
  using assms
  by (cases "(pf, f, ck, data, vm)" rule: call_ioack.cases;
      auto simp: ioack_native_read_def ioack_native_write_def ioack_vcpu_read_def ioack_vcpu_write_def Let_def)+

lemma ioreq_finish_frame:
  assumes "ioreq_finish pf p sl data vm = Inr (rc, vm')"
  shows "same_rpc vm vm'"
  using assms
  by (auto simp: ioreq_finish_def same_rpc_def andthen_def asserting_def Let_def split: sum.splits option.splits if_splits
      dest!: call_ioack_frame(1))

interpretation mmio_handler: rpc_handler handle_mmio "{QEMU_OP_MMIO}"
  by unfold_locales
    (auto simp: handle_mmio_def andthen_def same_rpc_def split: if_splits sum.splits dest: ioreq_finish_frame [unfolded same_rpc_def])

interpretation msi_handler: rpc_handler handle_msi "{QEMU_OP_SET_IRQ}"
  by unfold_locales
    (auto simp: handle_msi_def msi_handle_def msi_irq_set_def andthen_def same_rpc_def split: if_splits sum.splits)

lemma intx_set_frame: "pcidev_intx_set pf p bdf level vm = Inr (rc, vm') \<Longrightarrow> proxies vm' = proxies vm"
  by (auto simp: pcidev_intx_set_def andthen_def split: if_splits sum.splits option.splits)

lemma handle_pci_intx_frame: "handle_pci_intx pf p bdf op vm = Inr (rc, vm') \<Longrightarrow> proxies vm' = proxies vm"
  by (auto simp: handle_pci_intx_def andthen_def split: if_splits sum.splits dest!: intx_set_frame)

lemma handle_pci_frame:
  assumes "handle_pci pf p op msg vm = Inr (rc, vm')"
  shows "proxies vm' = proxies vm" "rc \<in> {RPCMSG_RC_ERROR, RPCMSG_RC_NONE, RPCMSG_RC_HANDLED}"
  using assms
  by (auto simp: handle_pci_def andthen_def split: if_splits sum.splits option.splits prod.splits
      dest: handle_pci_intx_frame pcidev_register_result(1))

interpretation pci_handler: rpc_handler handle_pci "{QEMU_OP_SET_IRQ, QEMU_OP_REGISTER_PCI_DEV}"
proof unfold_locales
  fix pf p and op :: u32 and msg and vm vm' :: "'a vmm" and rc
  show "handle_pci pf p op msg vm = Inr (RPCMSG_RC_NONE, vm)" if "op \<notin> {QEMU_OP_SET_IRQ, QEMU_OP_REGISTER_PCI_DEV}"
    using that by (simp add: handle_pci_def)
  assume "handle_pci pf p op msg vm = Inr (rc, vm')"
  then show "same_rpc vm vm'" "rc \<in> {RPCMSG_RC_ERROR, RPCMSG_RC_NONE, RPCMSG_RC_HANDLED}"
    using handle_pci_frame same_rpcI by blast+
qed

interpretation emudev_handler: rpc_handler handle_emudev "{QEMU_OP_MMIO_REGION_CONFIG, QEMU_OP_SET_IRQ}"
proof unfold_locales
  fix pf p and op :: u32 and msg and vm vm' :: "'a vmm" and rc
  show "handle_emudev pf p op msg vm = Inr (RPCMSG_RC_NONE, vm)" if "op \<notin> {QEMU_OP_MMIO_REGION_CONFIG, QEMU_OP_SET_IRQ}"
    using that by (simp add: handle_emudev_def)
  assume "handle_emudev pf p op msg vm = Inr (rc, vm')"
  then show "same_rpc vm vm'" "rc \<in> {RPCMSG_RC_ERROR, RPCMSG_RC_NONE, RPCMSG_RC_HANDLED}"
    using handle_emudev_frame same_rpcI by blast+
qed

interpretation control_handler: rpc_handler handle_control "{QEMU_OP_START_VM}"
  by unfold_locales (auto simp: handle_control_def same_rpc_def Let_def split: if_splits)

interpretation weak_msi_handler: rpc_handler handle_msi_weak "{}"
  by unfold_locales (auto simp: handle_msi_weak_def same_rpc_def)

subsection \<open>The chain\<close>

lemma run_callbacks_frame:
  assumes "run_callbacks rpc_callbacks pf p op msg vm = Inr (rc, vm')"
  shows "same_rpc vm vm' \<and> rc \<in> {RPCMSG_RC_ERROR, RPCMSG_RC_NONE, RPCMSG_RC_HANDLED}"
  using assms unfolding rpc_callbacks_def
  by (elim mmio_handler.chain_frame [rotated] msi_handler.chain_frame [rotated] pci_handler.chain_frame [rotated]
      emudev_handler.chain_frame [rotated] control_handler.chain_frame [rotated]) (auto simp: same_rpc_def)

lemma rpc_process_frame:
  assumes "rpc_process pf msg p vm = Inr (rc, vm')"
  shows "same_rpc vm vm'" "rc = 0 \<or> rc = -1"
  using assms
  by (auto simp: rpc_process_def andthen_def split: sum.splits if_splits dest!: run_callbacks_frame)

text \<open>The return value of \<open>rpc_process\<close> for the code of the handler that claimed the request.\<close>

definition finish_rc :: "(int \<times> 'w vmm) res \<Rightarrow> (int \<times> 'w vmm) res" where
  "finish_rc r = andthen r (\<lambda>(rc, vm). Inr (if rc = RPCMSG_RC_HANDLED then 0 else -1, vm))"

definition chain_rc ::
  "'w rpc_callback list \<Rightarrow> 'w platform \<Rightarrow> proxy_ptr \<Rightarrow> u32 \<Rightarrow> rpcmsg \<Rightarrow> 'w vmm \<Rightarrow> (int \<times> 'w vmm) res" where
  "chain_rc cbs pf p op msg vm =
     andthen (run_callbacks cbs pf p op msg vm) (\<lambda>(rc, vm).
       if rc = RPCMSG_RC_ERROR then Inr (-1, vm) else if rc = RPCMSG_RC_NONE then Inr (-1, vm) else Inr (0, vm))"

lemma chain_none: "chain_rc [] pf p op msg vm = Inr (-1, vm)"
  by (simp add: chain_rc_def rc_defs)

lemma chain_pass: "cb pf p op msg vm = Inr (RPCMSG_RC_NONE, vm) \<Longrightarrow> chain_rc (cb # cbs) pf p op msg vm = chain_rc cbs pf p op msg vm"
  by (simp add: chain_rc_def)

lemma chain_claim:
  assumes "\<And>rc vm'. cb pf p op msg vm = Inr (rc, vm') \<Longrightarrow> rc = RPCMSG_RC_HANDLED \<or> rc = RPCMSG_RC_ERROR"
  shows "chain_rc (cb # cbs) pf p op msg vm = finish_rc (cb pf p op msg vm)"
proof (cases "cb pf p op msg vm")
  case (Inr r)
  obtain rc vm' where r: "r = (rc, vm')" by (cases r)
  from assms [OF Inr [unfolded r]] show ?thesis by (auto simp: Inr r chain_rc_def finish_rc_def rc_defs)
qed (simp add: chain_rc_def finish_rc_def)

lemma codes_at:
  "handle_mmio pf p QEMU_OP_MMIO msg vm = Inr (rc, vm') \<Longrightarrow> rc = RPCMSG_RC_HANDLED \<or> rc = RPCMSG_RC_ERROR"
  "handle_pci pf p QEMU_OP_REGISTER_PCI_DEV msg vm = Inr (rc, vm') \<Longrightarrow> rc = RPCMSG_RC_HANDLED \<or> rc = RPCMSG_RC_ERROR"
  "handle_emudev pf p QEMU_OP_MMIO_REGION_CONFIG msg vm = Inr (rc, vm') \<Longrightarrow> rc = RPCMSG_RC_HANDLED \<or> rc = RPCMSG_RC_ERROR"
  "handle_emudev pf p QEMU_OP_SET_IRQ msg vm = Inr (rc, vm') \<Longrightarrow> rc = RPCMSG_RC_HANDLED \<or> rc = RPCMSG_RC_ERROR"
  "handle_control pf p QEMU_OP_START_VM msg vm = Inr (rc, vm') \<Longrightarrow> rc = RPCMSG_RC_HANDLED \<or> rc = RPCMSG_RC_ERROR"
  by (auto simp: handle_mmio_def handle_pci_def handle_emudev_def handle_control_def andthen_def op_code_defs Let_def
      split: if_splits sum.splits prod.splits)

lemma set_irq_codes:
  "v2m_irq_valid (v2m vm) (ucast (mr1 msg)) \<Longrightarrow> handle_msi pf p QEMU_OP_SET_IRQ msg vm = Inr (rc, vm') \<Longrightarrow>
     rc = RPCMSG_RC_HANDLED \<or> rc = RPCMSG_RC_ERROR"
  "\<not> v2m_irq_valid (v2m vm) (ucast (mr1 msg)) \<Longrightarrow> handle_msi pf p QEMU_OP_SET_IRQ msg vm = Inr (RPCMSG_RC_NONE, vm)"
  "irq_is_pci (ucast (mr1 msg)) \<Longrightarrow> handle_pci pf p QEMU_OP_SET_IRQ msg vm = Inr (rc, vm') \<Longrightarrow>
     rc = RPCMSG_RC_HANDLED \<or> rc = RPCMSG_RC_ERROR"
  "\<not> irq_is_pci (ucast (mr1 msg)) \<Longrightarrow> handle_pci pf p QEMU_OP_SET_IRQ msg vm = Inr (RPCMSG_RC_NONE, vm)"
  by (auto simp: handle_msi_def msi_handle_def msi_irq_set_def handle_pci_def andthen_def split: if_splits sum.splits prod.splits)

lemmas ignores = mmio_handler.ignores msi_handler.ignores pci_handler.ignores emudev_handler.ignores control_handler.ignores

text \<open>
  C17. Every request is routed to exactly one handler, by its operation and, for interrupts, by
  its number: the MSI frame's range first, then the PCI slots 0 to 31, then emulated devices. The
  handler's success is the request's success, and an operation no handler knows fails without
  effect.\<close>

theorem rpc_routing:
  "rpc_process pf msg p vm =
     (let op = QEMU_OP (mr0 msg); i = ucast (mr1 msg) :: u32 in
      if op = QEMU_OP_MMIO then finish_rc (handle_mmio pf p op msg vm)
      else if op = QEMU_OP_REGISTER_PCI_DEV then finish_rc (handle_pci pf p op msg vm)
      else if op = QEMU_OP_MMIO_REGION_CONFIG then finish_rc (handle_emudev pf p op msg vm)
      else if op = QEMU_OP_START_VM then finish_rc (handle_control pf p op msg vm)
      else if op = QEMU_OP_SET_IRQ then
        if v2m_irq_valid (v2m vm) i then finish_rc (handle_msi pf p op msg vm)
        else if i < 32 then finish_rc (handle_pci pf p op msg vm)
        else finish_rc (handle_emudev pf p op msg vm)
      else Inr (-1, vm))"
proof -
  define op where "op = QEMU_OP (mr0 msg)"
  have pci: "irq_is_pci i \<longleftrightarrow> i < 32" for i :: u32 by (simp add: irq_is_pci_def PCI_NUM_SLOTS_def)
  have distinct: "QEMU_OP_MMIO \<noteq> QEMU_OP_SET_IRQ" "QEMU_OP_MMIO \<noteq> QEMU_OP_REGISTER_PCI_DEV" "QEMU_OP_START_VM \<noteq> QEMU_OP_SET_IRQ"
    "QEMU_OP_MMIO \<noteq> QEMU_OP_MMIO_REGION_CONFIG" "QEMU_OP_MMIO \<noteq> QEMU_OP_START_VM" "QEMU_OP_START_VM \<noteq> QEMU_OP_MMIO_REGION_CONFIG"
    "QEMU_OP_REGISTER_PCI_DEV \<noteq> QEMU_OP_SET_IRQ" "QEMU_OP_MMIO_REGION_CONFIG \<noteq> QEMU_OP_SET_IRQ" "QEMU_OP_REGISTER_PCI_DEV \<noteq> QEMU_OP_START_VM"
    "QEMU_OP_REGISTER_PCI_DEV \<noteq> QEMU_OP_MMIO_REGION_CONFIG"
    by (simp_all add: op_code_defs)
  note neq = distinct distinct [symmetric]
  have chain: "rpc_process pf msg p vm = chain_rc [handle_mmio, handle_msi, handle_pci, handle_emudev, handle_control] pf p op msg vm"
    by (simp add: rpc_process_def rpc_callbacks_def chain_rc_def op_def)
  consider "op = QEMU_OP_MMIO" | "op = QEMU_OP_REGISTER_PCI_DEV" | "op = QEMU_OP_MMIO_REGION_CONFIG" | "op = QEMU_OP_START_VM" |
    "op = QEMU_OP_SET_IRQ" | "op \<notin> {QEMU_OP_MMIO, QEMU_OP_REGISTER_PCI_DEV, QEMU_OP_MMIO_REGION_CONFIG, QEMU_OP_START_VM, QEMU_OP_SET_IRQ}"
    by blast
  then show ?thesis
  proof cases
    case 5
    then have "chain_rc [handle_mmio, handle_msi, handle_pci, handle_emudev, handle_control] pf p op msg vm =
      chain_rc [handle_msi, handle_pci, handle_emudev, handle_control] pf p QEMU_OP_SET_IRQ msg vm"
      by (simp add: chain_pass ignores neq)
    also have "\<dots> = (if v2m_irq_valid (v2m vm) (ucast (mr1 msg)) then finish_rc (handle_msi pf p QEMU_OP_SET_IRQ msg vm)
        else chain_rc [handle_pci, handle_emudev, handle_control] pf p QEMU_OP_SET_IRQ msg vm)"
      by (simp add: chain_pass set_irq_codes(2) chain_claim [OF set_irq_codes(1)])
    also have "chain_rc [handle_pci, handle_emudev, handle_control] pf p QEMU_OP_SET_IRQ msg vm =
        (if irq_is_pci (ucast (mr1 msg)) then finish_rc (handle_pci pf p QEMU_OP_SET_IRQ msg vm)
         else finish_rc (handle_emudev pf p QEMU_OP_SET_IRQ msg vm))"
      by (simp add: chain_pass set_irq_codes(4) chain_claim [OF set_irq_codes(3)] chain_claim [OF codes_at(4)])
    finally have eq: "chain_rc [handle_mmio, handle_msi, handle_pci, handle_emudev, handle_control] pf p op msg vm =
        (if v2m_irq_valid (v2m vm) (ucast (mr1 msg)) then finish_rc (handle_msi pf p QEMU_OP_SET_IRQ msg vm)
         else if irq_is_pci (ucast (mr1 msg)) then finish_rc (handle_pci pf p QEMU_OP_SET_IRQ msg vm)
         else finish_rc (handle_emudev pf p QEMU_OP_SET_IRQ msg vm))" .
    show ?thesis unfolding op_def [symmetric] Let_def chain eq using 5 by (simp add: neq pci)
  qed (simp_all add: chain op_def [symmetric] Let_def chain_pass ignores neq chain_none chain_claim [OF codes_at(1)] chain_claim [OF codes_at(2)] chain_claim [OF codes_at(3)]
      chain_claim [OF codes_at(5)])
qed

end
