(* ===== verification/Vm_Run.thy ===== *)
theory Vm_Run
  imports Vm_Glue "HOL-Library.Sublist"
begin

unbundle bit_operations_syntax

text \<open>
  What the dispatcher promises over time: \<open>rpc_run\<close> returns and empties the queues of a
  well-formed proxy, and a guest access goes out as a request and comes back as the completion of
  that access and of no other.
\<close>

subsection \<open>A loop that drains a queue\<close>

locale drain_loop =
  fixes body :: "'w vmm \<Rightarrow> ((int \<times> 'w vmm) option \<times> 'w vmm) res" and pending :: "'w vmm \<Rightarrow> 'm list"
    and ok :: "'w vmm \<Rightarrow> bool"
  assumes stop: "ok vm \<Longrightarrow> pending vm = [] \<Longrightarrow> \<exists>vm'. body vm = Inr (None, vm') \<and> ok vm' \<and> pending vm' = []"
    and work: "ok vm \<Longrightarrow> pending vm = m # ms \<Longrightarrow> body vm = Inr (r, vm') \<Longrightarrow> \<exists>rc. r = Some (rc, vm') \<and> ok vm' \<and> pending vm' = ms"
begin

lemma drain_returns:
  assumes "ok vm"
  shows "\<exists>r. drain body rc vm = Some r \<and>
    (\<forall>rc' vm'. r = Inr (rc', vm') \<longrightarrow> ok vm' \<and> suffix (pending vm') (pending vm) \<and> (rc' = 0 \<longrightarrow> pending vm' = []))"
  using assms
proof (induction "pending vm" arbitrary: vm rc)
  case Nil
  with stop [of vm] show ?case by (subst drain.simps) auto
next
  case (Cons m ms)
  show ?case
  proof (cases "body vm")
    case (Inl e)
    then show ?thesis by (subst drain.simps) simp
  next
    case (Inr b)
    obtain r vm1 where b: "b = (r, vm1)" by (cases b)
    from work [OF Cons.prems Cons.hyps(2) [symmetric] Inr [unfolded b]] obtain rc1
      where r: "r = Some (rc1, vm1)" "ok vm1" "pending vm1 = ms" by blast
    have suf: "suffix (pending vm1) (pending vm)" using r Cons.hyps(2) by (metis suffix_ConsI suffix_order.refl)
    show ?thesis
    proof (cases "rc1 = 0")
      case True
      from Cons.hyps(1) [OF r(3) [symmetric] r(2), of 0] obtain r' where
        "drain body 0 vm1 = Some r'" "\<forall>rc' vm'. r' = Inr (rc', vm') \<longrightarrow> ok vm' \<and> suffix (pending vm') (pending vm1) \<and> (rc' = 0 \<longrightarrow> pending vm' = [])"
        by blast
      with Inr b r True suf show ?thesis by (subst drain.simps) (auto intro: suffix_order.trans)
    next
      case False
      with Inr b r suf show ?thesis by (subst drain.simps) auto
    qed
  qed
qed

end

subsection \<open>A proxy's queues\<close>

definition proxy_ok :: "proxy_ptr \<Rightarrow> 'w vmm \<Rightarrow> bool" where
  "proxy_ok p vm \<longleftrightarrow>
     rpc_ok (resp_queue vm p) (iobuf (proxies vm p)) \<and> event_ok (event_queue vm p) (iobuf (proxies vm p)) \<and>
     state_ok (lending vm p) \<and> queue (resp_queue vm p) \<noteq> queue (event_queue vm p) \<and>
     buffer (resp_queue vm p) \<noteq> buffer (event_queue vm p)"

definition responses :: "proxy_ptr \<Rightarrow> 'w vmm \<Rightarrow> rpcmsg_ptr list" where
  "responses p vm = rpc_contents (resp_queue vm p) (iobuf (proxies vm p))"

definition device_events :: "proxy_ptr \<Rightarrow> 'w vmm \<Rightarrow> rpcmsg list" where
  "device_events p vm = event_contents (event_queue vm p) (iobuf (proxies vm p))"

lemma same_rpc_queues:
  assumes "same_rpc vm vm'"
  shows "proxy_ok p vm' = proxy_ok p vm" "responses p vm' = responses p vm" "device_events p vm' = device_events p vm"
    "resp_queue vm' p = resp_queue vm p" "lending vm' p = lending vm p"
  using assms by (simp_all add: same_rpc_def proxy_ok_def responses_def device_events_def)

lemma set_iobuf_queues:
  "resp_queue (set_iobuf p mem vm) p = resp_queue vm p" "event_queue (set_iobuf p mem vm) p = event_queue vm p"
  "lending (set_iobuf p mem vm) p = lending vm p" "iobuf (proxies (set_iobuf p mem vm) p) = mem"
  by (simp_all add: set_iobuf_def)

lemma set_iobuf_same: "set_iobuf p (iobuf (proxies vm p)) vm = vm"
  by (simp add: set_iobuf_def set_proxy_def)

lemma set_buffer_state_queues:
  "resp_queue (set_buffer_state p st vm) p = resp_queue vm p" "event_queue (set_buffer_state p st vm) p = event_queue vm p"
  "lending (set_buffer_state p st vm) p = st" "iobuf (proxies (set_buffer_state p st vm) p) = iobuf (proxies vm p)"
  by (simp_all add: set_buffer_state_def Let_def)

lemma resp_popped:
  assumes ok: "proxy_ok p vm" and c: "responses p vm = ptr # ps"
  defines "mem \<equiv> store_queue (iobuf (proxies vm p)) (resp_queue vm p)
    (pop_id (queue_at (iobuf (proxies vm p)) (resp_queue vm p))) (buffer_at (iobuf (proxies vm p)) (resp_queue vm p))"
  shows "proxy_ok p (set_iobuf p mem vm)" "responses p (set_iobuf p mem vm) = ps"
    "device_events p (set_iobuf p mem vm) = device_events p vm"
    "rpcmsg_receive_response Userspace (resp_queue vm p) (iobuf (proxies vm p)) = Inr (ptr, Some (word_of_int (the ptr)), mem)"
    "msg_ptr_ok ptr"
proof -
  let ?m = "iobuf (proxies vm p)" and ?r = "resp_queue vm p" and ?e = "event_queue vm p"
  from ok have r: "rpc_ok ?r ?m" "event_ok ?e ?m" and ne: "queue ?r \<noteq> queue ?e" "buffer ?r \<noteq> buffer ?e" by (simp_all add: proxy_ok_def)
  from c have c': "rpc_contents ?r ?m = ptr # ps" by (simp add: responses_def)
  note D = rpc_dequeue_state [OF r(1) c']
  show "proxy_ok p (set_iobuf p mem vm)"
    using D(2) other_queue(1) [OF ne] ok by (simp add: proxy_ok_def set_iobuf_queues mem_def)
  show "responses p (set_iobuf p mem vm) = ps" using D(3) by (simp add: responses_def set_iobuf_queues mem_def)
  show "device_events p (set_iobuf p mem vm) = device_events p vm"
    using other_queue(2) [OF ne] by (simp add: device_events_def set_iobuf_queues mem_def)
  show "rpcmsg_receive_response Userspace ?r ?m = Inr (ptr, Some (word_of_int (the ptr)), mem)"
    using rpcmsg_receive_response_cases [OF r(1), of Userspace] c' by (simp add: mem_def)
  show "msg_ptr_ok ptr" by (rule D(4))
qed

lemma reclaimed_ok:
  assumes "proxy_ok p vm" "rpcmsg_reclaim_buffer (lending vm p) ptr = Inr st" "msg_ptr_ok ptr"
  shows "proxy_ok p (set_buffer_state p st vm)" "responses p (set_buffer_state p st vm) = responses p vm"
    "device_events p (set_buffer_state p st vm) = device_events p vm"
proof -
  from assms(3) obtain k where k: "ptr = Some (int k)" "k < RPCMSG_BUFFER_SIZE" by (auto simp: msg_ptr_ok_def)
  from assms(1) have "state_ok (lending vm p)" by (simp add: proxy_ok_def)
  from reclaim_buffer_ok [OF this k(2)] assms(2) k(1) have "state_ok st" by auto
  with assms(1) show "proxy_ok p (set_buffer_state p st vm)" "responses p (set_buffer_state p st vm) = responses p vm"
    "device_events p (set_buffer_state p st vm) = device_events p vm"
    by (simp_all add: proxy_ok_def responses_def device_events_def set_buffer_state_queues)
qed

interpretation resp_loop: drain_loop "resp_step pf p" "responses p" "proxy_ok p" for pf :: "'w platform" and p :: proxy_ptr
proof unfold_locales
  fix vm vm' :: "'w vmm" and m ms r
  assume ok: "proxy_ok p vm"
  show "\<exists>vm'. resp_step pf p vm = Inr (None, vm') \<and> proxy_ok p vm' \<and> responses p vm' = []" if "responses p vm = []"
    using rpcmsg_receive_response_cases [of "resp_queue vm p" "iobuf (proxies vm p)" Userspace] ok that
    by (simp add: resp_step_def Let_def proxy_ok_def [of p vm] responses_def set_iobuf_same)
  assume c: "responses p vm = m # ms" and b: "resp_step pf p vm = Inr (r, vm')"
  note P = resp_popped [OF ok c]
  let ?mem = "store_queue (iobuf (proxies vm p)) (resp_queue vm p)
    (pop_id (queue_at (iobuf (proxies vm p)) (resp_queue vm p))) (buffer_at (iobuf (proxies vm p)) (resp_queue vm p))"
  let ?vm = "set_iobuf p ?mem vm"
  from P(5) obtain k where k: "m = Some (int k)" by (auto simp: msg_ptr_ok_def)
  from b [unfolded resp_step_def Let_def] P(4) k obtain msg rc vm1 where pr: "rpc_process pf msg p ?vm = Inr (rc, vm1)"
    and rest: "(if rc \<noteq> 0 then Inr (Some (rc, vm1), vm1)
       else andthen (rpcmsg_reclaim_buffer (lending vm1 p) m) (\<lambda>st. Inr (Some (0, set_buffer_state p st vm1), set_buffer_state p st vm1))) = Inr (r, vm')"
    by (auto simp: andthen_eq_Inr)
  note S = same_rpc_queues [OF rpc_process_frame(1) [OF pr]]
  have ok1: "proxy_ok p vm1" "responses p vm1 = ms" using S(1,2) P(1,2) by simp_all
  show "\<exists>rc. r = Some (rc, vm') \<and> proxy_ok p vm' \<and> responses p vm' = ms"
  proof (cases "rc = 0")
    case True
    with rest obtain st where "rpcmsg_reclaim_buffer (lending vm1 p) m = Inr st" "vm' = set_buffer_state p st vm1" "r = Some (0, vm')"
      by (auto simp: andthen_eq_Inr)
    with reclaimed_ok [OF ok1(1) _ P(5)] ok1(2) show ?thesis by auto
  next
    case False
    with rest ok1 show ?thesis by auto
  qed
qed

interpretation event_loop: drain_loop "event_step pf p" "device_events p" "proxy_ok p" for pf :: "'w platform" and p :: proxy_ptr
proof unfold_locales
  fix vm vm' :: "'w vmm" and m ms r
  assume ok: "proxy_ok p vm"
  let ?m = "iobuf (proxies vm p)" and ?r = "resp_queue vm p" and ?e = "event_queue vm p"
  from ok have e: "event_ok ?e ?m" and ne: "queue ?e \<noteq> queue ?r" "buffer ?e \<noteq> buffer ?r" by (simp_all add: proxy_ok_def)
  show "\<exists>vm'. event_step pf p vm = Inr (None, vm') \<and> proxy_ok p vm' \<and> device_events p vm' = []" if "device_events p vm = []"
    using events.recv_none [OF e, of Userspace] ok that
    by (simp add: event_step_def Let_def device_events_def set_iobuf_same)
  assume c: "device_events p vm = m # ms" and b: "event_step pf p vm = Inr (r, vm')"
  from c have "event_contents ?e ?m = m # ms" by (simp add: device_events_def)
  from event_rx_state [OF e this, of Userspace] obtain mem where
    mem: "rpcmsg_event_rx Userspace ?e ?m = Inr (0, Some m, mem)" "event_ok ?e mem" "event_contents ?e mem = ms" by blast
  have st: "\<exists>q b. mem = store_queue ?m ?e q b"
    using mem(1) by (auto simp: rpcmsg_event_rx_def andthen_eq_Inr)
  then have ok1: "proxy_ok p (set_iobuf p mem vm)" "device_events p (set_iobuf p mem vm) = ms"
    using ok mem(2,3) other_queue(3) [OF ne] by (auto simp: proxy_ok_def device_events_def set_iobuf_queues)
  from b mem(1) obtain rc where pr: "rpc_process pf m p (set_iobuf p mem vm) = Inr (rc, vm')" "r = Some (rc, vm')"
    by (auto simp: event_step_def Let_def andthen_eq_Inr)
  with same_rpc_queues [OF rpc_process_frame(1) [OF pr(1)]] ok1 show "\<exists>rc. r = Some (rc, vm') \<and> proxy_ok p vm' \<and> device_events p vm' = ms"
    by auto
qed

lemma resp_loop_events:
  assumes "proxy_ok p vm" "drain (resp_step pf p) rc vm = Some (Inr (rc', vm'))"
  shows "proxy_ok p vm'"
  using resp_loop.drain_returns [OF assms(1), of pf rc] assms(2) by auto

subsection \<open>Starting a request\<close>

lemma driver_request_sent:
  assumes "state_ok st" "rpc_ok rq mem" "lent st \<noteq> all_slots" "length (rpc_contents rq mem) < RPCMSG_BUFFER_SIZE"
    "driver_rpc r = \<lparr>request = rq, response = rs, buffer_state = st\<rparr>" "doorbell r = Some f"
  shows "\<exists>k st' mem'. k < RPCMSG_BUFFER_SIZE \<and>
    driver_rpc_request Userspace r mem w op m =
      Inr (0, r\<lparr>driver_rpc := \<lparr>request = rq, response = rs, buffer_state = st'\<rparr>\<rparr>, mem', f (doorbell_cookie r) w) \<and>
    lent st' = insert (int k) (lent st) \<and> int k \<notin> lent st \<and> rpc_contents rq mem' = rpc_contents rq mem @ [Some (int k)] \<and>
    messages (buffer_at mem' rq) ! k = m\<lparr>mr0 := set_op (mr0 m) op\<rparr>"
proof -
  obtain k st' mem' where k: "k < RPCMSG_BUFFER_SIZE"
      "rpcmsg_request Userspace rq st mem (m\<lparr>mr0 := set_op (mr0 m) op\<rparr>) = Inr (int k, st', mem')"
      "int k \<notin> lent st" "lent st' = insert (int k) (lent st)" "rpc_contents rq mem' = rpc_contents rq mem @ [Some (int k)]"
      "buffer_at mem' rq = with_msg (buffer_at mem rq) k (m\<lparr>mr0 := set_op (mr0 m) op\<rparr>)"
    using request_sent [OF assms(1-4), of Userspace "m\<lparr>mr0 := set_op (mr0 m) op\<rparr>"] by blast
  have len: "length (messages (buffer_at mem rq)) = RPCMSG_BUFFER_SIZE" using assms(2) by (simp add: rpc_ok_def ref_ok_def)
  have "driver_rpc_request Userspace r mem w op m =
      Inr (0, r\<lparr>driver_rpc := \<lparr>request = rq, response = rs, buffer_state = st'\<rparr>\<rparr>, mem', f (doorbell_cookie r) w)"
    using k(2) assms(5,6) by (simp add: driver_rpc_request_def Let_def vso_doorbell_def)
  with k len show ?thesis by (intro exI [of _ k] exI [of _ st'] exI [of _ mem']) simp
qed

text \<open>A proxy that can take one more request in a slot.\<close>

abbreviation req_queue :: "'w vmm \<Rightarrow> proxy_ptr \<Rightarrow> rpcmsg_rpc_queue" where
  "req_queue vm p \<equiv> request (driver_rpc (rpc (proxies vm p)))"

definition can_request :: "proxy_ptr \<Rightarrow> nat \<Rightarrow> 'w vmm \<Rightarrow> bool" where
  "can_request p k vm \<longleftrightarrow>
     length (ioacks (proxies vm p)) = NUM_IOACKS \<and> k < NUM_IOACKS \<and> callback (ioacks (proxies vm p) ! k) = None \<and>
     state_ok (lending vm p) \<and> lent (lending vm p) \<noteq> all_slots \<and> rpc_ok (req_queue vm p) (iobuf (proxies vm p)) \<and>
     length (rpc_contents (req_queue vm p) (iobuf (proxies vm p))) < RPCMSG_BUFFER_SIZE \<and>
     doorbell (rpc (proxies vm p)) \<noteq> None"

text \<open>The request as the backend finds it: the last one of the queue.\<close>

definition last_request :: "proxy_ptr \<Rightarrow> 'w vmm \<Rightarrow> rpcmsg" where
  "last_request p vm =
     (case last (rpc_contents (req_queue vm p) (iobuf (proxies vm p))) of
        Some k \<Rightarrow> messages (buffer_at (iobuf (proxies vm p)) (req_queue vm p)) ! nat k | None \<Rightarrow> zero_msg)"

lemma ioreq_start_sent:
  assumes can: "can_request p (unat sl) vm" and sz: "sz \<le> 8"
  shows "\<exists>vm'. ioreq_start pf p sl rd wr ck sp dir off sz v0 vm = Inr (0, vm') \<and>
    last_request p vm' = \<lparr>mr0 = set_op (mmio_mr0 dir sp sl sz) QEMU_OP_MMIO, mr1 = off, mr2 = v0, mr3 = 0\<rparr> \<and>
    ioacks (proxies vm' p) = (ioacks (proxies vm p))[unat sl :=
      \<lparr>callback = Some (if dir = SEL4_IO_DIR_READ then rd else wr), ack_data = Some ck\<rparr>] \<and>
    (\<forall>q. q \<noteq> p \<longrightarrow> proxies vm' q = proxies vm q)"
proof -
  let ?px = "proxies vm p"
  let ?ack = "\<lparr>callback = Some (if dir = SEL4_IO_DIR_READ then rd else wr), ack_data = Some ck\<rparr>"
  let ?m = "\<lparr>mr0 = mmio_mr0 dir sp sl sz, mr1 = off, mr2 = v0, mr3 = 0\<rparr>"
  obtain f where f: "doorbell (rpc ?px) = Some f" using can by (auto simp: can_request_def)
  have drv: "driver_rpc (rpc ?px) = \<lparr>request = req_queue vm p, response = resp_queue vm p, buffer_state = lending vm p\<rparr>" by simp
  obtain k st' mem' where k: "driver_rpc_request Userspace (rpc ?px) (iobuf ?px) (ext vm) QEMU_OP_MMIO ?m =
      Inr (0, (rpc ?px)\<lparr>driver_rpc := \<lparr>request = req_queue vm p, response = resp_queue vm p, buffer_state = st'\<rparr>\<rparr>, mem',
        f (doorbell_cookie (rpc ?px)) (ext vm))"
      "rpc_contents (req_queue vm p) mem' = rpc_contents (req_queue vm p) (iobuf ?px) @ [Some (int k)]"
      "messages (buffer_at mem' (req_queue vm p)) ! k = ?m\<lparr>mr0 := set_op (mr0 ?m) QEMU_OP_MMIO\<rparr>"
    using driver_request_sent [OF _ _ _ _ drv f, of "iobuf ?px" "ext vm" QEMU_OP_MMIO ?m] can
    unfolding can_request_def by blast
  have "ioreq_start pf p sl rd wr ck sp dir off sz v0 vm =
      Inr (0, (set_proxy p (?px\<lparr>ioacks := (ioacks ?px)[unat sl := ?ack],
        rpc := (rpc ?px)\<lparr>driver_rpc := \<lparr>request = req_queue vm p, response = resp_queue vm p, buffer_state = st'\<rparr>\<rparr>,
        iobuf := mem'\<rparr>) vm)\<lparr>ext := f (doorbell_cookie (rpc ?px)) (ext vm)\<rparr>)"
    using can sz k(1) by (simp add: ioreq_start_def can_request_def Let_def driver_rpc_req_mmio_start_def)
  with k(2,3) show ?thesis by (simp add: last_request_def)
qed

subsection \<open>Completing a request\<close>

lemma request_slot:
  assumes "unat sl < NUM_IOACKS"
  shows "(ucast (mmio_slot (set_op (mmio_mr0 dir sp sl sz) op)) :: u32) = sl"
proof -
  have "unat sl < 2 ^ 6" using assms by (simp add: NUM_IOACKS_def SEL4_MMIO_MAX_VCPU_def SEL4_MMIO_MAX_NATIVE_def)
  then have "take_bit 6 sl = sl" by (simp add: word_unat_eq_iff unsigned_take_bit_eq take_bit_nat_eq_self)
  moreover have "(ucast (take_bit 6 (ucast sl :: u64)) :: u32) = take_bit 6 sl"
    by (rule bit_word_eqI) (auto simp: bit_unsigned_iff bit_take_bit_iff)
  ultimately show ?thesis unfolding mmio_mr0_fields by simp
qed

lemma process_mmio:
  "QEMU_OP (mr0 m) = QEMU_OP_MMIO \<Longrightarrow> rpc_process pf m p vm = finish_rc (handle_mmio pf p QEMU_OP_MMIO m vm)"
  using chain_claim [of handle_mmio, OF codes_at(1)] by (simp add: rpc_process_def chain_rc_def rpc_callbacks_def)

lemma mmio_reply:
  assumes len: "length (ioacks (proxies vm p)) = NUM_IOACKS" and sl: "unat sl < NUM_IOACKS"
    and ack: "ioacks (proxies vm p) ! unat sl = \<lparr>callback = Some f, ack_data = Some ck\<rparr>"
    and m: "mr0 m = set_op (mmio_mr0 dir sp sl sz) QEMU_OP_MMIO" and call: "call_ioack pf f (Some ck) (mr2 m) vm = Inr (0, vm1)"
  shows "\<exists>vm'. rpc_process pf m p vm = Inr (0, vm') \<and> ext vm' = ext vm1 \<and> natives vm' = natives vm1 \<and>
    ioacks (proxies vm' p) = (ioacks (proxies vm p))[unat sl := \<lparr>callback = None, ack_data = Some ck\<rparr>]"
proof -
  have op: "QEMU_OP (mr0 m) = QEMU_OP_MMIO" unfolding m by (rule QEMU_OP_set_op) (simp add: QEMU_OP_MMIO_def)
  have s: "(ucast (mmio_slot (mr0 m)) :: u32) = sl" unfolding m by (rule request_slot [OF sl])
  have px: "proxies vm1 = proxies vm" by (rule call_ioack_frame(1) [OF call])
  let ?px = "(proxies vm p)\<lparr>ioacks := (ioacks (proxies vm p))[unat sl := \<lparr>callback = None, ack_data = Some ck\<rparr>]\<rparr>"
  have "ioreq_finish pf p sl (mr2 m) vm = Inr (0, set_proxy p ?px vm1)"
    using len sl ack call by (simp add: ioreq_finish_def Let_def px)
  then have "rpc_process pf m p vm = Inr (0, set_proxy p ?px vm1)"
    unfolding process_mmio [OF op] handle_mmio_def s by (simp add: finish_rc_def)
  then show ?thesis by simp
qed

subsection \<open>Slots of native threads\<close>

text \<open>Threads that have a slot have different ones, between 16 and the next free one.\<close>

definition natives_ok :: "'w vmm \<Rightarrow> bool" where
  "natives_ok vm \<longleftrightarrow> SEL4_MMIO_NATIVE_BASE \<le> free_native_slot vm \<and> free_native_slot vm \<le> int NUM_IOACKS \<and>
     (\<forall>t. slot (natives vm t) \<noteq> 0 \<longrightarrow> SEL4_MMIO_NATIVE_BASE \<le> slot (natives vm t) \<and> slot (natives vm t) < free_native_slot vm) \<and>
     (\<forall>t u. slot (natives vm t) = slot (natives vm u) \<and> slot (natives vm t) \<noteq> 0 \<longrightarrow> t = u)"

lemma native_slot_cases:
  assumes ok: "natives_ok vm" and r: "ioreq_native_slot pf t vm = (sl, vm')"
  shows "natives_ok vm' \<and> (sl = -1 \<or> sl = slot (natives vm' t) \<and> SEL4_MMIO_NATIVE_BASE \<le> sl \<and> sl < int NUM_IOACKS) \<and>
    proxies vm' = proxies vm \<and> (\<forall>u. u \<noteq> t \<longrightarrow> natives vm' u = natives vm u)"
proof (cases "slot (natives vm t) \<noteq> 0")
  case True
  with ok r show ?thesis by (auto simp: ioreq_native_slot_def natives_ok_def)
next
  case False
  obtain e w where e: "sync_sem_new (env pf) (Handoff t) (ext vm) = (e, w)" by fastforce
  show ?thesis
  proof (cases "e = 0 \<and> free_native_slot vm < int NUM_IOACKS")
    case True
    let ?f = "free_native_slot vm"
    have vm': "sl = ?f" "vm' = vm\<lparr>ext := w, natives := (natives vm)(t := (natives vm t)\<lparr>slot := ?f\<rparr>), free_native_slot := ?f + 1\<rparr>"
      using r e True False by (auto simp: ioreq_native_slot_def Let_def)
    have "?f \<noteq> 0" using ok by (simp add: natives_ok_def SEL4_MMIO_NATIVE_BASE_def)
    moreover have lt: "slot (natives vm u) < ?f" for u
      using ok \<open>?f \<noteq> 0\<close> unfolding natives_ok_def SEL4_MMIO_NATIVE_BASE_def by (cases "slot (natives vm u) = 0") auto
    moreover have "slot (natives vm u) \<noteq> ?f" "?f \<noteq> slot (natives vm u)" "slot (natives vm u) < ?f + 1" for u
      using lt [of u] by auto
    ultimately show ?thesis
      using ok True unfolding vm' natives_ok_def by auto
  next
    case F: False
    with r e False have "sl = -1" "vm' = vm\<lparr>ext := w\<rparr>" by (auto simp: ioreq_native_slot_def Let_def split: if_splits)
    with ok show ?thesis by (simp add: natives_ok_def)
  qed
qed

lemma native_start_sent:
  assumes ok: "natives_ok vm" and s: "ioreq_native_slot pf t vm = (sl, vm0)" "sl \<noteq> -1" and can: "can_request p (nat sl) vm0" and sz: "sz \<le> 8"
  shows "\<exists>vm1. ioreq_native_start pf t p sp dir a sz v0 vm = Inr (0, vm1) \<and>
    last_request p vm1 = \<lparr>mr0 = set_op (mmio_mr0 dir sp (word_of_int sl) sz) QEMU_OP_MMIO, mr1 = a, mr2 = v0, mr3 = 0\<rparr> \<and>
    ioacks (proxies vm1 p) = (ioacks (proxies vm p))[nat sl :=
      \<lparr>callback = Some (if dir = SEL4_IO_DIR_READ then Ioack_native_read else Ioack_native_write), ack_data = Some (Native_data t)\<rparr>] \<and>
    unat (word_of_int sl :: u32) = nat sl \<and> nat sl < NUM_IOACKS"
proof -
  from native_slot_cases [OF ok s(1)] s(2) have b: "16 \<le> sl" "sl < int NUM_IOACKS" "proxies vm0 = proxies vm"
    by (auto simp: SEL4_MMIO_NATIVE_BASE_def)
  then obtain n where n: "sl = int n" using zero_le_imp_eq_int [of sl] by auto
  with b have sl: "unat (word_of_int sl :: u32) = nat sl" "nat sl < NUM_IOACKS"
    by (simp_all add: NUM_IOACKS_def SEL4_MMIO_MAX_VCPU_def SEL4_MMIO_MAX_NATIVE_def unat_of_nat)
  from can sl(1) have "can_request p (unat (word_of_int sl :: u32)) vm0" by simp
  from ioreq_start_sent [where pf = pf and rd = Ioack_native_read and wr = Ioack_native_write and ck = "Native_data t"
      and sp = sp and dir = dir and off = a and ?v0.0 = v0, OF this sz] obtain vm1 where
    "ioreq_start pf p (word_of_int sl) Ioack_native_read Ioack_native_write (Native_data t) sp dir a sz v0 vm0 = Inr (0, vm1)"
    "last_request p vm1 = \<lparr>mr0 = set_op (mmio_mr0 dir sp (word_of_int sl) sz) QEMU_OP_MMIO, mr1 = a, mr2 = v0, mr3 = 0\<rparr>"
    "ioacks (proxies vm1 p) = (ioacks (proxies vm0 p))[nat sl :=
      \<lparr>callback = Some (if dir = SEL4_IO_DIR_READ then Ioack_native_read else Ioack_native_write), ack_data = Some (Native_data t)\<rparr>]"
    unfolding sl(1) by blast
  moreover from this s(1) b have "ioreq_native_start pf t p sp dir a sz v0 vm = Inr (0, vm1)"
    by (simp add: ioreq_native_start_def)
  ultimately show ?thesis using b(3) sl by simp
qed

text \<open>The state after a start request.\<close>

definition started :: "'w platform \<Rightarrow> proxy_ptr \<Rightarrow> 'w vmm \<Rightarrow> 'w vmm" where
  "started pf p vm =
     (set_proxy p ((proxies vm p)\<lparr>ok_to_run := 1\<rparr>) vm)\<lparr>ext := sync_sem_post (env pf) (Backend_started p) (ext vm)\<rparr>"

lemma process_start_vm:
  assumes "QEMU_OP (mr0 m) = QEMU_OP_START_VM"
  shows "rpc_process pf m p vm = Inr (0, started pf p vm)"
proof -
  have "run_callbacks rpc_callbacks pf p QEMU_OP_START_VM m vm = Inr (RPCMSG_RC_HANDLED, started pf p vm)"
    by (simp add: rpc_callbacks_def ignores op_code_defs)
      (simp add: handle_control_def op_code_defs Let_def rc_defs started_def)
  then show ?thesis using assms by (simp add: rpc_process_def rc_defs)
qed

subsection \<open>Properties\<close>

text \<open>
  C14. A guest read that faults on a proxied page is completed by its own answer. When the proxy can
  take a request in the slot of the vCPU, the fault handler leaves the fault pending and puts a read
  request of the MMIO operation on the queue that names the vCPU's slot, the global address space, the address and the
  length. When that message comes back with data, in any state of the VMM in which the
  slots of the proxy are as the handler left them, exactly that vCPU's fault gets the data, shifted to the byte lane
  of the fault address, and is advanced, and the slot is free again.\<close>

theorem mmio_read_round_trip:
  assumes "can_request p (unat (vcpu_id (env pf) v)) vm" "len \<le> 8" "is_vcpu_read_fault (env pf) v (ext vm)"
  shows "\<exists>vm1. mmio_fault_handler pf p v paddr len vm = Inr (FAULT_HANDLED, vm1) \<and>
    QEMU_OP (mr0 (last_request p vm1)) = QEMU_OP_MMIO \<and> mmio_slot (mr0 (last_request p vm1)) = ucast (vcpu_id (env pf) v) \<and>
    mmio_direction (mr0 (last_request p vm1)) = ucast SEL4_IO_DIR_READ \<and>
    mmio_addr_space (mr0 (last_request p vm1)) = ucast AS_GLOBAL \<and>
    mr1 (last_request p vm1) = paddr \<and> mmio_length (mr0 (last_request p vm1)) = len \<and>
    (\<forall>vm2 data. ioacks (proxies vm2 p) = ioacks (proxies vm1 p) \<longrightarrow>
      (\<exists>vm3. rpc_process pf ((last_request p vm1)\<lparr>mr2 := data\<rparr>) p vm2 = Inr (0, vm3) \<and>
        ext vm3 = advance_vcpu_fault (env pf) v (set_vcpu_fault_data (env pf) v
          (push_bit (unat (get_vcpu_fault_address (env pf) v (ext vm2) AND 3) * 8) data) (ext vm2)) \<and>
        callback (ioacks (proxies vm3 p) ! unat (vcpu_id (env pf) v)) = None))"
proof -
  let ?sl = "vcpu_id (env pf) v"
  obtain vm1 where vm1: "ioreq_start pf p ?sl Ioack_vcpu_read Ioack_vcpu_write (Vcpu_cookie v) AS_GLOBAL SEL4_IO_DIR_READ paddr len 0 vm = Inr (0, vm1)"
      "last_request p vm1 = \<lparr>mr0 = set_op (mmio_mr0 SEL4_IO_DIR_READ AS_GLOBAL ?sl len) QEMU_OP_MMIO, mr1 = paddr, mr2 = 0, mr3 = 0\<rparr>"
      "ioacks (proxies vm1 p) = (ioacks (proxies vm p))[unat ?sl := \<lparr>callback = Some Ioack_vcpu_read, ack_data = Some (Vcpu_cookie v)\<rparr>]"
    using ioreq_start_sent [where dir = SEL4_IO_DIR_READ and off = paddr and ?v0.0 = 0 and pf = pf and rd = Ioack_vcpu_read
        and wr = Ioack_vcpu_write and ck = "Vcpu_cookie v" and sp = AS_GLOBAL, OF assms(1,2)] by auto
  have sl: "unat ?sl < NUM_IOACKS" "length (ioacks (proxies vm p)) = NUM_IOACKS" using assms(1) by (simp_all add: can_request_def)
  have "\<exists>vm3. rpc_process pf ((last_request p vm1)\<lparr>mr2 := data\<rparr>) p vm2 = Inr (0, vm3) \<and>
        ext vm3 = advance_vcpu_fault (env pf) v (set_vcpu_fault_data (env pf) v
          (push_bit (unat (get_vcpu_fault_address (env pf) v (ext vm2) AND 3) * 8) data) (ext vm2)) \<and>
        callback (ioacks (proxies vm3 p) ! unat ?sl) = None"
    if acks: "ioacks (proxies vm2 p) = ioacks (proxies vm1 p)" for vm2 data
    using mmio_reply [of vm2 p ?sl Ioack_vcpu_read "Vcpu_cookie v" "(last_request p vm1)\<lparr>mr2 := data\<rparr>" SEL4_IO_DIR_READ AS_GLOBAL len pf
        "snd (ioack_vcpu_read pf v data vm2)"] sl acks vm1(2,3)
    by (auto simp: ioack_vcpu_read_def Let_def fault_shift_def)
  moreover have "mmio_fault_handler pf p v paddr len vm = Inr (FAULT_HANDLED, vm1)"
    using assms(3) vm1(1) by (simp add: mmio_fault_handler_def)
  moreover have "mr1 (last_request p vm1) = paddr" unfolding vm1(2) by simp
  moreover have small: "unat ?sl < 64" "unat len < 16" using sl(1) assms(2) by (simp_all add: NUM_IOACKS_def SEL4_MMIO_MAX_VCPU_def SEL4_MMIO_MAX_NATIVE_def word_le_nat_alt)
  have fields: "unat SEL4_IO_DIR_READ < 2" "unat AS_GLOBAL < 256"
    by (simp_all add: SEL4_IO_DIR_READ_def AS_GLOBAL_def MASK_def RPC_MR0_MMIO_ADDR_SPACE_WIDTH_def)
  have "mmio_slot (mr0 (last_request p vm1)) = ucast ?sl \<and> mmio_direction (mr0 (last_request p vm1)) = ucast SEL4_IO_DIR_READ \<and>
      mmio_addr_space (mr0 (last_request p vm1)) = ucast AS_GLOBAL \<and> mmio_length (mr0 (last_request p vm1)) = len \<and>
      QEMU_OP (mr0 (last_request p vm1)) = QEMU_OP_MMIO"
    using mmio_register_round_trip [OF small(1) fields small(2)] unfolding vm1(2) by simp
  ultimately show ?thesis by blast
qed

text \<open>The process at boot, with a proxy that can take requests.\<close>

definition idle_platform :: "unit platform" where
  "idle_platform = \<lparr>env = idle_env, lists = ample_lists\<rparr>"

lemma boot_can_request: "k < 32 \<Longrightarrow> can_request p k (boot_vmm w)"
  using boot_state boot_refs
  by (auto simp: can_request_def boot_vmm_def boot_proxy_def boot_rpc_def NUM_IOACKS_def SEL4_MMIO_MAX_VCPU_def SEL4_MMIO_MAX_NATIVE_def
      RPCMSG_BUFFER_SIZE_def all_slots_def)

lemma boot_natives_ok: "natives_ok (boot_vmm w)"
  by (simp add: natives_ok_def boot_vmm_def SEL4_MMIO_NATIVE_BASE_def NUM_IOACKS_def SEL4_MMIO_MAX_VCPU_def SEL4_MMIO_MAX_NATIVE_def)

lemma boot_proxy_ok: "proxy_ok p (boot_vmm w)"
  using boot_state boot_refs
  by (simp add: proxy_ok_def boot_vmm_def boot_proxy_def boot_rpc_def)
    (simp add: iobuf_ref_defs iobuf_layout_defs)

theorem mmio_read_round_trip_witness:
  "\<exists>vm1. mmio_fault_handler idle_platform 0 3 0x70000040 4 (boot_vmm ()) = Inr (FAULT_HANDLED, vm1) \<and>
    mr1 (last_request 0 vm1) = 0x70000040 \<and>
    (\<exists>vm3. rpc_process idle_platform ((last_request 0 vm1)\<lparr>mr2 := 7\<rparr>) 0 vm1 = Inr (0, vm3) \<and>
      callback (ioacks (proxies vm3 0) ! 3) = None)"
proof -
  have id: "vcpu_id (env idle_platform) 3 = 3" by (simp add: idle_platform_def idle_env_def)
  have "can_request 0 (unat (vcpu_id (env idle_platform) 3)) (boot_vmm ())" unfolding id by (rule boot_can_request) simp
  moreover have "is_vcpu_read_fault (env idle_platform) 3 (ext (boot_vmm ()))" by (simp add: idle_platform_def idle_env_def)
  ultimately obtain vm1 where "mmio_fault_handler idle_platform 0 3 0x70000040 4 (boot_vmm ()) = Inr (FAULT_HANDLED, vm1)"
    "mr1 (last_request 0 vm1) = 0x70000040"
    "\<forall>vm2 data. ioacks (proxies vm2 0) = ioacks (proxies vm1 0) \<longrightarrow>
      (\<exists>vm3. rpc_process idle_platform ((last_request 0 vm1)\<lparr>mr2 := data\<rparr>) 0 vm2 = Inr (0, vm3) \<and>
        callback (ioacks (proxies vm3 0) ! unat (vcpu_id (env idle_platform) 3)) = None)"
    using mmio_read_round_trip [of 0 idle_platform 3 "boot_vmm ()" 4 "0x70000040"] by auto
  then show ?thesis using id by auto
qed

text \<open>
  An access by a native thread is answered to that thread: the request carries a slot of its
  own, and when it comes back with data the thread that waits reads exactly that data, while no
  other thread's value changes.\<close>

lemma native_read_round_trip:
  assumes "natives_ok vm" "ioreq_native_slot pf t vm = (sl, vm0)" "sl \<noteq> -1" "can_request p (nat sl) vm0" "sz \<le> 8"
  shows "\<exists>vm1. ioreq_native_start pf t p sp SEL4_IO_DIR_READ a sz v0 vm = Inr (0, vm1) \<and>
    (\<forall>vm2 data. ioacks (proxies vm2 p) = ioacks (proxies vm1 p) \<longrightarrow>
      (\<exists>vm3. rpc_process pf ((last_request p vm1)\<lparr>mr2 := data\<rparr>) p vm2 = Inr (0, vm3) \<and>
        ioreq_native_end t vm3 = (0, data) \<and> (\<forall>u. u \<noteq> t \<longrightarrow> natives vm3 u = natives vm2 u) \<and>
        ext vm3 = sync_sem_post (env pf) (Handoff t) (ext vm2)))"
proof -
  obtain vm1 where vm1: "ioreq_native_start pf t p sp SEL4_IO_DIR_READ a sz v0 vm = Inr (0, vm1)"
    "last_request p vm1 = \<lparr>mr0 = set_op (mmio_mr0 SEL4_IO_DIR_READ sp (word_of_int sl) sz) QEMU_OP_MMIO, mr1 = a, mr2 = v0, mr3 = 0\<rparr>"
    "ioacks (proxies vm1 p) = (ioacks (proxies vm p))[nat sl := \<lparr>callback = Some Ioack_native_read, ack_data = Some (Native_data t)\<rparr>]"
    "unat (word_of_int sl :: u32) = nat sl" "nat sl < NUM_IOACKS"
    using native_start_sent [where sp = sp and dir = SEL4_IO_DIR_READ and a = a and ?v0.0 = v0, OF assms] by auto
  have len: "length (ioacks (proxies vm p)) = NUM_IOACKS"
    using assms(4) native_slot_cases [OF assms(1,2)] by (simp add: can_request_def)
  have "\<exists>vm3. rpc_process pf ((last_request p vm1)\<lparr>mr2 := data\<rparr>) p vm2 = Inr (0, vm3) \<and>
        ioreq_native_end t vm3 = (0, data) \<and> (\<forall>u. u \<noteq> t \<longrightarrow> natives vm3 u = natives vm2 u) \<and>
        ext vm3 = sync_sem_post (env pf) (Handoff t) (ext vm2)"
    if "ioacks (proxies vm2 p) = ioacks (proxies vm1 p)" for vm2 data
    using mmio_reply [of vm2 p "word_of_int sl" Ioack_native_read "Native_data t" "(last_request p vm1)\<lparr>mr2 := data\<rparr>" SEL4_IO_DIR_READ sp sz pf
        "snd (ioack_native_read pf t data vm2)"] len that vm1
    by (auto simp: ioack_native_read_def Let_def ioreq_native_end_def ioreq_native_wait_def)
  with vm1(1) show ?thesis by blast
qed

lemma native_read_round_trip_witness:
  "\<exists>vm1. ioreq_native_start idle_platform 0 0 2 SEL4_IO_DIR_READ 0 4 0 (boot_vmm ()) = Inr (0, vm1) \<and>
    (\<exists>vm3. rpc_process idle_platform ((last_request 0 vm1)\<lparr>mr2 := 0x1af4\<rparr>) 0 vm1 = Inr (0, vm3) \<and> ioreq_native_end 0 vm3 = (0, 0x1af4))"
proof -
  obtain sl vm0 where s: "ioreq_native_slot idle_platform 0 (boot_vmm ()) = (sl, vm0)" by fastforce
  then have sl: "sl = 16" "proxies vm0 = proxies (boot_vmm ())"
    by (auto simp: ioreq_native_slot_def boot_vmm_def idle_platform_def idle_env_def NUM_IOACKS_def SEL4_MMIO_MAX_VCPU_def
        SEL4_MMIO_MAX_NATIVE_def Let_def)
  have "can_request 0 (nat sl) vm0" using boot_can_request [of 16 0 "()"] sl by (simp add: can_request_def)
  moreover have "sl \<noteq> -1" "(4 :: u64) \<le> 8" using sl(1) by simp_all
  ultimately show ?thesis using native_read_round_trip [OF boot_natives_ok s, of 0 4 2 0 0] by blast
qed

text \<open>
  \<open>rpc_run\<close> on a well-formed proxy always returns: it stops on a handler's abort, or leaves
  the proxy well formed, and when it returns 0 every pending event has been processed.\<close>

lemma rpc_run_returns:
  assumes "proxy_ok p vm"
  shows "\<exists>r. rpc_run pf p vm = Some r \<and>
    (\<forall>rc vm'. r = Inr (rc, vm') \<longrightarrow> proxy_ok p vm' \<and> (rc = 0 \<longrightarrow> device_events p vm' = []))"
proof -
  obtain r where r: "drain (resp_step pf p) 0 vm = Some r" using resp_loop.drain_returns [OF assms, of pf 0] by blast
  show ?thesis
  proof (cases r)
    case (Inl e)
    with r show ?thesis by (simp add: rpc_run_def)
  next
    case (Inr x)
    obtain rc vm1 where x: "x = (rc, vm1)" by (cases x)
    with r Inr have "proxy_ok p vm1" using resp_loop_events [OF assms] by blast
    from event_loop.drain_returns [OF this, of pf rc] r Inr x show ?thesis by (auto simp: rpc_run_def)
  qed
qed

lemma rpc_run_returns_witness:
  "\<exists>r. rpc_run idle_platform 0 (boot_vmm ()) = Some r \<and>
    (\<forall>rc vm'. r = Inr (rc, vm') \<longrightarrow> proxy_ok 0 vm' \<and> (rc = 0 \<longrightarrow> device_events 0 vm' = []))"
  using rpc_run_returns [OF boot_proxy_ok] .

text \<open>
  Native threads never share a slot with each other or with a vCPU: a slot handed out lies
  between 16 and 31, stays the thread's own, and differs from every other thread's.\<close>

lemma native_slots_disjoint:
  assumes "natives_ok vm" "ioreq_native_slot pf t vm = (sl, vm')" "sl \<noteq> -1"
  shows "natives_ok vm' \<and> 16 \<le> sl \<and> sl < 32 \<and> fst (ioreq_native_slot pf t vm') = sl \<and>
    (\<forall>u. u \<noteq> t \<longrightarrow> slot (natives vm' u) \<noteq> sl)"
proof -
  from native_slot_cases [OF assms(1,2)] assms(3) have s: "natives_ok vm'" "sl = slot (natives vm' t)" "16 \<le> sl" "sl < 32"
    by (auto simp: SEL4_MMIO_NATIVE_BASE_def NUM_IOACKS_def SEL4_MMIO_MAX_VCPU_def SEL4_MMIO_MAX_NATIVE_def)
  then have "\<forall>u. u \<noteq> t \<longrightarrow> slot (natives vm' u) \<noteq> sl" unfolding natives_ok_def by force
  with s show ?thesis by (simp add: ioreq_native_slot_def)
qed

lemma native_slots_disjoint_witness:
  "\<exists>vm'. ioreq_native_slot idle_platform 5 (boot_vmm ()) = (16, vm') \<and> natives_ok vm'"
proof -
  obtain sl vm' where s: "ioreq_native_slot idle_platform 5 (boot_vmm ()) = (sl, vm')" by fastforce
  then have "sl = 16"
    by (auto simp: ioreq_native_slot_def boot_vmm_def idle_platform_def idle_env_def NUM_IOACKS_def SEL4_MMIO_MAX_VCPU_def
        SEL4_MMIO_MAX_NATIVE_def Let_def)
  with native_slots_disjoint [OF boot_natives_ok s] s show ?thesis by auto
qed

text \<open>
  C38. A request that cannot be queued leaves its slot taken: with the request queue full
  \<open>ioreq_start\<close> fails, and the next request in that slot aborts the VMM on the assertion that the
  slot is free.\<close>

theorem failed_start_blocks_slot:
  assumes "length (ioacks (proxies vm p)) = NUM_IOACKS" "unat sl < NUM_IOACKS" "callback (ioacks (proxies vm p) ! unat sl) = None"
    "state_ok (lending vm p)" "lent (lending vm p) \<noteq> all_slots" "rpc_ok (req_queue vm p) (iobuf (proxies vm p))"
    "length (rpc_contents (req_queue vm p) (iobuf (proxies vm p))) = RPCMSG_BUFFER_SIZE" "sz \<le> 8"
  shows "\<exists>vm'. ioreq_start pf p sl rd wr ck sp dir off sz v0 vm = Inr (-1, vm') \<and>
    ioreq_start pf p sl rd' wr' ck' sp' dir' off' sz v1 vm' = Inl Assert_failed"
proof -
  let ?px = "proxies vm p"
  let ?m = "\<lparr>mr0 = set_op (mmio_mr0 dir sp sl sz) QEMU_OP_MMIO, mr1 = off, mr2 = v0, mr3 = 0\<rparr>"
  obtain st' mem' where "rpcmsg_request Userspace (req_queue vm p) (lending vm p) (iobuf ?px) ?m = Inr (-1, st', mem')"
    using request_queue_full [OF assms(4,6,5,7)] by blast
  then obtain vm' where "ioreq_start pf p sl rd wr ck sp dir off sz v0 vm = Inr (-1, vm')"
    "ioacks (proxies vm' p) = (ioacks ?px)[unat sl := \<lparr>callback = Some (if dir = SEL4_IO_DIR_READ then rd else wr), ack_data = Some ck\<rparr>]"
    using assms(1-3,8)
    by (simp add: ioreq_start_def Let_def driver_rpc_req_mmio_start_def driver_rpc_request_def)
  with assms(1,2,8) show ?thesis by (simp add: ioreq_start_def Let_def)
qed

definition full_iobuf :: rpcmsg_iobuf where
  "full_iobuf = boot_iobuf\<lparr>queues := (queues boot_iobuf)[0 :=
     \<lparr>prod_b = \<lparr>tail = \<lparr>pos = 32, count = 32\<rparr>, head = \<lparr>pos = 32, count = 32\<rparr>\<rparr>, cons_b = zero_bound, ring = replicate 32 0\<rparr>]\<rparr>"

definition full_vmm :: "unit vmm" where
  "full_vmm = set_proxy 0 (boot_proxy\<lparr>iobuf := full_iobuf\<rparr>) (boot_vmm ())"

lemma full_request_queue:
  "rpc_ok driver_drvrpc_req full_iobuf" "length (rpc_contents driver_drvrpc_req full_iobuf) = RPCMSG_BUFFER_SIZE"
proof -
  have q: "queue_at full_iobuf driver_drvrpc_req =
     \<lparr>prod_b = \<lparr>tail = \<lparr>pos = 32, count = 32\<rparr>, head = \<lparr>pos = 32, count = 32\<rparr>\<rparr>, cons_b = zero_bound, ring = replicate 32 0\<rparr>"
    by (simp add: full_iobuf_def queue_at_def iobuf_ref_defs iobuf_layout_defs boot_iobuf_def)
  have len: "queue_len (queue_at full_iobuf driver_drvrpc_req) = 32" by (simp add: q queue_len_def zero_bound_def)
  then show "length (rpc_contents driver_drvrpc_req full_iobuf) = RPCMSG_BUFFER_SIZE"
    by (simp add: rpc_contents_def RPCMSG_BUFFER_SIZE_def)
  have "queue_ok (queue_at full_iobuf driver_drvrpc_req)"
    using len by (simp add: queue_ok_def q settled_def zero_bound_def RPCMSG_BUFFER_SIZE_def)
  moreover have "\<forall>i \<in> set (queue_ids (queue_at full_iobuf driver_drvrpc_req)). unat i < RPCMSG_BUFFER_SIZE"
    using queue_slot_less [of "queue_at full_iobuf driver_drvrpc_req"] by (auto simp: queue_ids_def q RPCMSG_BUFFER_SIZE_def)
  ultimately show "rpc_ok driver_drvrpc_req full_iobuf"
    using boot_refs(2) by (simp add: rpc_ok_def ref_ok_def buffer_at_def full_iobuf_def)
qed

theorem failed_start_blocks_slot_witness:
  "\<exists>vm'. ioreq_start idle_platform 0 3 Ioack_vcpu_read Ioack_vcpu_write (Vcpu_cookie 3) AS_GLOBAL SEL4_IO_DIR_READ 0 4 0 full_vmm = Inr (-1, vm') \<and>
    ioreq_start idle_platform 0 3 Ioack_vcpu_read Ioack_vcpu_write (Vcpu_cookie 3) AS_GLOBAL SEL4_IO_DIR_READ 0 4 0 vm' = Inl Assert_failed"
proof (rule failed_start_blocks_slot)
  have px: "proxies full_vmm 0 = boot_proxy\<lparr>iobuf := full_iobuf\<rparr>" by (simp add: full_vmm_def)
  show "state_ok (lending full_vmm 0)" "lent (lending full_vmm 0) \<noteq> all_slots"
    using boot_state by (auto simp: px boot_proxy_def boot_rpc_def all_slots_def RPCMSG_BUFFER_SIZE_def lessThan_empty_iff)
  show "rpc_ok (req_queue full_vmm 0) (iobuf (proxies full_vmm 0))"
    "length (rpc_contents (req_queue full_vmm 0) (iobuf (proxies full_vmm 0))) = RPCMSG_BUFFER_SIZE"
    using full_request_queue by (simp_all add: px boot_proxy_def boot_rpc_def)
qed (simp_all add: full_vmm_def boot_proxy_def NUM_IOACKS_def SEL4_MMIO_MAX_VCPU_def SEL4_MMIO_MAX_NATIVE_def)

text \<open>
  C39. The VMM trusts the slot of an answer: an answer for a slot with no request pending, or for a
  slot number above 32, aborts it, and slot 32 passes the range check and is read outside the
  table.\<close>

theorem unexpected_answer:
  assumes "length (ioacks (proxies vm p)) = NUM_IOACKS" "QEMU_OP (mr0 m) = QEMU_OP_MMIO"
    "sl = unat (ucast (mmio_slot (mr0 m)) :: u32)" "32 \<le> sl \<or> callback (ioacks (proxies vm p) ! sl) = None"
  shows "rpc_process pf m p vm = Inl (if sl = 32 then Out_of_bounds else Assert_failed)"
proof -
  have n: "NUM_IOACKS = 32" by (simp add: NUM_IOACKS_def SEL4_MMIO_MAX_VCPU_def SEL4_MMIO_MAX_NATIVE_def)
  have eq: "rpc_process pf m p vm = finish_rc (handle_mmio pf p QEMU_OP_MMIO m vm)" by (rule process_mmio [OF assms(2)])
  show ?thesis
    using assms(1,3,4)
    by (auto simp: eq handle_mmio_def ioreq_finish_def finish_rc_def n array_get_def asserting_def)
qed

theorem unexpected_answer_witness:
  "rpc_process idle_platform \<lparr>mr0 = 0x800, mr1 = 0, mr2 = 0, mr3 = 0\<rparr> 0 (boot_vmm ()) = Inl Out_of_bounds"
proof -
  let ?m = "\<lparr>mr0 = 0x800, mr1 = 0, mr2 = 0, mr3 = 0\<rparr>"
  have "32 = unat (ucast (mmio_slot (mr0 ?m)) :: u32)" "QEMU_OP (mr0 ?m) = QEMU_OP_MMIO"
    by (simp_all add: BIT_FIELD_GET_def BIT_FIELD_MASK_def MASK_def mr0_field_defs QEMU_OP_def QEMU_OP_MMIO_def)
  moreover have "length (ioacks (proxies (boot_vmm ()) 0)) = NUM_IOACKS"
    by (simp add: boot_vmm_def boot_proxy_def NUM_IOACKS_def SEL4_MMIO_MAX_VCPU_def SEL4_MMIO_MAX_NATIVE_def)
  ultimately show ?thesis using unexpected_answer [of "boot_vmm ()" 0 ?m 32 idle_platform] by simp
qed

text \<open>
  The start-up handshake: once the backend's start request has been processed, the wait for the
  backend ends at the first look at the flag.\<close>

lemma start_vm_releases_wait:
  assumes "QEMU_OP (mr0 m) = QEMU_OP_START_VM"
  shows "\<exists>vm'. rpc_process pf m p vm = Inr (0, vm') \<and> ext vm' = sync_sem_post (env pf) (Backend_started p) (ext vm) \<and>
    io_proxy_wait_for_backend p (vm' # vms) = Some vm'"
  using process_start_vm [OF assms, of pf p vm] by (intro exI [of _ "started pf p vm"]) (simp add: started_def)

lemma start_vm_releases_wait_witness:
  "\<exists>vm'. rpc_process idle_platform \<lparr>mr0 = 18, mr1 = 0, mr2 = 0, mr3 = 0\<rparr> 0 (boot_vmm ()) = Inr (0, vm') \<and>
    io_proxy_wait_for_backend 0 [vm'] = Some vm'"
proof -
  have "QEMU_OP 18 = QEMU_OP_START_VM"
    by (simp add: QEMU_OP_def QEMU_OP_START_VM_def BIT_FIELD_GET_def BIT_FIELD_MASK_def MASK_def mr0_field_defs)
  then show ?thesis
    using start_vm_releases_wait [of "\<lparr>mr0 = 18, mr1 = 0, mr2 = 0, mr3 = 0\<rparr>" idle_platform 0 "boot_vmm ()" "[]"] by auto
qed

end
