(* ===== verification/Vm_Races.thy ===== *)
theory Vm_Races
  imports Vm_Run
begin

text \<open>
  Two places of \<open>src/io_proxy.c\<close> where a native thread and the notification handler, or two native
  threads, meet inside a call: the completion of a request, which runs the callback before it frees
  the slot, and the counter of native slots. Each call is split at the point where the other
  thread may run; the halves in sequence are the call.
\<close>

subsection \<open>Completing a request in two steps\<close>

definition finish_call :: "'w platform \<Rightarrow> proxy_ptr \<Rightarrow> u32 \<Rightarrow> seL4_Word \<Rightarrow> 'w vmm \<Rightarrow> (int \<times> 'w vmm) res" where
  "finish_call pf p sl data vm =
     asserting (unat sl \<le> NUM_IOACKS)
      (andthen (array_get (ioacks (proxies vm p)) (unat sl)) (\<lambda>ack.
         case callback ack of None \<Rightarrow> Inl Assert_failed | Some f \<Rightarrow> call_ioack pf f (ack_data ack) data vm))"

definition finish_clear :: "proxy_ptr \<Rightarrow> u32 \<Rightarrow> 'w vmm \<Rightarrow> 'w vmm" where
  "finish_clear p sl vm =
     (let px = proxies vm p
      in set_proxy p (px\<lparr>ioacks := (ioacks px)[unat sl := (ioacks px ! unat sl)\<lparr>callback := None\<rparr>]\<rparr>) vm)"

lemma finish_halves:
  "ioreq_finish pf p sl data vm = andthen (finish_call pf p sl data vm) (\<lambda>(err, vm). Inr (err, finish_clear p sl vm))"
  by (cases "array_get (ioacks (proxies vm p)) (unat sl)")
    (auto simp: ioreq_finish_def finish_call_def finish_clear_def Let_def asserting_def split: option.split)

subsection \<open>Taking a native slot in two steps\<close>

text \<open>\<open>free_native_slot++\<close>: the value is loaded, then the sum is stored; the thread gets the value loaded.\<close>

definition slot_load :: "'w platform \<Rightarrow> nat \<Rightarrow> 'w vmm \<Rightarrow> int option \<times> 'w vmm" where
  "slot_load pf t vm =
     (case sync_sem_new (env pf) (Handoff t) (ext vm) of (err, w) \<Rightarrow>
        let vm = vm\<lparr>ext := w\<rparr> in
        if err \<noteq> 0 then (None, vm)
        else if free_native_slot vm \<ge> int NUM_IOACKS then (None, vm)
        else (Some (free_native_slot vm), vm))"

definition slot_store :: "nat \<Rightarrow> int \<Rightarrow> 'w vmm \<Rightarrow> 'w vmm" where
  "slot_store t v vm = vm\<lparr>natives := (natives vm)(t := (natives vm t)\<lparr>slot := v\<rparr>), free_native_slot := v + 1\<rparr>"

lemma native_slot_halves:
  "ioreq_native_slot pf t vm =
     (if slot (natives vm t) \<noteq> 0 then (slot (natives vm t), vm)
      else case slot_load pf t vm of (None, vm) \<Rightarrow> (-1, vm) | (Some v, vm) \<Rightarrow> (v, slot_store t v vm))"
  by (simp add: ioreq_native_slot_def slot_load_def slot_store_def Let_def split: prod.split)

lemma taken_slot_aborts:
  assumes "slot (natives vm t) = int k" "k \<noteq> 0" "k < NUM_IOACKS" "length (ioacks (proxies vm p)) = NUM_IOACKS"
    "callback (ioacks (proxies vm p) ! k) \<noteq> None" "sz \<le> 8"
  shows "ioreq_native_start pf t p sp dir a sz v0 vm = Inl Assert_failed"
proof -
  have "unat (word_of_int (int k) :: u32) = k"
    using assms(3) by (simp add: unat_of_nat NUM_IOACKS_def SEL4_MMIO_MAX_VCPU_def SEL4_MMIO_MAX_NATIVE_def)
  then have "ioreq_start pf p (word_of_int (int k)) Ioack_native_read Ioack_native_write (Native_data t) sp dir a sz v0 vm = Inl Assert_failed"
    using assms(3-6) by (auto simp: ioreq_start_def Let_def asserting_def)
  then show ?thesis using assms(1,2) by (simp add: ioreq_native_start_def ioreq_native_slot_def)
qed

subsection \<open>Properties\<close>

text \<open>
  C36. A completed request can abort the VMM: the callback of a native read stores the data and
  releases the thread while its slot is still taken. If the thread runs on before the handler
  clears the slot, it has its data, and its next access fails the assertion that the slot is free.\<close>

theorem completion_race:
  assumes "length (ioacks (proxies vm p)) = NUM_IOACKS" "slot (natives vm t) = int (unat sl)" "sl \<noteq> 0" "unat sl < NUM_IOACKS"
    "ioacks (proxies vm p) ! unat sl = \<lparr>callback = Some Ioack_native_read, ack_data = Some (Native_data t)\<rparr>" "sz \<le> 8"
  shows "\<exists>vm1. finish_call pf p sl data vm = Inr (0, vm1) \<and> ext vm1 = sync_sem_post (env pf) (Handoff t) (ext vm) \<and>
    ioreq_native_end t vm1 = (0, data) \<and> ioreq_native_start pf t p sp dir a sz v0 vm1 = Inl Assert_failed"
proof -
  let ?vm1 = "snd (ioack_native_read pf t data vm)"
  have "finish_call pf p sl data vm = Inr (0, ?vm1)"
    using assms(1,4,5) by (simp add: finish_call_def ioack_native_read_def Let_def)
  moreover have "ioreq_native_start pf t p sp dir a sz v0 ?vm1 = Inl Assert_failed"
    by (rule taken_slot_aborts [of _ _ "unat sl"])
      (use assms in \<open>simp_all add: ioack_native_read_def Let_def unat_eq_0\<close>)
  ultimately show ?thesis by (intro exI [of _ ?vm1]) (simp add: ioack_native_read_def Let_def ioreq_native_end_def ioreq_native_wait_def)
qed

theorem completion_race_witness:
  "\<exists>vm vm1. finish_call idle_platform 0 16 7 vm = Inr (0, vm1) \<and> ioreq_native_end 5 vm1 = (0, 7) \<and>
    ioreq_native_start idle_platform 5 0 AS_GLOBAL SEL4_IO_DIR_READ 0 4 0 vm1 = Inl Assert_failed"
proof -
  let ?ack = "\<lparr>callback = Some Ioack_native_read, ack_data = Some (Native_data 5)\<rparr>"
  let ?vm = "(set_proxy 0 (boot_proxy\<lparr>ioacks := (replicate 32 \<lparr>callback = None, ack_data = None\<rparr>)[16 := ?ack]\<rparr>) (boot_vmm ()))
    \<lparr>natives := (\<lambda>_. \<lparr>slot = 16, native_value = 0\<rparr>)\<rparr>"
  have "length (ioacks (proxies ?vm 0)) = NUM_IOACKS" "ioacks (proxies ?vm 0) ! unat (16 :: u32) = ?ack"
    "unat (16 :: u32) < NUM_IOACKS"
    by (simp_all add: boot_proxy_def NUM_IOACKS_def SEL4_MMIO_MAX_VCPU_def SEL4_MMIO_MAX_NATIVE_def)
  from completion_race [OF this(1) _ _ this(3,2), of 4 idle_platform 7 AS_GLOBAL SEL4_IO_DIR_READ 0 0] obtain vm1 where
    "finish_call idle_platform 0 16 7 ?vm = Inr (0, vm1)" "ioreq_native_end 5 vm1 = (0, 7)"
    "ioreq_native_start idle_platform 5 0 AS_GLOBAL SEL4_IO_DIR_READ 0 4 0 vm1 = Inl Assert_failed" by auto
  then show ?thesis by blast
qed

text \<open>
  C37. Two native threads can get the same slot: if both load the counter before either stores it,
  they share a slot, and while one of them waits in it an access by the other aborts the VMM.\<close>

theorem native_slot_race:
  assumes "natives_ok vm" "t \<noteq> u" "slot (natives vm t) = 0" "slot (natives vm u) = 0"
    "slot_load pf t vm = (Some v, vm1)" "slot_load pf u vm1 = (Some v', vm2)" "vm3 = slot_store u v' (slot_store t v vm2)"
  shows "v' = v \<and> slot (natives vm3 t) = slot (natives vm3 u) \<and> \<not> natives_ok vm3 \<and>
    (\<forall>vm4. natives vm4 = natives vm3 \<and> length (ioacks (proxies vm4 p)) = NUM_IOACKS \<and> callback (ioacks (proxies vm4 p) ! nat v) \<noteq> None \<and> sz \<le> 8 \<longrightarrow>
      ioreq_native_start pf u p sp dir a sz d vm4 = Inl Assert_failed)"
proof -
  from assms(5) have v: "v = free_native_slot vm" "v < int NUM_IOACKS" "free_native_slot vm1 = v"
    by (auto simp: slot_load_def Let_def split: prod.splits if_splits)
  from assms(6) have v': "v' = v" using v(3) by (auto simp: slot_load_def Let_def split: prod.splits if_splits)
  have s: "slot (natives vm3 t) = v" "slot (natives vm3 u) = v" using assms(2,7) v' by (simp_all add: slot_store_def)
  have pos: "0 < v" using assms(1) v(1) by (simp add: natives_ok_def SEL4_MMIO_NATIVE_BASE_def)
  have "\<not> natives_ok vm3" using s assms(2) pos unfolding natives_ok_def by (metis less_irrefl)
  moreover have "ioreq_native_start pf u p sp dir a sz d vm4 = Inl Assert_failed"
    if "natives vm4 = natives vm3" "length (ioacks (proxies vm4 p)) = NUM_IOACKS" "callback (ioacks (proxies vm4 p) ! nat v) \<noteq> None" "sz \<le> 8" for vm4
    by (rule taken_slot_aborts [of _ _ "nat v"]) (use that s v(2) pos in auto)
  ultimately show ?thesis using v' s by auto
qed

theorem native_slot_race_witness:
  "\<exists>vm2. slot_load idle_platform 5 (boot_vmm ()) = (Some 16, boot_vmm ()) \<and> slot_load idle_platform 6 (boot_vmm ()) = (Some 16, vm2) \<and>
    \<not> natives_ok (slot_store 6 16 (slot_store 5 16 vm2))"
proof -
  have l: "slot_load idle_platform t (boot_vmm ()) = (Some 16, boot_vmm ())" for t
    by (simp add: slot_load_def idle_platform_def idle_env_def boot_vmm_def NUM_IOACKS_def SEL4_MMIO_MAX_VCPU_def SEL4_MMIO_MAX_NATIVE_def Let_def)
  have "slot (natives (boot_vmm ()) t) = 0" for t by (simp add: boot_vmm_def)
  then have "\<not> natives_ok (slot_store 6 16 (slot_store 5 16 (boot_vmm ())))"
    using native_slot_race [OF boot_natives_ok _ _ _ l l refl, of 5 6] by simp
  with l show ?thesis by blast
qed

end
