(* ===== verification/Camkes_Modules.thy ===== *)
theory Camkes_Modules
  imports Vm_Glue Fdt
begin

text \<open>
  The CAmkES VM modules: the early-boot UART (\<open>src/camkes/modules/pl011.c\<close>), guest RAM from
  data ports (\<open>src/ram_dataport.c\<close>, \<open>src/camkes/modules/init_dataport_ram.c\<close>) and the modules that
  only call the components above.
\<close>

subsection \<open>The early-boot UART\<close>

record pl011 =
  uart_base :: u64
  uart_size :: u64

definition PL011_UARTDR :: u64 where "PL011_UARTDR = 0x00"
definition PL011_UARTFR :: u64 where "PL011_UARTFR = 0x18"

definition pl011_read_fault :: "'w sel4vm \<Rightarrow> pl011 \<Rightarrow> vcpu \<Rightarrow> u64 \<Rightarrow> u64 \<Rightarrow> 'w \<Rightarrow> bool \<times> 'w" where
  "pl011_read_fault e p v paddr len w =
     (if paddr - uart_base p = PL011_UARTFR then (True, set_vcpu_fault_data e v 0x90 w) else (False, w))"

definition pl011_write_fault :: "'w sel4vm \<Rightarrow> pl011 \<Rightarrow> vcpu \<Rightarrow> u64 \<Rightarrow> u64 \<Rightarrow> 'w \<Rightarrow> bool \<times> 'w" where
  "pl011_write_fault e p v paddr len w =
     (let value = emulate_vcpu_fault e v 0 w in
      if paddr - uart_base p = PL011_UARTDR then (True, putchar e (ucast value) w) else (False, w))"

definition pl011_fault_handler :: "'w sel4vm \<Rightarrow> pl011 \<Rightarrow> vcpu \<Rightarrow> u64 \<Rightarrow> u64 \<Rightarrow> 'w \<Rightarrow> fault_result \<times> 'w" where
  "pl011_fault_handler e p v paddr len w =
     (case (if is_vcpu_read_fault e v w then pl011_read_fault e p v paddr len w
            else pl011_write_fault e p v paddr len w) of (fault_handled, w) \<Rightarrow>
        if \<not> fault_handled then (FAULT_UNHANDLED, w) else (FAULT_HANDLED, advance_vcpu_fault e v w))"

definition pl011_init :: "'w sel4vm \<Rightarrow> pl011 \<Rightarrow> 'w \<Rightarrow> 'w res" where
  "pl011_init e p w =
     (case vm_reserve_memory_at e (uart_base p) (uart_size p) Pl011_fault_handler w of
        (None, w) \<Rightarrow> Inl Fatal
      | (Some r, w) \<Rightarrow> Inr w)"

subsection \<open>Guest RAM from data ports\<close>

text \<open>\<open>frames\<close> is the array of frame capabilities that the pointer of that name refers to.\<close>

record ram_dataport =
  frames :: "seL4_Word list"
  num_frames :: u64
  frame_size_bits :: u64
  dp_addr :: u64

text \<open>
  What libsel4vm and the CAmkES VM offer for guest RAM, and the setup hook, which fills in the
  entries of the table.
\<close>

record 'w ram_lib =
  ram_dataport_setup :: "ram_dataport list \<Rightarrow> 'w \<Rightarrow> int \<times> ram_dataport list \<times> 'w"
  vm_ram_reserve_at :: "u64 \<Rightarrow> u64 \<Rightarrow> 'w \<Rightarrow> reservation option \<times> 'w"
  vm_map_reservation_frames :: "reservation \<Rightarrow> seL4_Word list \<Rightarrow> u64 \<Rightarrow> u64 \<Rightarrow> 'w \<Rightarrow> int \<times> 'w"
  is_ram_region :: "u64 \<Rightarrow> u64 \<Rightarrow> 'w \<Rightarrow> bool"
  vm_ram_register_at :: "u64 \<Rightarrow> u64 \<Rightarrow> bool \<Rightarrow> 'w \<Rightarrow> int \<times> 'w"

text \<open>The weak default of \<open>ram_dataport_setup\<close>.\<close>

definition ram_dataport_setup_weak :: "ram_dataport list \<Rightarrow> 'w \<Rightarrow> int \<times> ram_dataport list \<times> 'w" where
  "ram_dataport_setup_weak dps w = (0, dps, w)"

definition ram_dataport_map :: "'w ram_lib \<Rightarrow> ram_dataport \<Rightarrow> 'w \<Rightarrow> int \<times> 'w" where
  "ram_dataport_map lib dp w =
     (case vm_ram_reserve_at lib (dp_addr dp) (num_frames dp * push_bit (unat (frame_size_bits dp)) 1) w of
        (None, w) \<Rightarrow> (-1, w)
      | (Some r, w) \<Rightarrow>
          (case vm_map_reservation_frames lib r (frames dp) (num_frames dp) (frame_size_bits dp) w of (err, w) \<Rightarrow> if err \<noteq> 0 then (-1, w) else (0, w)))"

fun map_dataports :: "'w ram_lib \<Rightarrow> ram_dataport list \<Rightarrow> 'w \<Rightarrow> int \<times> 'w" where
  "map_dataports lib [] w = (0, w)"
| "map_dataports lib (dp # dps) w =
     (case ram_dataport_map lib dp w of (err, w) \<Rightarrow> if err \<noteq> 0 then (-1, w) else map_dataports lib dps w)"

definition ram_dataport_map_all :: "'w ram_lib \<Rightarrow> ram_dataport list \<Rightarrow> 'w \<Rightarrow> int \<times> 'w" where
  "ram_dataport_map_all lib dps w =
     (case ram_dataport_setup lib dps w of (err, dps, w) \<Rightarrow> if err \<noteq> 0 then (-1, w) else map_dataports lib dps w)"

record vm_config =
  ram_base :: u64
  ram_size :: u64
  map_one_to_one :: bool
  generate_dtb :: bool

definition init_ram_module :: "'w ram_lib \<Rightarrow> vm_config \<Rightarrow> ram_dataport list \<Rightarrow> 'w \<Rightarrow> 'w res" where
  "init_ram_module lib cfg dps w =
     (case ram_dataport_map_all lib dps w of (err, w) \<Rightarrow>
        if err \<noteq> 0 then Inl Fatal
        else if is_ram_region lib (ram_base cfg) (ram_size cfg) w then Inr w
        else case vm_ram_register_at lib (ram_base cfg) (ram_size cfg) (map_one_to_one cfg) w of (err, w) \<Rightarrow>
               if err \<noteq> 0 then Inl Fatal else Inr w)"

subsection \<open>Modules that call the components\<close>

definition camkes_io_proxy_module_init ::
  "'w platform \<Rightarrow> 'w run_fn \<Rightarrow> vm_config \<Rightarrow> proxy_ptr \<Rightarrow> 'w vmm \<Rightarrow> 'f fdt_state \<Rightarrow> ('w vmm \<times> 'f fdt_state) res" where
  "camkes_io_proxy_module_init pf run_fn cfg p vm st =
     (let st = st\<lparr>guest_ram_base := ram_base cfg, guest_ram_size := ram_size cfg\<rparr> in
      andthen (libsel4vm_io_proxy_init pf run_fn p vm) (\<lambda>(err, vm).
        if err \<noteq> 0 then Inl Fatal else Inr (vm, st)))"

text \<open>The result is logged and otherwise ignored.\<close>

definition camkes_guest_configure ::
  "'f fdt_lib \<Rightarrow> int \<Rightarrow> vm_config \<Rightarrow> nat option list \<Rightarrow> 'w vmm \<Rightarrow> 'f fdt_state \<Rightarrow> 'f fdt_state" where
  "camkes_guest_configure lib vpci cfg sect vm st = snd (guest_configure lib vpci (generate_dtb cfg) sect vm st)"

definition fdt_plat_customize_weak :: "'f fdt_lib \<Rightarrow> 'f \<Rightarrow> int \<times> 'f" where
  "fdt_plat_customize_weak lib fdt = (0, fdt)"

definition fdt_plat_customize_init :: "'f fdt_lib \<Rightarrow> vm_config \<Rightarrow> 'f \<Rightarrow> 'f res" where
  "fdt_plat_customize_init lib cfg fdt =
     (if \<not> generate_dtb cfg then Inr fdt
      else case fdt_plat_customize lib fdt of (err, fdt) \<Rightarrow> if err \<noteq> 0 then Inl Fatal else Inr fdt)"

subsection \<open>Guest RAM is mapped completely or not at all silently\<close>

text \<open>
  A libsel4vm that keeps where each reservation lies and the list of mappings made: reserving gives
  a reservation at the address and of the size asked for, mapping frames into a reservation adds the frames,
  their number and their size to the list when it succeeds and nothing when it fails; the other
  calls do not touch the list.
\<close>

type_synonym ram_mapping = "(u64 \<times> u64) \<times> seL4_Word list \<times> u64 \<times> u64"

definition records_maps :: "'w ram_lib \<Rightarrow> ('w \<Rightarrow> reservation \<Rightarrow> u64 \<times> u64) \<Rightarrow> ('w \<Rightarrow> ram_mapping list) \<Rightarrow> bool" where
  "records_maps lib region mapped \<longleftrightarrow>
     (\<forall>dps w. mapped (snd (snd (ram_dataport_setup lib dps w))) = mapped w) \<and>
     (\<forall>a n w. mapped (snd (vm_ram_reserve_at lib a n w)) = mapped w) \<and>
     (\<forall>a n w r. fst (vm_ram_reserve_at lib a n w) = Some r \<longrightarrow> region (snd (vm_ram_reserve_at lib a n w)) r = (a, n)) \<and>
     (\<forall>r fs n b w. mapped (snd (vm_map_reservation_frames lib r fs n b w)) =
        (if fst (vm_map_reservation_frames lib r fs n b w) = 0 then mapped w @ [(region w r, fs, n, b)] else mapped w)) \<and>
     (\<forall>a n o1 w. mapped (snd (vm_ram_register_at lib a n o1 w)) = mapped w)"

lemma records_mapsD:
  assumes "records_maps lib region mapped"
  shows "mapped (snd (snd (ram_dataport_setup lib dps w))) = mapped w"
    "mapped (snd (vm_ram_reserve_at lib a n w)) = mapped w"
    "fst (vm_ram_reserve_at lib a n w) = Some r \<Longrightarrow> region (snd (vm_ram_reserve_at lib a n w)) r = (a, n)"
    "mapped (snd (vm_map_reservation_frames lib r fs n b w)) =
        (if fst (vm_map_reservation_frames lib r fs n b w) = 0 then mapped w @ [(region w r, fs, n, b)] else mapped w)"
    "mapped (snd (vm_ram_register_at lib a n o1 w)) = mapped w"
  using assms unfolding records_maps_def by blast+

text \<open>What a data port asks for: its frames, mapped over a region that begins at its address and has just their size.\<close>

definition port_mapping :: "ram_dataport \<Rightarrow> ram_mapping" where
  "port_mapping dp = ((dp_addr dp, num_frames dp * 2 ^ unat (frame_size_bits dp)), frames dp, num_frames dp, frame_size_bits dp)"

lemma ram_dataport_map_records:
  assumes "records_maps lib region mapped" "ram_dataport_map lib dp w = (err, w')"
  shows "mapped w' = (if err = 0 then mapped w @ [port_mapping dp] else mapped w) \<and> err \<in> {0, -1}"
proof -
  let ?n = "num_frames dp * push_bit (unat (frame_size_bits dp)) 1"
  note lib = records_mapsD [OF assms(1)]
  obtain x w1 where x: "vm_ram_reserve_at lib (dp_addr dp) ?n w = (x, w1)"
    by fastforce
  with lib(2) [of "dp_addr dp" ?n w] have w1: "mapped w1 = mapped w" by simp
  show ?thesis
  proof (cases x)
    case None
    then show ?thesis using assms(2) x w1 by (auto simp: ram_dataport_map_def)
  next
    case (Some v)
    obtain e w2 where e: "vm_map_reservation_frames lib v (frames dp) (num_frames dp) (frame_size_bits dp) w1 = (e, w2)" by fastforce
    have "region w1 v = (dp_addr dp, ?n)" using lib(3) [of "dp_addr dp" ?n w v] x Some by simp
    then have "mapped w2 = (if e = 0 then mapped w @ [port_mapping dp] else mapped w)"
      using lib(4) [of v "frames dp" "num_frames dp" "frame_size_bits dp" w1] e w1 by (simp add: port_mapping_def push_bit_eq_mult)
    then show ?thesis using assms(2) x e Some by (auto simp: ram_dataport_map_def split: if_splits)
  qed
qed

lemma map_dataports_records:
  assumes "records_maps lib region mapped" "map_dataports lib dps w = (err, w')"
  shows "\<exists>k \<le> length dps. mapped w' = mapped w @ map port_mapping (take k dps) \<and> (err = 0 \<longleftrightarrow> k = length dps) \<and> err \<in> {0, -1}"
  using assms(2)
proof (induction dps arbitrary: w)
  case (Cons dp dps)
  obtain e w1 where e: "ram_dataport_map lib dp w = (e, w1)" by fastforce
  note r = ram_dataport_map_records [OF assms(1) this]
  show ?case
  proof (cases "e = 0")
    case True
    then have "map_dataports lib dps w1 = (err, w')" using Cons.prems e by simp
    from Cons.IH [OF this] obtain k where k: "k \<le> length dps" "mapped w' = mapped w1 @ map port_mapping (take k dps)"
      "err = 0 \<longleftrightarrow> k = length dps" "err \<in> {0, -1}" by blast
    with r True show ?thesis by (intro exI [of _ "Suc k"]) simp
  next
    case False
    then show ?thesis using Cons.prems e r by (intro exI [of _ 0]) auto
  qed
qed simp

text \<open>
  C29. Guest RAM from data ports is complete or the boot stops. Ports are mapped in the order the
  linker laid them out; when one of them fails, or the setup hook does, \<open>init_ram_module\<close> is fatal,
  and it returns only after every port of the table the hook left was mapped once, its frames over a
  region at its address and of just their size, and either the configured
  region is RAM by then or registering it succeeded.
\<close>

theorem guest_ram_is_complete:
  assumes "records_maps lib region mapped" "init_ram_module lib cfg dps w = Inr w'"
  shows "mapped w' = mapped w @ map port_mapping (fst (snd (ram_dataport_setup lib dps w))) \<and>
    (is_ram_region lib (ram_base cfg) (ram_size cfg) w' \<or>
     (\<exists>w1. vm_ram_register_at lib (ram_base cfg) (ram_size cfg) (map_one_to_one cfg) w1 = (0, w')))"
proof -
  obtain e1 dps1 w1 where s: "ram_dataport_setup lib dps w = (e1, dps1, w1)" using prod_cases3 by blast
  have w1: "mapped w1 = mapped w" using records_mapsD(1) [OF assms(1), of dps w] s by simp
  obtain e2 w2 where m: "map_dataports lib dps1 w1 = (e2, w2)" by fastforce
  have ok: "e1 = 0" "e2 = 0" using assms(2) s m
    by (auto simp: init_ram_module_def ram_dataport_map_all_def split: if_splits)
  have w2: "mapped w2 = mapped w @ map port_mapping (fst (snd (ram_dataport_setup lib dps w)))"
    using map_dataports_records [OF assms(1) m] ok(2) w1 s by auto
  show ?thesis
  proof (cases "is_ram_region lib (ram_base cfg) (ram_size cfg) w2")
    case True
    then show ?thesis using assms(2) s m ok w2 by (simp add: init_ram_module_def ram_dataport_map_all_def)
  next
    case False
    obtain e3 w3 where g: "vm_ram_register_at lib (ram_base cfg) (ram_size cfg) (map_one_to_one cfg) w2 = (e3, w3)" by fastforce
    then have "mapped w3 = mapped w2" using records_mapsD(5) [OF assms(1), of "ram_base cfg" "ram_size cfg" "map_one_to_one cfg" w2] by simp
    moreover have "e3 = 0" "w' = w3" using assms(2) s m ok False g
      by (auto simp: init_ram_module_def ram_dataport_map_all_def split: if_splits)
    ultimately show ?thesis using w2 g by auto
  qed
qed

text \<open>A world that is the list of regions reserved and the list of mappings, with the library that fills it.\<close>

definition listing_ram :: "((u64 \<times> u64) list \<times> ram_mapping list) ram_lib" where
  "listing_ram = \<lparr>ram_dataport_setup = ram_dataport_setup_weak,
     vm_ram_reserve_at = (\<lambda>a n w. (Some (length (fst w)), fst w @ [(a, n)], snd w)),
     vm_map_reservation_frames = (\<lambda>r fs n b w. (0, fst w, snd w @ [(fst w ! r, fs, n, b)])),
     is_ram_region = (\<lambda>b n w. (b, n) \<in> set (fst w)), vm_ram_register_at = (\<lambda>b n o1 w. (0, w))\<rparr>"

theorem guest_ram_is_complete_witness:
  "let dps = [\<lparr>frames = replicate 16 7, num_frames = 16, frame_size_bits = 21, dp_addr = 0x40000000\<rparr>,
              \<lparr>frames = [9], num_frames = 1, frame_size_bits = 12, dp_addr = 0x60000000\<rparr>];
       cfg = \<lparr>ram_base = 0x40000000, ram_size = 0x2000000, map_one_to_one = False, generate_dtb = True\<rparr>
   in \<exists>w'. init_ram_module listing_ram cfg dps ([], []) = Inr w' \<and>
     snd w' = [((0x40000000, 0x2000000), replicate 16 7, 16, 21), ((0x60000000, 0x1000), [9], 1, 12)]"
proof -
  let ?dps = "[\<lparr>frames = replicate 16 7, num_frames = 16, frame_size_bits = 21, dp_addr = 0x40000000\<rparr>,
              \<lparr>frames = [9], num_frames = 1, frame_size_bits = 12, dp_addr = 0x60000000\<rparr>]"
  let ?cfg = "\<lparr>ram_base = 0x40000000, ram_size = 0x2000000, map_one_to_one = False, generate_dtb = True\<rparr>"
  have r: "records_maps listing_ram (\<lambda>w r. fst w ! r) snd"
    by (auto simp: records_maps_def listing_ram_def ram_dataport_setup_weak_def)
  have "\<exists>w'. init_ram_module listing_ram ?cfg ?dps ([], []) = Inr w'"
    by (simp add: init_ram_module_def ram_dataport_map_all_def listing_ram_def ram_dataport_setup_weak_def ram_dataport_map_def)
  then obtain w' where w': "init_ram_module listing_ram ?cfg ?dps ([], []) = Inr w'" by blast
  from guest_ram_is_complete [OF r this] have
    "snd w' = [((0x40000000, 0x2000000), replicate 16 7, 16, 21), ((0x60000000, 0x1000), [9], 1, 12)]"
    by (simp add: port_mapping_def listing_ram_def ram_dataport_setup_weak_def)
  with w' show ?thesis unfolding Let_def by blast
qed

end
