(* ===== verification/Rpc_Requests.thy ===== *)
theory Rpc_Requests
  imports Rpc_Protocol
begin

text \<open>
  Requests from the driver side to the device side and back, across the three parties of
  \<open>include/sel4/rpc.h\<close>: what a request overwrites, what happens when no slot is left,
  and what initialisation resets. The way of requests
  through the kernel module to the device and back is in \<open>Vm_System\<close> and the theories after it.
\<close>

unbundle bit_operations_syntax

subsection \<open>Two queues that share a table\<close>

lemma buffer_at_shared: "buffer r' = buffer r \<Longrightarrow> buffer_at mem r' = buffer_at mem r"
  by (simp add: buffer_at_def)

lemma rpc_ok_messages: "rpc_ok r mem \<Longrightarrow> length (messages (buffer_at mem r)) = RPCMSG_BUFFER_SIZE"
  by (simp add: rpc_ok_def ref_ok_def)

lemma queue_refs [simp]:
  "buffer driver_drvrpc_req = 0" "buffer device_drvrpc_req = 0" "buffer driver_drvrpc_resp = 0"
  "queue driver_drvrpc_req = 0" "queue device_drvrpc_req = 1" "queue driver_drvrpc_resp = 2"
  "device_km_drvrpc_req = driver_drvrpc_req" "device_drvrpc_resp = driver_drvrpc_resp"
  "device_km_drvrpc_resp = driver_drvrpc_resp"
  by (simp_all add: iobuf_ref_defs iobuf_layout_defs)

text \<open>The message in a slot of the driver's table.\<close>

definition msg_at :: "rpcmsg_iobuf \<Rightarrow> nat \<Rightarrow> rpcmsg" where
  "msg_at mem k = messages (buffer_at mem driver_drvrpc_req) ! k"

lemma msg_at_refs:
  "messages (buffer_at mem device_drvrpc_req) ! k = msg_at mem k"
  "messages (buffer_at mem driver_drvrpc_resp) ! k = msg_at mem k"
  by (simp_all add: msg_at_def buffer_at_def)

lemma with_msg_other: "k \<noteq> j \<Longrightarrow> messages (with_msg b k m) ! j = messages b ! j"
  by simp

lemma lent_nat: "j \<in> lent st \<Longrightarrow> j = int (nat j) \<and> nat j < RPCMSG_BUFFER_SIZE"
  by (auto simp: lent_def)

lemma lent_other: "int k \<notin> lent st \<Longrightarrow> j \<in> lent st \<Longrightarrow> k \<noteq> nat j"
  using lent_nat [of j st] by metis

text \<open>Initialising a queue, whatever it held.\<close>

lemma queue_init_flags_ok:
  assumes "queue r < length (queues mem)" "buffer r < length (buffers mem)"
  shows "queue_init_flags mem r RPCMSG_F_INIT_ALL =
      Inr (store_queue mem r (rpcmsg_queue_init (queue_at mem r)) (rpcmsg_buffer_init (buffer_at mem r)))"
    "queue_init_flags mem r RPCMSG_F_INIT_QUEUE =
      Inr (store_queue mem r (rpcmsg_queue_init (queue_at mem r)) (buffer_at mem r))"
  using assms
  by (simp_all add: queue_init_flags_def load_queue_def queue_at_def buffer_at_def RPCMSG_F_INIT_ALL_def
      RPCMSG_F_INIT_BUFFER_def RPCMSG_F_INIT_QUEUE_def)

text \<open>The layout of the shared pages, with any contents.\<close>

definition iobuf_shape :: "rpcmsg_iobuf \<Rightarrow> bool" where
  "iobuf_shape mem \<longleftrightarrow> length (queues mem) = queue_id_last \<and> length (buffers mem) = iobuf_id_last \<and>
     (\<forall>b \<in> set (buffers mem). length (messages b) = RPCMSG_BUFFER_SIZE) \<and>
     (\<forall>q \<in> set (queues mem). length (ring q) = RPCMSG_BUFFER_SIZE)"

lemma driver_init:
  assumes "iobuf_shape mem"
  shows "\<exists>mem'. vso_driver_rpc_init vso_rpc_driver drv mem =
      Inr (0, drv\<lparr>request := driver_drvrpc_req, response := driver_drvrpc_resp\<rparr>, mem') \<and>
    queues mem' = (queues mem)[0 := rpcmsg_queue_init (queues mem ! 0), 2 := rpcmsg_queue_init (queues mem ! 2)] \<and>
    buffers mem' = (buffers mem)[0 := rpcmsg_buffer_init (buffers mem ! 0)]"
proof -
  from assms have l: "length (queues mem) = 4" "length (buffers mem) = 2" by (simp_all add: iobuf_shape_def iobuf_layout_defs)
  have r: "buffer driver_drvrpc_req = 0" "queue driver_drvrpc_req = 0" "buffer driver_drvrpc_resp = 0" "queue driver_drvrpc_resp = 2"
    by simp_all
  show ?thesis
    using l by (simp add: vso_driver_rpc_init_def rpcmsg_call_queue_init_def rpcmsg_reply_queue_init_def queue_init_flags_ok
        store_queue_def queue_at_def buffer_at_def load_queue_def rpcmsg_buffer_init_def list_update_swap [of 2 0])
qed

lemma initialised_queue:
  assumes "queue r < length (queues mem)" "buffer r < length (buffers mem)" "queues mem ! queue r = rpcmsg_queue_init q"
    "length (messages (buffers mem ! buffer r)) = RPCMSG_BUFFER_SIZE"
  shows "rpc_ok r mem" "rpc_contents r mem = []"
  using assms queue_init_ok [of q] by (simp_all add: rpc_ok_def ref_ok_def rpc_contents_def queue_at_def buffer_at_def)

text \<open>
  Handles built on rings and tables that exist: the calling end gets an empty queue and a fresh table, an end that
  forwards or replies an empty queue on the table as it is, and the receiving end changes nothing.
\<close>

lemma queue_setup_ok:
  assumes "b < length (buffers mem)" "q < length (queues mem)"
  shows "\<exists>mem'. rpcmsg_call_queue mem b q = Inr (\<lparr>buffer = b, queue = q\<rparr>, mem') \<and> rpc_ok \<lparr>buffer = b, queue = q\<rparr> mem' \<and>
      rpc_contents \<lparr>buffer = b, queue = q\<rparr> mem' = []"
    "length (messages (buffers mem ! b)) = RPCMSG_BUFFER_SIZE \<Longrightarrow>
      \<exists>mem'. rpcmsg_fwd_queue mem b q = Inr (\<lparr>buffer = b, queue = q\<rparr>, mem') \<and> rpcmsg_reply_queue mem b q = Inr (\<lparr>buffer = b, queue = q\<rparr>, mem') \<and>
        rpc_ok \<lparr>buffer = b, queue = q\<rparr> mem' \<and> rpc_contents \<lparr>buffer = b, queue = q\<rparr> mem' = [] \<and> buffers mem' = buffers mem"
    "rpcmsg_recv_queue mem b q = Inr (\<lparr>buffer = b, queue = q\<rparr>, mem)" "rpcmsg_event_rxq mem b q = Inr (\<lparr>buffer = b, queue = q\<rparr>, mem)"
proof -
  let ?r = "\<lparr>buffer = b, queue = q\<rparr>"
  let ?m = "\<lambda>t. store_queue mem ?r (rpcmsg_queue_init (queues mem ! q)) t"
  note defs = rpcmsg_call_queue_def rpcmsg_fwd_queue_def rpcmsg_reply_queue_def rpcmsg_recv_queue_def rpcmsg_event_rxq_def queue_setup_def
    queue_init_flags_def load_queue_def Let_def RPCMSG_F_INIT_ALL_def RPCMSG_F_INIT_BUFFER_def RPCMSG_F_INIT_QUEUE_def
  have ini: "rpc_ok ?r (?m t) \<and> rpc_contents ?r (?m t) = []" if "length (messages t) = RPCMSG_BUFFER_SIZE" for t
    using initialised_queue [of ?r "?m t" "queues mem ! q"] assms that by (simp add: store_queue_def)
  show "\<exists>mem'. rpcmsg_call_queue mem b q = Inr (?r, mem') \<and> rpc_ok ?r mem' \<and> rpc_contents ?r mem' = []"
    using assms ini [of "rpcmsg_buffer_init (buffers mem ! b)"] by (simp add: defs rpcmsg_buffer_init_def)
  show "\<exists>mem'. rpcmsg_fwd_queue mem b q = Inr (?r, mem') \<and> rpcmsg_reply_queue mem b q = Inr (?r, mem') \<and>
      rpc_ok ?r mem' \<and> rpc_contents ?r mem' = [] \<and> buffers mem' = buffers mem" if "length (messages (buffers mem ! b)) = RPCMSG_BUFFER_SIZE"
    using assms ini [OF that] by (simp add: defs) (simp add: store_queue_def)
  show "rpcmsg_recv_queue mem b q = Inr (?r, mem)" "rpcmsg_event_rxq mem b q = Inr (?r, mem)"
    using assms by (simp_all add: defs store_queue_def)
qed

subsection \<open>Properties\<close>

text \<open>
  C16. What a request does, whatever else is under way. When every slot is lent, \<open>rpcmsg_request\<close>
  writes through a null pointer. Otherwise it returns, and of the message table it has changed exactly
  one entry, that of a slot that was not lent, which now holds the message; so every message whose
  slot is lent keeps its contents. When the queue had room, that slot has become lent and is last in
  the queue, and its number is returned. When the queue was full, -1 is returned and the lent
  slots and the queue are as before: the message is left behind in the free slot.
\<close>

theorem request_keeps_outstanding:
  assumes "state_ok st" "rpc_ok r mem"
  shows "if lent st = all_slots then rpcmsg_request bd r st mem m = Inl Null_deref
    else \<exists>k e st' mem'. rpcmsg_request bd r st mem m = Inr (e, st', mem') \<and> state_ok st' \<and> rpc_ok r mem' \<and>
      k < RPCMSG_BUFFER_SIZE \<and> int k \<notin> lent st \<and>
      messages (buffer_at mem' r) = (messages (buffer_at mem r))[k := m] \<and>
      (\<forall>j \<in> lent st. messages (buffer_at mem' r) ! nat j = messages (buffer_at mem r) ! nat j) \<and>
      (if length (rpc_contents r mem) < RPCMSG_BUFFER_SIZE
       then e = int k \<and> lent st' = insert e (lent st) \<and> rpc_contents r mem' = rpc_contents r mem @ [Some e]
       else e = -1 \<and> lent st' = lent st \<and> rpc_contents r mem' = rpc_contents r mem)"
proof (cases "lent st = all_slots")
  case True
  from assms(2) have "ref_ok r mem" by (simp add: rpc_ok_def)
  with request_exhausted [OF assms(1) True] True show ?thesis by simp
next
  case free: False
  have keep: "messages (with_msg (buffer_at mem r) k m) ! nat j = messages (buffer_at mem r) ! nat j"
    if "int k \<notin> lent st" "j \<in> lent st" for j k
    by (rule with_msg_other [OF lent_other [OF that]])
  show ?thesis
  proof (cases "length (rpc_contents r mem) < RPCMSG_BUFFER_SIZE")
    case True
    obtain k st' mem' where "k < RPCMSG_BUFFER_SIZE" "rpcmsg_request bd r st mem m = Inr (int k, st', mem')"
      "state_ok st'" "int k \<notin> lent st" "lent st' = insert (int k) (lent st)" "rpc_ok r mem'"
      "rpc_contents r mem' = rpc_contents r mem @ [Some (int k)]" "buffer_at mem' r = with_msg (buffer_at mem r) k m"
      using request_sent [OF assms free True, of bd m] by blast
    with free True keep [of k] show ?thesis by (simp only: if_False) (intro exI [of _ k], auto)
  next
    case False
    then have full: "length (rpc_contents r mem) = RPCMSG_BUFFER_SIZE"
      using rpc_ok_len [OF assms(2)] by simp
    obtain k st' where "k < RPCMSG_BUFFER_SIZE" "int k \<notin> lent st" "rpcmsg_request bd r st mem m =
        Inr (-1, st', store_queue mem r (queue_at mem r) (with_msg (buffer_at mem r) k m))" "state_ok st'" "lent st' = lent st"
      using request_queue_full_at [OF assms free full, of bd m] by blast
    with free False keep [of k] rpc_ok_write [OF assms(2), of k m] show ?thesis
      by (simp only: if_False) (intro exI [of _ k], auto)
  qed
qed

theorem request_keeps_outstanding_witness:
  "\<exists>e st' mem'. rpcmsg_request Userspace driver_drvrpc_req [0] boot_iobuf zero_msg = Inr (e, st', mem') \<and>
     rpc_contents driver_drvrpc_req mem' = [Some e]"
proof -
  have "lent [0] \<noteq> all_slots" using boot_state by (auto simp: all_slots_def RPCMSG_BUFFER_SIZE_def lessThan_empty_iff)
  with request_keeps_outstanding [OF boot_state(1) boot_refs(2), of Userspace zero_msg]
  show ?thesis using boot_refs(5) by (auto simp: RPCMSG_BUFFER_SIZE_def)
qed



text \<open>A handle of each side, with a doorbell that counts.\<close>

definition example_rpc :: "rpcmsg_rpc_queue \<Rightarrow> (unit, nat) vso_rpc" where
  "example_rpc req =
     \<lparr>driver_rpc = \<lparr>request = req, response = driver_drvrpc_resp, buffer_state = [0]\<rparr>,
      device_event = devevt_queue, doorbell = Some (\<lambda>c n. n + 1), doorbell_cookie = ()\<rparr>"

text \<open>
  Initialising the driver's end resets the request and response queues and the messages,
  whatever the pages held before. It resets nothing else: the kernel module's forward queue, the
  event queue and its messages, and the driver's own record of lent slots stay as they were.
\<close>

lemma driver_init_resets:
  assumes "iobuf_shape mem"
  shows "\<exists>r' mem'. vso_rpc_init (Some r) vso_rpc_driver (Some f) c mem = Inr (0, Some r', mem') \<and>
    request (driver_rpc r') = driver_drvrpc_req \<and> response (driver_rpc r') = driver_drvrpc_resp \<and>
    doorbell r' = Some f \<and> doorbell_cookie r' = c \<and> device_event r' = devevt_queue \<and>
    rpc_ok driver_drvrpc_req mem' \<and> rpc_contents driver_drvrpc_req mem' = [] \<and>
    rpc_ok driver_drvrpc_resp mem' \<and> rpc_contents driver_drvrpc_resp mem' = [] \<and>
    queues mem' ! queue_id_drvrpc_req_dev = queues mem ! queue_id_drvrpc_req_dev \<and>
    queues mem' ! queue_id_devevt = queues mem ! queue_id_devevt \<and>
    buffers mem' ! iobuf_id_devevt = buffers mem ! iobuf_id_devevt \<and>
    buffer_state (driver_rpc r') = buffer_state (driver_rpc r)"
proof -
  from driver_init [OF assms, of "driver_rpc r"] obtain mem' where
    i: "vso_driver_rpc_init vso_rpc_driver (driver_rpc r) mem =
        Inr (0, (driver_rpc r)\<lparr>request := driver_drvrpc_req, response := driver_drvrpc_resp\<rparr>, mem')"
      "queues mem' = (queues mem)[0 := rpcmsg_queue_init (queues mem ! 0), 2 := rpcmsg_queue_init (queues mem ! 2)]"
      "buffers mem' = (buffers mem)[0 := rpcmsg_buffer_init (buffers mem ! 0)]" by blast
  from assms have l: "length (queues mem) = 4" "length (buffers mem) = 2" by (simp_all add: iobuf_shape_def iobuf_layout_defs)
  have b: "length (messages (buffers mem' ! 0)) = RPCMSG_BUFFER_SIZE"
    using l by (simp add: i(3) rpcmsg_buffer_init_def)
  have "rpc_ok driver_drvrpc_req mem'" "rpc_contents driver_drvrpc_req mem' = []"
    "rpc_ok driver_drvrpc_resp mem'" "rpc_contents driver_drvrpc_resp mem' = []"
    using initialised_queue [of driver_drvrpc_req mem' "queues mem ! 0"] initialised_queue [of driver_drvrpc_resp mem' "queues mem ! 2"] l b
    by (simp_all add: i(2,3))
  with i(1) l show ?thesis
    by (simp add: vso_rpc_init_def i(2,3) iobuf_layout_defs)
qed

text \<open>Pages left behind by a run that stopped with a request in the queue.\<close>

definition stale_iobuf :: rpcmsg_iobuf where
  "stale_iobuf = boot_iobuf\<lparr>queues := replicate queue_id_last
     \<lparr>prod_b = \<lparr>tail = \<lparr>pos = 9, count = 4\<rparr>, head = \<lparr>pos = 7, count = 3\<rparr>\<rparr>, cons_b = zero_bound,
      ring = replicate RPCMSG_BUFFER_SIZE 5\<rparr>\<rparr>"

lemma driver_init_resets_witness:
  "iobuf_shape stale_iobuf \<and>
   (\<exists>r' mem'. vso_rpc_init (Some (example_rpc device_drvrpc_req)) vso_rpc_driver (Some (\<lambda>c n. n)) () stale_iobuf = Inr (0, Some r', mem') \<and>
     rpc_contents driver_drvrpc_req mem' = [] \<and> request (driver_rpc r') = driver_drvrpc_req)"
proof -
  have "iobuf_shape stale_iobuf"
    by (simp add: iobuf_shape_def stale_iobuf_def boot_iobuf_def)
  then show ?thesis
    using driver_init_resets [of stale_iobuf "example_rpc device_drvrpc_req" "\<lambda>c n. n" "()"] by blast
qed

end
