(* ===== verification/Virtio_Templates.thy ===== *)
theory Virtio_Templates
  imports Vm_Run Camkes_Modules Rpc_Requests
begin

text \<open>
  The code that the templates generate for one connection between a driver VM and a device VM:
  \<open>templates/seL4VirtIODriverVM.template.c\<close> (the proxies of the driver VM, their notification
  handler, their RAM) and \<open>templates/seL4VirtIODeviceVM.template.c\<close> (the connections of the device
  VM and the command line of its kernel). A template loop over the configured connections is a
  list; the functions CAmkES generates for a connection are a parameter.
\<close>

text \<open>An entry of the attributes \<open>vm_virtio_devices\<close> and \<open>vm_virtio_drivers\<close>.\<close>

record virtio_conn =
  conn_id :: u32
  conn_data_base :: u64
  conn_data_size :: u64
  conn_ctrl_base :: u64
  conn_ctrl_size :: u64

subsection \<open>The driver VM\<close>

record 'w ntfn_lib =
  ntfn_send_emit :: "nat \<Rightarrow> 'w \<Rightarrow> 'w"
  ntfn_recv_reg_callback :: "nat \<Rightarrow> 'w \<Rightarrow> int \<times> 'w"

text \<open>The cookie is the proxy of the connection.\<close>

definition vm_notify :: "'w ntfn_lib \<Rightarrow> proxy_ptr \<Rightarrow> 'w \<Rightarrow> 'w" where
  "vm_notify nl p w = ntfn_send_emit nl p w"

definition vm_ntfn_callback :: "'w ntfn_lib \<Rightarrow> 'w platform \<Rightarrow> proxy_ptr \<Rightarrow> 'w vmm \<Rightarrow> 'w vmm res" where
  "vm_ntfn_callback nl pf p vm =
     (case ntfn_recv_reg_callback nl p (ext vm) of (err, w) \<Rightarrow>
        asserting (err = 0)
          (andthen (of_loop (rpc_run pf p (vm\<lparr>ext := w\<rparr>))) (\<lambda>r.
           andthen r (\<lambda>(err, vm). if err \<noteq> 0 then Inl Fatal else Inr vm))))"

definition vm_io_proxy_run :: "'w ntfn_lib \<Rightarrow> 'w platform \<Rightarrow> 'w run_fn" where
  "vm_io_proxy_run nl pf p vm = andthen (vm_ntfn_callback nl pf p vm) (\<lambda>vm. Inr (0, vm))"

definition fdt_swiotlb_vm :: "virtio_conn \<Rightarrow> fdt_node" where
  "fdt_swiotlb_vm d =
     \<lparr>node_name = ''swiotlb'', compatible = Some ''restricted-dma-pool'', generated = False,
      generate = Some Generate_swiotlb, gpa = conn_data_base d, dp_size = conn_data_size d\<rparr>"

text \<open>
  The static initialiser. The queue pointers are filled in at run time; \<open>unset\<close> stands for their
  value until then, and \<open>page\<close> for the shared pages that \<open>iobuf_get\<close> returns.
\<close>

definition vm_io_proxy :: "'w ntfn_lib \<Rightarrow> rpcmsg_queue_ref \<Rightarrow> rpcmsg_iobuf \<Rightarrow> virtio_conn \<Rightarrow> 'w io_proxy" where
  "vm_io_proxy nl unset page d =
     \<lparr>ok_to_run = 0,
      rpc = \<lparr>driver_rpc = \<lparr>request = unset, response = unset, buffer_state = rpcmsg_buffer_state_init []\<rparr>,
             device_event = unset, doorbell = Some (vm_notify nl), doorbell_cookie = unat (conn_id d)\<rparr>,
      iobuf = page, data_base = conn_data_base d, data_size = conn_data_size d,
      ctrl_base = conn_ctrl_base d, ctrl_size = conn_ctrl_size d,
      ioacks = replicate NUM_IOACKS \<lparr>callback = None, ack_data = None\<rparr>\<rparr>"

text \<open>The capabilities CAmkES gives for a data port: the frames, how many, and their size.\<close>

record dataport_handle =
  get_frame_caps :: "seL4_Word list"
  get_num_frame_caps :: u64
  get_frame_size_bits :: u64

definition template_ram_dataport_setup ::
  "(virtio_conn \<Rightarrow> dataport_handle) \<Rightarrow> virtio_conn list \<Rightarrow> ram_dataport list \<Rightarrow> 'w \<Rightarrow> int \<times> ram_dataport list \<times> 'w" where
  "template_ram_dataport_setup memdev ds dps w =
     (0, map (\<lambda>d. \<lparr>frames = get_frame_caps (memdev d), num_frames = get_num_frame_caps (memdev d),
                    frame_size_bits = get_frame_size_bits (memdev d), dp_addr = conn_data_base d\<rparr>) ds, w)"

text \<open>The UART of \<open>templates/pl011.template.c\<close>: one page at the configured address.\<close>

definition template_pl011 :: "u64 \<Rightarrow> pl011" where
  "template_pl011 b = \<lparr>uart_base = b, uart_size = push_bit 12 1\<rparr>"

subsection \<open>The device VM\<close>

datatype conn_handle = Iobuf_handle u32 | Memdev_handle u32

record crossvm_connection =
  handle :: conn_handle
  emits :: "u32 option"
  consume_badge :: u64
  connection_name :: string

record 'w crossvm_lib =
  ntfn_recv_notification_badge :: "u32 \<Rightarrow> u64"
  register_async_event_handler :: "u64 \<Rightarrow> nat \<Rightarrow> 'w \<Rightarrow> int \<times> 'w"
  consume_connection_event :: "u64 \<Rightarrow> bool \<Rightarrow> 'w \<Rightarrow> 'w"
  cross_vm_connections_init :: "u64 \<Rightarrow> crossvm_connection list \<Rightarrow> 'w \<Rightarrow> int \<times> 'w"

datatype plat = Qemu_arm_virt | Bcm2711 | Other_plat

definition CONNECTION_BASE_ADDRESS :: "plat \<Rightarrow> u64" where
  "CONNECTION_BASE_ADDRESS pl =
     (case pl of Qemu_arm_virt \<Rightarrow> 0xC0000000 | Bcm2711 \<Rightarrow> 0x60000000 | Other_plat \<Rightarrow> 0x3F000000)"

definition connections :: "virtio_conn list \<Rightarrow> crossvm_connection list" where
  "connections ds =
     map (\<lambda>d. \<lparr>handle = Iobuf_handle (conn_id d), emits = Some (conn_id d), consume_badge = 16,
                connection_name = ''guest-iobuf-'' @ dec (unat (conn_id d))\<rparr>) ds @
     map (\<lambda>d. \<lparr>handle = Memdev_handle (conn_id d), emits = None, consume_badge = -1,
                connection_name = ''guest-ram-'' @ dec (unat (conn_id d))\<rparr>) ds"

definition consume_callback :: "'w crossvm_lib \<Rightarrow> crossvm_connection \<Rightarrow> 'w \<Rightarrow> int \<times> 'w" where
  "consume_callback cl c w = (0, consume_connection_event cl (consume_badge c) True w)"

text \<open>The unrolled part for the connections from index \<open>i\<close> on.\<close>

fun register_handlers ::
  "'w crossvm_lib \<Rightarrow> virtio_conn list \<Rightarrow> nat \<Rightarrow> crossvm_connection list \<Rightarrow> 'w \<Rightarrow> (crossvm_connection list \<times> 'w) res" where
  "register_handlers cl [] i cs w = Inr (cs, w)"
| "register_handlers cl (d # ds) i cs w =
     andthen (array_get cs i) (\<lambda>c.
       let badge = ntfn_recv_notification_badge cl (conn_id d);
           cs = cs[i := c\<lparr>consume_badge := badge\<rparr>]
       in case register_async_event_handler cl badge i w of (err, w) \<Rightarrow>
            if err \<noteq> 0 then Inl Fatal else register_handlers cl ds (Suc i) cs w)"

definition init_cross_vm_connections ::
  "'w crossvm_lib \<Rightarrow> plat \<Rightarrow> virtio_conn list \<Rightarrow> 'w \<Rightarrow> (crossvm_connection list \<times> 'w) res" where
  "init_cross_vm_connections cl pl ds w =
     andthen (register_handlers cl ds 0 (connections ds) w) (\<lambda>(cs, w).
       case cross_vm_connections_init cl (CONNECTION_BASE_ADDRESS pl) cs w of (err, w) \<Rightarrow>
         if err \<noteq> 0 then Inl Fatal else Inr (cs, w))"

text \<open>\<open>sprintf(p, " uservm=%u,0x%x,0x%x,0x%x,0x%x", ...)\<close>\<close>

definition uservm_arg :: "virtio_conn \<Rightarrow> string" where
  "uservm_arg d =
     '' uservm='' @ dec (unat (conn_id d)) @ '',0x'' @ hex (unat (conn_data_base d)) @ '',0x'' @ hex (unat (conn_data_size d)) @
     '',0x'' @ hex (unat (conn_ctrl_base d)) @ '',0x'' @ hex (unat (conn_ctrl_size d))"

text \<open>
  \<open>buf\<close> is the string in a buffer of \<open>room\<close> bytes; the code does not know the size and writes
  past the end of a buffer that is too small.
\<close>

fun append_vm_virtio_device_cmdline :: "nat \<Rightarrow> virtio_conn list \<Rightarrow> string \<Rightarrow> string res" where
  "append_vm_virtio_device_cmdline room [] buf = Inr buf"
| "append_vm_virtio_device_cmdline room (d # ds) buf =
     (let s = buf @ uservm_arg d in
      if length s \<ge> room then Inl Out_of_bounds else append_vm_virtio_device_cmdline room ds s)"

subsection \<open>The command line can be read back\<close>

lemma split_at_unique:
  assumes "x @ c # r = x' @ c # r'" "c \<notin> set x" "c \<notin> set x'"
  shows "x = x' \<and> r = r'"
proof -
  have "takeWhile (\<lambda>y. y \<noteq> c) (x @ c # r) = x" "takeWhile (\<lambda>y. y \<noteq> c) (x' @ c # r') = x'"
    using assms(2,3) by (subst takeWhile_append2; auto)+
  with assms(1) show ?thesis by auto
qed

lemma digits_in_base: "set (in_base b n) \<subseteq> set ''0123456789abcdef''" if "2 \<le> b" "b \<le> 16"
  using that
proof (induction b n rule: in_base.induct)
  case (1 b n)
  have d: "digit k \<in> set ''0123456789abcdef''" if "k < 16" for k
    unfolding digit_def using that by (intro nth_mem) simp
  show ?case
  proof (cases "n < b")
    case True
    then show ?thesis using d [of n] 1 by (subst in_base.simps) auto
  next
    case False
    have "n mod b < 16" using 1(2,3) by (metis less_le_trans mod_less_divisor not_numeral_le_zero zero_less_iff_neq_zero)
    then show ?thesis using d [of "n mod b"] 1 False by (subst in_base.simps) auto
  qed
qed

lemma no_separator: "CHR '','' \<notin> set (hex n)" "CHR '' '' \<notin> set (hex n)" "CHR '','' \<notin> set (dec n)" "CHR '' '' \<notin> set (dec n)"
  using digits_in_base [of 16 n] digits_in_base [of 10 n] by (auto simp: hex_def dec_def)

lemma dec_inject: "dec m = dec n \<longleftrightarrow> m = n"
proof
  have "read_base 10 (dec k) = k" for k unfolding dec_def by (rule read_in_base) simp_all
  then show "dec m = dec n \<Longrightarrow> m = n" by metis
qed simp

text \<open>An argument ends where the next one starts, at the end of the line or at a space.\<close>

definition starts_clean :: "string \<Rightarrow> bool" where
  "starts_clean r \<longleftrightarrow> r = [] \<or> hd r = CHR '' ''"

lemma last_field_unique:
  assumes "x @ r = x' @ r'" "CHR '' '' \<notin> set x" "CHR '' '' \<notin> set x'" "starts_clean r" "starts_clean r'"
  shows "x = x' \<and> r = r'"
proof -
  have t: "takeWhile (\<lambda>y. y \<noteq> CHR '' '') (z @ q) = z" if "CHR '' '' \<notin> set z" "starts_clean q" for z q
  proof (cases q)
    case (Cons y ys)
    then have "y = CHR '' ''" using that(2) by (simp add: starts_clean_def)
    then show ?thesis using that(1) Cons by (subst takeWhile_append2) auto
  qed (use that in \<open>auto simp: takeWhile_eq_all_conv\<close>)
  show ?thesis using t [OF assms(2,4)] t [OF assms(3,5)] assms(1) by auto
qed

lemma uservm_arg_unique:
  assumes "uservm_arg d @ r = uservm_arg d' @ r'" "starts_clean r" "starts_clean r'"
  shows "d = d' \<and> r = r'"
proof -
  let ?c = "CHR '',''"
  from assms(1) have "dec (unat (conn_id d)) @ ?c # ''0x'' @ hex (unat (conn_data_base d)) @ ?c # ''0x'' @ hex (unat (conn_data_size d)) @
      ?c # ''0x'' @ hex (unat (conn_ctrl_base d)) @ ?c # ''0x'' @ hex (unat (conn_ctrl_size d)) @ r =
    dec (unat (conn_id d')) @ ?c # ''0x'' @ hex (unat (conn_data_base d')) @ ?c # ''0x'' @ hex (unat (conn_data_size d')) @
      ?c # ''0x'' @ hex (unat (conn_ctrl_base d')) @ ?c # ''0x'' @ hex (unat (conn_ctrl_size d')) @ r'"
    by (simp add: uservm_arg_def)
  from split_at_unique [OF this no_separator(3) no_separator(3)]
  have i: "dec (unat (conn_id d)) = dec (unat (conn_id d'))" and
    r1: "hex (unat (conn_data_base d)) @ ?c # ''0x'' @ hex (unat (conn_data_size d)) @
      ?c # ''0x'' @ hex (unat (conn_ctrl_base d)) @ ?c # ''0x'' @ hex (unat (conn_ctrl_size d)) @ r =
    hex (unat (conn_data_base d')) @ ?c # ''0x'' @ hex (unat (conn_data_size d')) @
      ?c # ''0x'' @ hex (unat (conn_ctrl_base d')) @ ?c # ''0x'' @ hex (unat (conn_ctrl_size d')) @ r'" by simp_all
  from split_at_unique [OF r1 no_separator(1) no_separator(1)]
  have db: "hex (unat (conn_data_base d)) = hex (unat (conn_data_base d'))" and
    r2: "hex (unat (conn_data_size d)) @ ?c # ''0x'' @ hex (unat (conn_ctrl_base d)) @ ?c # ''0x'' @ hex (unat (conn_ctrl_size d)) @ r =
    hex (unat (conn_data_size d')) @ ?c # ''0x'' @ hex (unat (conn_ctrl_base d')) @ ?c # ''0x'' @ hex (unat (conn_ctrl_size d')) @ r'" by simp_all
  from split_at_unique [OF r2 no_separator(1) no_separator(1)]
  have ds: "hex (unat (conn_data_size d)) = hex (unat (conn_data_size d'))" and
    r3: "hex (unat (conn_ctrl_base d)) @ ?c # ''0x'' @ hex (unat (conn_ctrl_size d)) @ r =
    hex (unat (conn_ctrl_base d')) @ ?c # ''0x'' @ hex (unat (conn_ctrl_size d')) @ r'" by simp_all
  from split_at_unique [OF r3 no_separator(1) no_separator(1)]
  have cb: "hex (unat (conn_ctrl_base d)) = hex (unat (conn_ctrl_base d'))" and
    r4: "hex (unat (conn_ctrl_size d)) @ r = hex (unat (conn_ctrl_size d')) @ r'" by simp_all
  from last_field_unique [OF r4 no_separator(2) no_separator(2) assms(2,3)]
  show ?thesis using i db ds cb by (simp add: hex_inject dec_inject word_unat_eq_iff)
qed

lemma args_clean: "starts_clean (concat (map uservm_arg ds))"
  by (cases ds) (simp_all add: starts_clean_def uservm_arg_def)

lemma uservm_args_unique: "concat (map uservm_arg ds) = concat (map uservm_arg ds') \<Longrightarrow> ds = ds'"
proof (induction ds arbitrary: ds')
  case Nil
  then show ?case by (cases ds') (simp_all add: uservm_arg_def)
next
  case (Cons d ds)
  then obtain d' es where ds': "ds' = d' # es" by (cases ds') (simp_all add: uservm_arg_def)
  with Cons.prems uservm_arg_unique [of d _ d'] args_clean have "d = d'" "concat (map uservm_arg ds) = concat (map uservm_arg es)"
    by auto
  with Cons.IH ds' show ?case by simp
qed

lemma cmdline_appends:
  "append_vm_virtio_device_cmdline room ds buf =
     (if ds = [] \<or> length (buf @ concat (map uservm_arg ds)) < room then Inr (buf @ concat (map uservm_arg ds)) else Inl Out_of_bounds)"
  by (induction ds arbitrary: buf) (auto simp: Let_def)

text \<open>
  C30. The command line of the device VM's kernel describes the configured connections without
  loss: when the arguments fit the buffer they are appended behind what was there, in order, and
  two configurations with the same command line are the same; when they do not fit, the code
  writes past the end of the buffer.
\<close>

theorem cmdline_determines_connections:
  "append_vm_virtio_device_cmdline room ds buf =
     (if ds = [] \<or> length (buf @ concat (map uservm_arg ds)) < room then Inr (buf @ concat (map uservm_arg ds)) else Inl Out_of_bounds) \<and>
   (append_vm_virtio_device_cmdline room ds buf = Inr s \<longrightarrow>
     (\<forall>ds'. append_vm_virtio_device_cmdline room ds' buf = Inr s \<longleftrightarrow> ds' = ds))"
proof -
  have "ds' = ds" if "append_vm_virtio_device_cmdline room ds buf = Inr s" "append_vm_virtio_device_cmdline room ds' buf = Inr s" for ds'
    using that uservm_args_unique [of ds' ds] unfolding cmdline_appends by (auto split: if_splits)
  then show ?thesis using cmdline_appends by blast
qed

theorem cmdline_determines_connections_witness:
  "\<forall>ds'. append_vm_virtio_device_cmdline 256 ds' ''console=hvc0'' = Inr ''console=hvc0 uservm=1,0x60000000,0x100000,0x7e000000,0x1000'' \<longleftrightarrow> ds' =
       [\<lparr>conn_id = 1, conn_data_base = 0x60000000, conn_data_size = 0x100000, conn_ctrl_base = 0x7e000000, conn_ctrl_size = 0x1000\<rparr>]"
proof -
  let ?d = "\<lparr>conn_id = 1, conn_data_base = 0x60000000, conn_data_size = 0x100000, conn_ctrl_base = 0x7e000000, conn_ctrl_size = 0x1000\<rparr>"
  have "append_vm_virtio_device_cmdline 256 [?d] ''console=hvc0'' = Inr ''console=hvc0 uservm=1,0x60000000,0x100000,0x7e000000,0x1000''"
    by (simp add: uservm_arg_def hex_def dec_def in_base.simps digit_def)
  with cmdline_determines_connections [of 256 "[?d]" "''console=hvc0''"] show ?thesis by blast
qed

end
