(* ===== verification/Boot.thy ===== *)
theory Boot
  imports Virtio_Templates
begin

text \<open>
  Bringing a proxy up in the driver VM, from the static data of the template to the wait for the
  backend: the steps of \<open>libsel4vm_io_proxy_init\<close> one by one, with the first run of the
  notification handler that the template installs.
\<close>

text \<open>Libraries that have what a boot needs.\<close>

definition boots :: "'w platform \<Rightarrow> bool" where
  "boots pf \<longleftrightarrow> grants (env pf) \<and> (\<forall>s w. fst (sync_sem_new (env pf) s w) = 0) \<and> lists_ok (lists pf) \<and>
     (\<forall>l. fst (list_init_irq (lists pf) l) = 0) \<and> (\<forall>l. fst (list_init_mmio (lists pf) l) = 0)"

text \<open>The proxy after \<open>io_proxy_init\<close>: its queues reset, the events kept.\<close>

lemma io_proxy_init_succeeds:
  assumes "iobuf_shape (iobuf (proxies vm p))" "boots pf"
  shows "\<exists>mem w. io_proxy_init pf p vm = Inr ((set_proxy p ((proxies vm p)\<lparr>iobuf := mem,
      rpc := (rpc (proxies vm p))\<lparr>driver_rpc := (driver_rpc (rpc (proxies vm p)))\<lparr>request := driver_drvrpc_req, response := driver_drvrpc_resp\<rparr>,
        device_event := devevt_queue\<rparr>\<rparr>) vm)\<lparr>ext := w\<rparr>) \<and>
    rpc_ok driver_drvrpc_resp mem \<and> rpc_contents driver_drvrpc_resp mem = [] \<and>
    rpc_ok driver_drvrpc_req mem \<and> rpc_contents driver_drvrpc_req mem = [] \<and>
    event_ok devevt_queue mem = event_ok devevt_queue (iobuf (proxies vm p)) \<and>
    event_contents devevt_queue mem = event_contents devevt_queue (iobuf (proxies vm p)) \<and>
    (rpc_ok device_drvrpc_req (iobuf (proxies vm p)) \<longrightarrow> rpc_ok device_drvrpc_req mem) \<and>
    rpc_contents device_drvrpc_req mem = rpc_contents device_drvrpc_req (iobuf (proxies vm p))"
proof -
  let ?m = "iobuf (proxies vm p)"
  from driver_init [OF assms(1), of "driver_rpc (rpc (proxies vm p))"] obtain mem where
    i: "vso_driver_rpc_init vso_rpc_driver (driver_rpc (rpc (proxies vm p))) ?m =
        Inr (0, (driver_rpc (rpc (proxies vm p)))\<lparr>request := driver_drvrpc_req, response := driver_drvrpc_resp\<rparr>, mem)"
      "queues mem = (queues ?m)[0 := rpcmsg_queue_init (queues ?m ! 0), 2 := rpcmsg_queue_init (queues ?m ! 2)]"
      "buffers mem = (buffers ?m)[0 := rpcmsg_buffer_init (buffers ?m ! 0)]" by blast
  from assms(1) have l: "length (queues ?m) = 4" "length (buffers ?m) = 2" by (simp_all add: iobuf_shape_def iobuf_layout_defs)
  have b: "length (messages (buffers mem ! 0)) = RPCMSG_BUFFER_SIZE"
    using l by (simp add: i(3) rpcmsg_buffer_init_def)
  have q: "rpc_ok driver_drvrpc_req mem" "rpc_contents driver_drvrpc_req mem = []"
    "rpc_ok driver_drvrpc_resp mem" "rpc_contents driver_drvrpc_resp mem = []"
    using initialised_queue [of driver_drvrpc_req mem "queues ?m ! 0"] initialised_queue [of driver_drvrpc_resp mem "queues ?m ! 2"] l b
    by (simp_all add: i(2,3))
  have e: "queue_at mem devevt_queue = queue_at ?m devevt_queue" "buffer_at mem devevt_queue = buffer_at ?m devevt_queue"
    using l by (simp_all add: queue_at_def buffer_at_def i(2,3) iobuf_ref_defs iobuf_layout_defs)
  have ev: "event_ok devevt_queue mem = event_ok devevt_queue ?m" "event_contents devevt_queue mem = event_contents devevt_queue ?m"
    using l i(2,3) by (simp_all add: event_ok_def event_contents_def ref_ok_def e)
  obtain w where w: "sync_sem_new (env pf) (Backend_started p) (ext vm) = (0, w)"
    using assms(2) unfolding boots_def by (metis prod.collapse)
  have d: "queue_at mem device_drvrpc_req = queue_at ?m device_drvrpc_req"
    using l by (simp add: queue_at_def i(2) iobuf_ref_defs iobuf_layout_defs)
  then have dev: "rpc_ok device_drvrpc_req ?m \<longrightarrow> rpc_ok device_drvrpc_req mem"
    "rpc_contents device_drvrpc_req mem = rpc_contents device_drvrpc_req ?m"
    using l b by (auto simp: rpc_ok_def ref_ok_def rpc_contents_def buffer_at_def i(2,3) iobuf_ref_defs iobuf_layout_defs)
  show ?thesis
    using q ev dev by (intro exI [of _ mem] exI [of _ w]) (simp add: io_proxy_init_def i(1) w Let_def)
qed

subsection \<open>Interrupts\<close>

lemma irq_init_loop_succeeds:
  assumes "grants (env pf)" "i + n \<le> length (pci_intx vm)"
    "\<forall>k < i. sh_irq (pci_intx vm ! k) = intx_base (env pf) + of_nat k \<and> sources (pci_intx vm ! k) = 0"
  shows "\<exists>ls w. irq_init_loop pf i n vm = Inr (0, vm\<lparr>pci_intx := ls, ext := w\<rparr>) \<and> length ls = length (pci_intx vm) \<and>
    (\<forall>k < i + n. sh_irq (ls ! k) = intx_base (env pf) + of_nat k \<and> sources (ls ! k) = 0)"
  using assms(2,3)
proof (induction n arbitrary: i vm)
  case 0
  then show ?case by (intro exI [of _ "pci_intx vm"] exI [of _ "ext vm"]) simp
next
  case (Suc n)
  obtain w where r: "vm_register_irq (env pf) (boot_vcpu (env pf)) (intx_base (env pf) + of_nat i) Shared_irq_ack (ext vm) = (0, w)"
    using assms(1) unfolding grants_def by (metis prod.collapse)
  let ?l = "(pci_intx vm ! i)\<lparr>sh_vcpu := boot_vcpu (env pf), sh_irq := intx_base (env pf) + of_nat i, sources := 0\<rparr>"
  let ?vm = "vm\<lparr>pci_intx := (pci_intx vm)[i := ?l], ext := w\<rparr>"
  have step: "irq_init_loop pf i (Suc n) vm = irq_init_loop pf (Suc i) n ?vm"
    using Suc.prems(1) r by (simp add: shared_irq_line_init_def)
  have "\<forall>k < Suc i. sh_irq (pci_intx ?vm ! k) = intx_base (env pf) + of_nat k \<and> sources (pci_intx ?vm ! k) = 0"
    using Suc.prems by (auto simp: nth_list_update less_Suc_eq)
  from Suc.IH [of "Suc i" ?vm, OF _ this] Suc.prems(1) show ?case unfolding step by simp
qed

lemma irq_init_succeeds:
  assumes "grants (env pf)" "length (pci_intx vm) = PCI_NUM_PINS" "irq_done vm \<Longrightarrow> intx_wired pf vm"
  shows "\<exists>ls w d. irq_init pf vm = Inr (0, vm\<lparr>pci_intx := ls, ext := w, irq_done := d\<rparr>) \<and>
    intx_wired pf (vm\<lparr>pci_intx := ls, ext := w, irq_done := d\<rparr>) \<and> length ls = PCI_NUM_PINS \<and>
    (\<not> irq_done vm \<longrightarrow> (\<forall>line \<in> set ls. sources line = 0)) \<and> (irq_done vm \<longrightarrow> ls = pci_intx vm)"
proof (cases "irq_done vm")
  case True
  then show ?thesis using assms(2,3)
    by (intro exI [of _ "pci_intx vm"] exI [of _ "ext vm"] exI [of _ True]) (simp add: irq_init_def intx_wired_def)
next
  case False
  from irq_init_loop_succeeds [OF assms(1), of 0 PCI_NUM_PINS vm] assms(2) obtain ls w where
    "irq_init_loop pf 0 PCI_NUM_PINS vm = Inr (0, vm\<lparr>pci_intx := ls, ext := w\<rparr>)"
    "length ls = PCI_NUM_PINS" "\<forall>k < PCI_NUM_PINS. sh_irq (ls ! k) = intx_base (env pf) + of_nat k \<and> sources (ls ! k) = 0"
    by auto
  then show ?thesis using False
    by (intro exI [of _ ls] exI [of _ w] exI [of _ True]) (auto simp: irq_init_def intx_wired_def in_set_conv_nth)
qed

lemma msi_init_succeeds:
  assumes "grants (env pf)" "v2m_fits (v2m vm)"
  shows "\<exists>s w. msi_init pf vm = Inr (0, vm\<lparr>v2m := s, ext := w\<rparr>) \<and> v2m_ok s"
proof -
  have f: "unat (num_irq (v2m vm)) \<le> GICV2M_IRQ_MAX" "unat (irq_base (v2m vm)) + unat (num_irq (v2m vm)) \<le> 1020"
    "length (irq_lines (v2m vm)) = GICV2M_IRQ_MAX" using assms(2) by (simp_all add: v2m_fits_def)
  from v2m_init_outcome [OF f(3) _ assms(1), of "ext vm"] f(1,2) obtain s w where
    "v2m_init (env pf) (v2m vm) (ext vm) = Inr (0, s, w)" "v2m_ok s" by auto
  then show ?thesis by (intro exI [of _ s] exI [of _ w]) (simp add: msi_init_def)
qed

lemma emudev_init_succeeds:
  assumes "boots pf"
  shows "emudev_init pf vm = (0, vm\<lparr>emudev_vm := True, irqs := [], mmio_reservations := []\<rparr>)"
proof -
  obtain l where l: "list_init_irq (lists pf) (irqs vm) = (0, l)" using assms unfolding boots_def by (metis prod.collapse)
  obtain l' where l': "list_init_mmio (lists pf) (mmio_reservations vm) = (0, l')" using assms unfolding boots_def by (metis prod.collapse)
  have "l = []" "l' = []" using assms l l' unfolding boots_def lists_ok_def by blast+
  with l l' show ?thesis by (simp add: emudev_init_def irq_res_init_def mmio_res_init_def Let_def)
qed

subsection \<open>The first run of the notification handler\<close>

text \<open>What a start request leaves alone.\<close>

definition same_devices :: "proxy_ptr \<Rightarrow> 'w vmm \<Rightarrow> 'w vmm \<Rightarrow> bool" where
  "same_devices p vm vm' \<longleftrightarrow> v2m vm' = v2m vm \<and> pci_intx vm' = pci_intx vm \<and> pci_devs vm' = pci_devs vm \<and> irqs vm' = irqs vm \<and>
     mmio_reservations vm' = mmio_reservations vm \<and> irq_done vm' = irq_done vm \<and> emudev_vm vm' = emudev_vm vm \<and>
     natives vm' = natives vm \<and> free_native_slot vm' = free_native_slot vm \<and> (\<forall>q. q \<noteq> p \<longrightarrow> proxies vm' q = proxies vm q)"

lemma started_step:
  assumes ok: "proxy_ok p vm" and ev: "device_events p vm = m # ms" and op: "QEMU_OP (mr0 m) = QEMU_OP_START_VM"
  shows "\<exists>vm'. event_step pf p vm = Inr (Some (0, vm'), vm') \<and> proxy_ok p vm' \<and> device_events p vm' = ms \<and>
    ok_to_run (proxies vm' p) = 1 \<and> same_devices p vm vm'"
proof -
  let ?m = "iobuf (proxies vm p)" and ?e = "event_queue vm p"
  from ok have e: "event_ok ?e ?m" by (simp add: proxy_ok_def)
  have "event_contents ?e ?m = m # ms" using ev by (simp add: device_events_def)
  from event_rx_state [OF e this, of Userspace] obtain mem where
    mem: "rpcmsg_event_rx Userspace ?e ?m = Inr (0, Some m, mem)" by blast
  let ?vm = "started pf p (set_iobuf p mem vm)"
  have st: "event_step pf p vm = Inr (Some (0, ?vm), ?vm)"
    using mem process_start_vm [OF op, of pf p "set_iobuf p mem vm"] by (simp add: event_step_def Let_def)
  from event_loop.work [OF ok ev st] have "proxy_ok p ?vm" "device_events p ?vm = ms" by auto
  moreover have "ok_to_run (proxies ?vm p) = 1" "same_devices p vm ?vm"
    by (simp_all add: started_def same_devices_def set_iobuf_def)
  ultimately show ?thesis using st by blast
qed

lemma start_events:
  assumes "proxy_ok p vm" "\<forall>m \<in> set (device_events p vm). QEMU_OP (mr0 m) = QEMU_OP_START_VM"
  shows "\<exists>vm'. drain (event_step pf p) 0 vm = Some (Inr (0, vm')) \<and> proxy_ok p vm' \<and> device_events p vm' = [] \<and>
    ok_to_run (proxies vm' p) = (if device_events p vm = [] then ok_to_run (proxies vm p) else 1) \<and> same_devices p vm vm'"
  using assms
proof (induction "device_events p vm" arbitrary: vm)
  case Nil
  from Nil(2) have "event_ok (event_queue vm p) (iobuf (proxies vm p))" by (simp add: proxy_ok_def)
  from events.recv_none [OF this, of Userspace] Nil(1) have "event_step pf p vm = Inr (None, vm)"
    by (simp add: event_step_def Let_def device_events_def set_iobuf_same)
  then have "drain (event_step pf p) 0 vm = Some (Inr (0, vm))" by (subst drain.simps) simp
  then show ?case using Nil by (auto simp: same_devices_def)
next
  case (Cons m ms)
  have op: "QEMU_OP (mr0 m) = QEMU_OP_START_VM" using Cons.prems(2) Cons.hyps(2) by (metis list.set_intros(1))
  obtain vm1 where v: "event_step pf p vm = Inr (Some (0, vm1), vm1)" "proxy_ok p vm1" "device_events p vm1 = ms"
    "ok_to_run (proxies vm1 p) = 1" "same_devices p vm vm1"
    using started_step [OF Cons.prems(1) Cons.hyps(2) [symmetric] op] by blast
  have "\<forall>m \<in> set (device_events p vm1). QEMU_OP (mr0 m) = QEMU_OP_START_VM"
    using Cons.prems(2) Cons.hyps(2) v(3) by (metis list.set_intros(2))
  from Cons.hyps(1) [OF v(3) [symmetric] v(2) this] obtain vm2 where
    w: "drain (event_step pf p) 0 vm1 = Some (Inr (0, vm2))" "proxy_ok p vm2" "device_events p vm2 = []"
      "ok_to_run (proxies vm2 p) = (if device_events p vm1 = [] then ok_to_run (proxies vm1 p) else 1)" "same_devices p vm1 vm2" by blast
  have "drain (event_step pf p) 0 vm = Some (Inr (0, vm2))"
    using v(1) w(1) by (subst drain.simps) simp
  then show ?case using v w Cons.hyps(2) by (auto simp: same_devices_def split: if_splits)
qed

lemma proxy_run_start:
  assumes "proxy_ok p vm" "responses p vm = []" "\<forall>m \<in> set (device_events p vm). QEMU_OP (mr0 m) = QEMU_OP_START_VM"
    "\<forall>w. fst (ntfn_recv_reg_callback nl p w) = 0"
  shows "\<exists>vm'. vm_io_proxy_run nl pf p vm = Inr (0, vm') \<and> proxy_ok p vm' \<and> device_events p vm' = [] \<and>
    ok_to_run (proxies vm' p) = (if device_events p vm = [] then ok_to_run (proxies vm p) else 1) \<and> same_devices p vm vm'"
proof -
  obtain w where w: "ntfn_recv_reg_callback nl p (ext vm) = (0, w)" using assms(4) by (metis prod.collapse)
  let ?vm = "vm\<lparr>ext := w\<rparr>"
  have eq: "proxy_ok p ?vm" "responses p ?vm = []" "device_events p ?vm = device_events p vm"
    using assms(1,2) by (simp_all add: proxy_ok_def responses_def device_events_def)
  have "rpc_ok (resp_queue ?vm p) (iobuf (proxies ?vm p))" using eq(1) by (simp add: proxy_ok_def)
  from rpcmsg_receive_response_cases [OF this, of Userspace] eq(2) have "resp_step pf p ?vm = Inr (None, ?vm)"
    using set_iobuf_same [of p ?vm] by (simp add: resp_step_def Let_def responses_def)
  then have d: "drain (resp_step pf p) 0 ?vm = Some (Inr (0, ?vm))" by (subst drain.simps) simp
  obtain vm' where v: "drain (event_step pf p) 0 ?vm = Some (Inr (0, vm'))" "proxy_ok p vm'" "device_events p vm' = []"
    "ok_to_run (proxies vm' p) = (if device_events p ?vm = [] then ok_to_run (proxies ?vm p) else 1)" "same_devices p ?vm vm'"
    using start_events [OF eq(1)] assms(3) eq(3) by auto
  have "rpc_run pf p ?vm = Some (Inr (0, vm'))" using d v(1) by (simp add: rpc_run_def)
  then have "vm_io_proxy_run nl pf p vm = Inr (0, vm')"
    using w by (simp add: vm_io_proxy_run_def vm_ntfn_callback_def)
  then show ?thesis using v eq(3) by (simp add: same_devices_def)
qed

subsection \<open>The whole start-up\<close>

text \<open>A VMM that can bring proxy \<open>p\<close> up, with any contents of the rings but start events.\<close>

definition bootable :: "'w platform \<Rightarrow> 'w ntfn_lib \<Rightarrow> proxy_ptr \<Rightarrow> 'w vmm \<Rightarrow> bool" where
  "bootable pf nl p vm \<longleftrightarrow> boots pf \<and> (\<forall>w. fst (ntfn_recv_reg_callback nl p w) = 0) \<and>
     iobuf_shape (iobuf (proxies vm p)) \<and> event_ok devevt_queue (iobuf (proxies vm p)) \<and> state_ok (lending vm p) \<and>
     (\<forall>m \<in> set (event_contents devevt_queue (iobuf (proxies vm p))). QEMU_OP (mr0 m) = QEMU_OP_START_VM) \<and>
     length (pci_intx vm) = PCI_NUM_PINS \<and> (irq_done vm \<longrightarrow> intx_wired pf vm) \<and> v2m_fits (v2m vm)"

text \<open>
  What bringing proxy \<open>p\<close> up does to the rest of the VMM: other proxies, native threads and PCI devices stay, the interrupt pins
  are wired (and reset the first time), the MSI frame is set up, and nothing is reserved any more.
\<close>

definition booted :: "'w platform \<Rightarrow> proxy_ptr \<Rightarrow> 'w vmm \<Rightarrow> 'w vmm \<Rightarrow> bool" where
  "booted pf p vm vm' \<longleftrightarrow> (\<forall>q. q \<noteq> p \<longrightarrow> proxies vm' q = proxies vm q) \<and>
     natives vm' = natives vm \<and> free_native_slot vm' = free_native_slot vm \<and> pci_devs vm' = pci_devs vm \<and>
     length (pci_intx vm') = PCI_NUM_PINS \<and> (\<not> irq_done vm \<longrightarrow> (\<forall>line \<in> set (pci_intx vm'). sources line = 0)) \<and>
     (irq_done vm \<longrightarrow> pci_intx vm' = pci_intx vm) \<and> intx_wired pf vm' \<and> v2m_ok (v2m vm') \<and> emudev_vm vm' \<and> irqs vm' = [] \<and> mmio_reservations vm' = []"

lemma booted_frame: "booted pf p vm vm1 \<Longrightarrow> same_devices p vm1 vm2 \<Longrightarrow> booted pf p vm vm2"
  by (simp add: booted_def same_devices_def intx_wired_def)

text \<open>The state in which the initialisation of a proxy hands over to the notification handler.\<close>

lemma boot_prepares:
  assumes "bootable pf nl p vm"
  shows "\<exists>vm5 mem. (\<forall>run_fn. libsel4vm_io_proxy_init pf run_fn p vm =
      andthen (io_proxy_run run_fn p vm5) (\<lambda>(err, vm). if err \<noteq> 0 then Inr (-1, vm) else Inr (0, vm))) \<and>
    proxies vm5 p = (proxies vm p)\<lparr>iobuf := mem, rpc := (rpc (proxies vm p))\<lparr>driver_rpc := (driver_rpc (rpc (proxies vm p)))\<lparr>
      request := driver_drvrpc_req, response := driver_drvrpc_resp\<rparr>, device_event := devevt_queue\<rparr>\<rparr> \<and>
    rpc_ok driver_drvrpc_resp mem \<and> rpc_contents driver_drvrpc_resp mem = [] \<and>
    rpc_ok driver_drvrpc_req mem \<and> rpc_contents driver_drvrpc_req mem = [] \<and>
    (rpc_ok device_drvrpc_req (iobuf (proxies vm p)) \<longrightarrow> rpc_ok device_drvrpc_req mem) \<and>
    rpc_contents device_drvrpc_req mem = rpc_contents device_drvrpc_req (iobuf (proxies vm p)) \<and>
    event_ok devevt_queue mem \<and> event_contents devevt_queue mem = event_contents devevt_queue (iobuf (proxies vm p)) \<and>
    booted pf p vm vm5"
proof -
  note B = assms [unfolded bootable_def]
  let ?px = "proxies vm p"
  obtain mem w where i: "io_proxy_init pf p vm = Inr ((set_proxy p (?px\<lparr>iobuf := mem,
      rpc := (rpc ?px)\<lparr>driver_rpc := (driver_rpc (rpc ?px))\<lparr>request := driver_drvrpc_req, response := driver_drvrpc_resp\<rparr>,
        device_event := devevt_queue\<rparr>\<rparr>) vm)\<lparr>ext := w\<rparr>)" (is "_ = Inr ?vm1")
    "rpc_ok driver_drvrpc_resp mem" "rpc_contents driver_drvrpc_resp mem = []" "rpc_ok driver_drvrpc_req mem" "rpc_contents driver_drvrpc_req mem = []"
    "event_ok devevt_queue mem" "event_contents devevt_queue mem = event_contents devevt_queue (iobuf ?px)"
    "rpc_ok device_drvrpc_req (iobuf ?px) \<longrightarrow> rpc_ok device_drvrpc_req mem" "rpc_contents device_drvrpc_req mem = rpc_contents device_drvrpc_req (iobuf ?px)"
    using io_proxy_init_succeeds [of vm p pf] B by auto
  have g: "grants (env pf)" using B by (simp add: boots_def)
  obtain r w1 where r: "vm_reserve_memory_at (env pf) (ctrl_base (proxies ?vm1 p)) (ctrl_size (proxies ?vm1 p)) (Mmio_fault_handler p) w = (Some r, w1)"
    using g unfolding grants_def by (metis not_None_eq prod.collapse)
  let ?vm2 = "?vm1\<lparr>ext := w1\<rparr>"
  obtain ls w2 d where q: "irq_init pf ?vm2 = Inr (0, ?vm2\<lparr>pci_intx := ls, ext := w2, irq_done := d\<rparr>)"
    "intx_wired pf (?vm2\<lparr>pci_intx := ls, ext := w2, irq_done := d\<rparr>)" "length ls = PCI_NUM_PINS"
    "\<not> irq_done vm \<longrightarrow> (\<forall>line \<in> set ls. sources line = 0)" "irq_done vm \<longrightarrow> ls = pci_intx vm"
    using irq_init_succeeds [OF g, of ?vm2] B by (auto simp: intx_wired_def)
  let ?vm3 = "?vm2\<lparr>pci_intx := ls, ext := w2, irq_done := d\<rparr>"
  obtain s w3 where m: "msi_init pf ?vm3 = Inr (0, ?vm3\<lparr>v2m := s, ext := w3\<rparr>)" "v2m_ok s"
    using msi_init_succeeds [OF g, of ?vm3] B by auto
  let ?vm4 = "?vm3\<lparr>v2m := s, ext := w3\<rparr>"
  let ?vm5 = "?vm4\<lparr>emudev_vm := True, irqs := [], mmio_reservations := []\<rparr>"
  have e: "emudev_init pf ?vm4 = (0, ?vm5)" using emudev_init_succeeds B by blast
  have "libsel4vm_io_proxy_init pf run_fn p vm =
      andthen (io_proxy_run run_fn p ?vm5) (\<lambda>(err, vm). if err \<noteq> 0 then Inr (-1, vm) else Inr (0, vm))" for run_fn
    using r q(1) m(1) e by (simp add: libsel4vm_io_proxy_init_def i(1))
  moreover have "intx_wired pf ?vm5" using q(2) by (simp add: intx_wired_def)
  ultimately show ?thesis using i(2-) q(3-) m(2) by (intro exI [of _ ?vm5] exI [of _ mem]) (simp add: booted_def)
qed

lemma boot_succeeds:
  assumes "bootable pf nl p vm"
  shows "\<exists>vm'. libsel4vm_io_proxy_init pf (vm_io_proxy_run nl pf) p vm = Inr (0, vm') \<and> proxy_ok p vm' \<and>
    device_events p vm' = [] \<and> booted pf p vm vm' \<and>
    ok_to_run (proxies vm' p) =
      (if event_contents devevt_queue (iobuf (proxies vm p)) = [] then ok_to_run (proxies vm p) else 1)"
proof -
  let ?px = "proxies vm p"
  obtain vm5 mem where i: "\<forall>run_fn. libsel4vm_io_proxy_init pf run_fn p vm =
      andthen (io_proxy_run run_fn p vm5) (\<lambda>(err, vm). if err \<noteq> 0 then Inr (-1, vm) else Inr (0, vm))"
    "proxies vm5 p = ?px\<lparr>iobuf := mem, rpc := (rpc ?px)\<lparr>driver_rpc := (driver_rpc (rpc ?px))\<lparr>
      request := driver_drvrpc_req, response := driver_drvrpc_resp\<rparr>, device_event := devevt_queue\<rparr>\<rparr>"
    "rpc_ok driver_drvrpc_resp mem" "rpc_contents driver_drvrpc_resp mem = []" "event_ok devevt_queue mem"
    "event_contents devevt_queue mem = event_contents devevt_queue (iobuf ?px)"
    and dev: "booted pf p vm vm5"
    using boot_prepares [OF assms] by (elim exE conjE) (rule that; assumption)
  have p: "proxy_ok p vm5" "responses p vm5 = []" "device_events p vm5 = event_contents devevt_queue (iobuf ?px)"
    "ok_to_run (proxies vm5 p) = ok_to_run ?px"
    using i assms by (simp_all add: proxy_ok_def responses_def device_events_def bootable_def) (simp_all add: iobuf_ref_defs iobuf_layout_defs)
  have ev: "\<forall>m \<in> set (device_events p vm5). QEMU_OP (mr0 m) = QEMU_OP_START_VM" and cb: "\<forall>w. fst (ntfn_recv_reg_callback nl p w) = 0"
    unfolding p(3) using assms by (simp_all add: bootable_def)
  obtain vm' where v: "vm_io_proxy_run nl pf p vm5 = Inr (0, vm')" "proxy_ok p vm'" "device_events p vm' = []"
    "ok_to_run (proxies vm' p) = (if device_events p vm5 = [] then ok_to_run (proxies vm5 p) else 1)" "same_devices p vm5 vm'"
    using proxy_run_start [OF p(1,2) ev cb, of pf] by blast
  have "libsel4vm_io_proxy_init pf (vm_io_proxy_run nl pf) p vm = Inr (0, vm')" using v(1) by (simp add: i(1) io_proxy_run_def)
  moreover note booted_frame [OF dev v(5)]
  ultimately show ?thesis using v p(3,4) by auto
qed

text \<open>Writing a queue keeps the layout of the pages.\<close>

lemma shape_store:
  assumes "iobuf_shape mem" "length (ring q) = RPCMSG_BUFFER_SIZE" "length (messages b) = RPCMSG_BUFFER_SIZE"
  shows "iobuf_shape (store_queue mem r q b)"
  using assms set_update_subset_insert [of "queues mem" "queue r" q] set_update_subset_insert [of "buffers mem" "buffer r" b]
  by (auto simp: iobuf_shape_def store_queue_def)

lemma shape_boot: "iobuf_shape boot_iobuf"
  by (simp add: iobuf_shape_def boot_iobuf_def)

text \<open>A driver VM as the template initialises it, on the given pages.\<close>

definition example_ntfn :: "unit ntfn_lib" where
  "example_ntfn = \<lparr>ntfn_send_emit = (\<lambda>p w. w), ntfn_recv_reg_callback = (\<lambda>p w. (0, w))\<rparr>"

definition example_conn :: virtio_conn where
  "example_conn = \<lparr>conn_id = 1, conn_data_base = 0x60000000, conn_data_size = 0x100000, conn_ctrl_base = 0x7e000000, conn_ctrl_size = 0x1000\<rparr>"

definition template_vmm :: "rpcmsg_iobuf \<Rightarrow> unit vmm" where
  "template_vmm page = (boot_vmm ())\<lparr>proxies := (\<lambda>_. vm_io_proxy example_ntfn devevt_queue page example_conn),
     irq_done := False, v2m := v2m_rpi4, emudev_vm := False\<rparr>"

lemma idle_boots: "boots idle_platform"
proof -
  have e: "env idle_platform = idle_env" "lists idle_platform = ample_lists" by (simp_all add: idle_platform_def)
  have "fst (sync_sem_new idle_env s w) = 0" for s w by (simp add: idle_env_def)
  moreover have "fst (list_init_irq ample_lists l) = 0" "fst (list_init_mmio ample_lists l') = 0" for l l'
    by (simp_all add: ample_lists_def)
  ultimately show ?thesis unfolding boots_def e using idle_grants ample_lists_ok by blast
qed

lemma template_bootable:
  assumes "iobuf_shape page" "event_ok devevt_queue page" "\<forall>m \<in> set (event_contents devevt_queue page). QEMU_OP (mr0 m) = QEMU_OP_START_VM"
  shows "bootable idle_platform example_ntfn p (template_vmm page)"
  using assms idle_boots
  by (simp add: bootable_def template_vmm_def vm_io_proxy_def example_ntfn_def boot_vmm_def PCI_NUM_PINS_def rpcmsg_buffer_state_init_def
      state_ok_def v2m_fits_def v2m_rpi4_def GICV2M_IRQ_MAX_def)

text \<open>Pages on which the backend has already asked for the start.\<close>

lemma start_page:
  "\<exists>page. rpcmsg_event_tx Userspace devevt_queue boot_iobuf (zero_msg\<lparr>mr0 := 18\<rparr>) = Inr (0, page) \<and> iobuf_shape page \<and>
    event_ok devevt_queue page \<and> event_contents devevt_queue page = [zero_msg\<lparr>mr0 := 18\<rparr>]"
proof -
  let ?q = "queue_at boot_iobuf devevt_queue" and ?b = "buffer_at boot_iobuf devevt_queue"
  have room: "queue_len ?q < RPCMSG_BUFFER_SIZE"
    using event_ok_len [OF boot_refs(1)] boot_refs(4) by (simp add: RPCMSG_BUFFER_SIZE_def)
  obtain page where p: "rpcmsg_event_tx Userspace devevt_queue boot_iobuf (zero_msg\<lparr>mr0 := 18\<rparr>) = Inr (0, page)"
    "event_ok devevt_queue page" "event_contents devevt_queue page = [zero_msg\<lparr>mr0 := 18\<rparr>]"
    using event_tx_room_state [OF boot_refs(1) room, of Userspace "zero_msg\<lparr>mr0 := 18\<rparr>"] boot_refs(4) by auto
  have "ref_ok devevt_queue boot_iobuf" using boot_refs(1) by (simp add: event_ok_def)
  then have "length (ring ?q) = RPCMSG_BUFFER_SIZE" "length (messages ?b) = RPCMSG_BUFFER_SIZE"
    by (simp_all add: ref_ok_def queue_ok_def)
  then have "iobuf_shape page"
    using event_tx_room [OF boot_refs(1) room, of Userspace "zero_msg\<lparr>mr0 := 18\<rparr>"] p(1)
    by (auto intro!: shape_store shape_boot simp: push_id_def Let_def)
  with p show ?thesis by blast
qed

lemma start_op: "QEMU_OP 18 = QEMU_OP_START_VM"
  by (simp add: QEMU_OP_def QEMU_OP_START_VM_def BIT_FIELD_GET_def BIT_FIELD_MASK_def MASK_def mr0_field_defs)

end
