(* ===== verification/Rpc_Pages.thy ===== *)
theory Rpc_Pages
  imports Rpc_Requests
begin

text \<open>
  The shared pages as places where messages wait. A message of the driver's table is named by its
  number; the request queue, the queue from the kernel module to the device and the response
  queue hold numbers in order. Every operation of the three parties moves a number from one
  place to another, and the lemmas say which and what it leaves alone, for pages in any state.
\<close>

definition places :: "rpcmsg_rpc_queue set" where
  "places = {driver_drvrpc_req, device_drvrpc_req, driver_drvrpc_resp}"

lemma in_places [simp, intro]:
  "driver_drvrpc_req \<in> places" "device_drvrpc_req \<in> places" "driver_drvrpc_resp \<in> places"
  by (simp_all add: places_def)

lemma places_distinct [simp]:
  "driver_drvrpc_req \<noteq> device_drvrpc_req" "device_drvrpc_req \<noteq> driver_drvrpc_req"
  "driver_drvrpc_req \<noteq> driver_drvrpc_resp" "driver_drvrpc_resp \<noteq> driver_drvrpc_req"
  "device_drvrpc_req \<noteq> driver_drvrpc_resp" "driver_drvrpc_resp \<noteq> device_drvrpc_req"
  by (simp_all add: iobuf_ref_defs iobuf_layout_defs)

lemma places_queues:
  assumes "r \<in> places" "r' \<in> places" "r' \<noteq> r"
  shows "queue r' \<noteq> queue r"
  using assms by (auto simp: places_def)

lemma places_events:
  assumes "r \<in> places"
  shows "queue r \<noteq> queue devevt_queue" "buffer r \<noteq> buffer devevt_queue"
  using assms by (auto simp: places_def) (simp_all add: iobuf_ref_defs iobuf_layout_defs)

lemma places_buffer: "r \<in> places \<Longrightarrow> buffer r = 0"
  by (auto simp: places_def)

text \<open>The numbers that wait in a queue.\<close>

definition ids :: "rpcmsg_rpc_queue \<Rightarrow> rpcmsg_iobuf \<Rightarrow> nat list" where
  "ids r mem = map unat (queue_ids (queue_at mem r))"

lemma contents_ids: "rpc_contents r mem = map (\<lambda>k. Some (int k)) (ids r mem)"
  by (simp add: rpc_contents_def ids_def)

lemma ids_of_contents: "rpc_contents r mem = map (\<lambda>k. Some (int k)) ks \<longleftrightarrow> ids r mem = ks"
proof -
  have "inj (\<lambda>k. Some (int k))" by (auto intro: injI)
  then show ?thesis unfolding contents_ids by (simp add: inj_map_eq_map)
qed

lemma ids_cong: "rpc_contents r mem' = rpc_contents r mem \<Longrightarrow> ids r mem' = ids r mem"
  unfolding contents_ids [of r mem] ids_of_contents .

definition pages_ok :: "rpcmsg_iobuf \<Rightarrow> bool" where
  "pages_ok mem \<longleftrightarrow> (\<forall>r \<in> places. rpc_ok r mem) \<and> event_ok devevt_queue mem"

lemma pages_ok_rpc: "pages_ok mem \<Longrightarrow> r \<in> places \<Longrightarrow> rpc_ok r mem"
  by (simp add: pages_ok_def)

lemma pages_ok_messages: "pages_ok mem \<Longrightarrow> r \<in> places \<Longrightarrow> length (messages (buffer_at mem r)) = RPCMSG_BUFFER_SIZE"
  by (rule rpc_ok_messages [OF pages_ok_rpc])

lemma ids_less: "pages_ok mem \<Longrightarrow> r \<in> places \<Longrightarrow> k \<in> set (ids r mem) \<Longrightarrow> k < RPCMSG_BUFFER_SIZE"
  by (auto simp: pages_ok_def rpc_ok_def ids_def)

lemma msg_at_place: "r \<in> places \<Longrightarrow> messages (buffer_at mem r) ! k = msg_at mem k"
  by (simp add: msg_at_def buffer_at_def places_buffer)

text \<open>The effect of an operation: queue \<open>r\<close> holds \<open>ks\<close> afterwards, the other queues and the events are as before.\<close>

definition moved :: "rpcmsg_rpc_queue \<Rightarrow> nat list \<Rightarrow> rpcmsg_iobuf \<Rightarrow> rpcmsg_iobuf \<Rightarrow> bool" where
  "moved r ks mem mem' \<longleftrightarrow> pages_ok mem' \<and> ids r mem' = ks \<and> (\<forall>r' \<in> places. r' \<noteq> r \<longrightarrow> ids r' mem' = ids r' mem) \<and>
     event_contents devevt_queue mem' = event_contents devevt_queue mem"

lemma movedD:
  assumes "moved r ks mem mem'"
  shows "pages_ok mem'" "ids r mem' = ks" "\<And>r'. r' \<in> places \<Longrightarrow> r' \<noteq> r \<Longrightarrow> ids r' mem' = ids r' mem"
    "event_contents devevt_queue mem' = event_contents devevt_queue mem"
  using assms by (auto simp: moved_def)

lemma moved_store:
  assumes "pages_ok mem" "r \<in> places" "rpc_ok r (store_queue mem r q b)" "length (messages b) = RPCMSG_BUFFER_SIZE"
    and c: "rpc_contents r (store_queue mem r q b) = map (\<lambda>k. Some (int k)) ks"
  shows "moved r ks mem (store_queue mem r q b)"
proof -
  have f: "rpc_ok r' (store_queue mem r q b)" "ids r' (store_queue mem r q b) = ids r' mem" if "r' \<in> places" "r' \<noteq> r" for r'
    using rpc_frame [OF pages_ok_rpc [OF assms(1) that(1)] places_queues [OF assms(2) that] assms(4)]
    by (auto intro: ids_cong)
  then have "rpc_ok r' (store_queue mem r q b)" if "r' \<in> places" for r' using that assms(3) by (cases "r' = r") auto
  with f other_queue(1,2) [OF places_events [OF assms(2)]] assms(1) c show ?thesis
    by (auto simp: moved_def pages_ok_def ids_of_contents)
qed

lemma msg_at_store:
  assumes "pages_ok mem" "r \<in> places"
  shows "msg_at (store_queue mem r q (buffer_at mem r)) = msg_at mem"
    "k < RPCMSG_BUFFER_SIZE \<Longrightarrow> msg_at (store_queue mem r q (with_msg (buffer_at mem r) k m)) = (msg_at mem)(k := m)"
proof -
  have l: "0 < length (buffers mem)" "length (messages (buffers mem ! 0)) = RPCMSG_BUFFER_SIZE"
    using assms places_buffer [OF assms(2)] by (auto simp: pages_ok_def rpc_ok_def ref_ok_def buffer_at_def)
  then show "msg_at (store_queue mem r q (buffer_at mem r)) = msg_at mem"
    "k < RPCMSG_BUFFER_SIZE \<Longrightarrow> msg_at (store_queue mem r q (with_msg (buffer_at mem r) k m)) = (msg_at mem)(k := m)"
    using places_buffer [OF assms(2)] by (auto simp: fun_eq_iff msg_at_def buffer_at_def store_queue_def nth_list_update not_less)
qed

subsection \<open>Operations as moves\<close>

lemma page_dequeue:
  assumes "pages_ok mem" "r \<in> places" "ids r mem = k # ks"
  shows "\<exists>mem'. rpcmsg_receive bd r mem = Inr (Some (int k), mem') \<and>
    rpcmsg_receive_response bd r mem = Inr (Some (int k), Some (of_nat k), mem') \<and>
    moved r ks mem mem' \<and> msg_at mem' = msg_at mem"
proof -
  note ok = pages_ok_rpc [OF assms(1,2)]
  have c: "rpc_contents r mem = Some (int k) # map (\<lambda>k. Some (int k)) ks" using assms(3) by (simp add: contents_ids)
  note d = rpc_dequeue_state [OF ok c]
  let ?mem = "store_queue mem r (pop_id (queue_at mem r)) (buffer_at mem r)"
  have "moved r ks mem ?mem"
    by (rule moved_store [OF assms(1,2) d(2) pages_ok_messages [OF assms(1,2)] d(3)])
  moreover have "msg_at ?mem = msg_at mem" by (rule msg_at_store(1) [OF assms(1,2)])
  ultimately show ?thesis
    using rpcmsg_receive_cases [OF ok, of bd] rpcmsg_receive_response_cases [OF ok, of bd] c by simp
qed

lemma page_dequeue_empty:
  assumes "pages_ok mem" "r \<in> places" "ids r mem = []"
  shows "rpcmsg_receive bd r mem = Inr (None, mem)" "rpcmsg_receive_response bd r mem = Inr (None, None, mem)"
  using rpcmsg_receive_cases [OF pages_ok_rpc [OF assms(1,2)], of bd]
    rpcmsg_receive_response_cases [OF pages_ok_rpc [OF assms(1,2)], of bd] assms(3) by (simp_all add: contents_ids)

lemma page_enqueue:
  assumes "pages_ok mem" "r \<in> places" "k < RPCMSG_BUFFER_SIZE" "length (ids r mem) < RPCMSG_BUFFER_SIZE"
  shows "\<exists>mem'. rpc_enqueue bd r mem (Some (int k)) = Inr (0, mem') \<and> moved r (ids r mem @ [k]) mem mem' \<and> msg_at mem' = msg_at mem"
proof -
  note ok = pages_ok_rpc [OF assms(1,2)]
  have room: "queue_len (queue_at mem r) < RPCMSG_BUFFER_SIZE" using assms(4) rpc_ok_len [OF ok] by (simp add: contents_ids)
  let ?mem = "store_queue mem r (push_id (queue_at mem r) (of_nat k)) (buffer_at mem r)"
  note p = rpc_contents_push [OF ok room assms(3) pages_ok_messages [OF assms(1,2)]]
  have "moved r (ids r mem @ [k]) mem ?mem"
    by (rule moved_store [OF assms(1,2) p(1) pages_ok_messages [OF assms(1,2)]]) (simp only: p(2) contents_ids [of r mem] map_append list.map)
  then show ?thesis using rpc_enqueue_room [OF ok room assms(3), of bd] msg_at_store(1) [OF assms(1,2)] by blast
qed

lemma page_forward:
  assumes "pages_ok mem" "request (driver_rpc dst) \<in> places" "k < RPCMSG_BUFFER_SIZE" "length (ids (request (driver_rpc dst)) mem) < RPCMSG_BUFFER_SIZE"
  shows "\<exists>mem'. driver_rpc_request_fwd bd dst mem (Some (int k)) = Inr (0, mem') \<and>
    moved (request (driver_rpc dst)) (ids (request (driver_rpc dst)) mem @ [k]) mem mem' \<and> msg_at mem' = msg_at mem"
  using page_enqueue [OF assms, of bd] by (simp add: driver_rpc_request_fwd_def rpcmsg_forward_def)

lemma page_write:
  assumes "pages_ok mem" "r \<in> places"
  shows "moved r (ids r mem) mem (store_queue mem r (queue_at mem r) (with_msg (buffer_at mem r) k m))"
  using rpc_ok_write [OF pages_ok_rpc [OF assms], of k m] pages_ok_messages [OF assms]
  by (intro moved_store [OF assms]) (simp_all add: contents_ids)

lemma moved_trans: "moved r ks mem mem1 \<Longrightarrow> moved r ks' mem1 mem2 \<Longrightarrow> moved r ks' mem mem2"
  by (simp add: moved_def)

lemma page_ack:
  assumes "pages_ok mem" "response (driver_rpc dev) = driver_drvrpc_resp" "k < RPCMSG_BUFFER_SIZE"
    "length (ids driver_drvrpc_resp mem) < RPCMSG_BUFFER_SIZE"
  shows "\<exists>mem'. driver_rpc_ack_mmio_finish bd dev mem w (Some (int k)) data =
      (case vso_doorbell (Some dev) w of (rc, w') \<Rightarrow> Inr (rc, mem', w')) \<and>
    moved driver_drvrpc_resp (ids driver_drvrpc_resp mem @ [k]) mem mem' \<and> msg_at mem' = (msg_at mem)(k := (msg_at mem k)\<lparr>mr2 := data\<rparr>)"
proof -
  let ?r = driver_drvrpc_resp
  let ?m = "(msg_at mem k)\<lparr>mr2 := data\<rparr>"
  let ?mem1 = "store_queue mem ?r (queue_at mem ?r) (with_msg (buffer_at mem ?r) k ?m)"
  note len = pages_ok_messages [OF assms(1) in_places(3)]
  have ref: "ref_ok ?r mem" using pages_ok_rpc [OF assms(1) in_places(3)] by (simp add: rpc_ok_def)
  note w1 = page_write [OF assms(1) in_places(3), of k ?m]
  have "length (ids ?r ?mem1) < RPCMSG_BUFFER_SIZE" using movedD(2) [OF w1] assms(4) by simp
  from page_enqueue [OF movedD(1) [OF w1] in_places(3) assms(3) this, of bd] movedD(2) [OF w1] obtain mem' where
    e: "rpc_enqueue bd ?r ?mem1 (Some (int k)) = Inr (0, mem')" "moved ?r (ids ?r mem @ [k]) ?mem1 mem'" "msg_at mem' = msg_at ?mem1" by auto
  have "driver_rpc_ack_mmio_finish bd dev mem w (Some (int k)) data = (case vso_doorbell (Some dev) w of (rc, w') \<Rightarrow> Inr (rc, mem', w'))"
    using e(1) assms(3) len
    by (simp add: driver_rpc_ack_mmio_finish_def assms(2) load_queue_ok [OF ref] read_msg_def write_msg_ok msg_at_place
        driver_rpc_reply_def rpcmsg_reply_def)
  then show ?thesis using moved_trans [OF w1 e(2)] e(3) msg_at_store(2) [OF assms(1) in_places(3)] assms(3) by auto
qed

lemma page_request:
  assumes "pages_ok mem" "state_ok st" "lent st \<noteq> all_slots" "length (ids driver_drvrpc_req mem) < RPCMSG_BUFFER_SIZE"
  shows "\<exists>k st' mem'. k < RPCMSG_BUFFER_SIZE \<and> rpcmsg_request bd driver_drvrpc_req st mem m = Inr (int k, st', mem') \<and>
    state_ok st' \<and> int k \<notin> lent st \<and> lent st' = insert (int k) (lent st) \<and>
    moved driver_drvrpc_req (ids driver_drvrpc_req mem @ [k]) mem mem' \<and> msg_at mem' = (msg_at mem)(k := m)"
proof -
  let ?r = driver_drvrpc_req
  note ok = pages_ok_rpc [OF assms(1) in_places(1)]
  have room: "length (rpc_contents ?r mem) < RPCMSG_BUFFER_SIZE" using assms(4) by (simp add: contents_ids)
  obtain k st' where k: "k < RPCMSG_BUFFER_SIZE" "rpcmsg_request bd ?r st mem m =
      Inr (int k, st', store_queue mem ?r (push_id (queue_at mem ?r) (of_nat k)) (with_msg (buffer_at mem ?r) k m))"
    "state_ok st'" "int k \<notin> lent st" "lent st' = insert (int k) (lent st)"
    using request_sent_at [OF assms(2) ok assms(3) room, of bd m] by blast
  let ?mem = "store_queue mem ?r (push_id (queue_at mem ?r) (of_nat k)) (with_msg (buffer_at mem ?r) k m)"
  have len: "length (messages (with_msg (buffer_at mem ?r) k m)) = RPCMSG_BUFFER_SIZE" using pages_ok_messages [OF assms(1) in_places(1)] by simp
  have "queue_len (queue_at mem ?r) < RPCMSG_BUFFER_SIZE" using room rpc_ok_len [OF ok] by simp
  note p = rpc_contents_push [OF ok this k(1) len]
  have "moved ?r (ids ?r mem @ [k]) mem ?mem" by (rule moved_store [OF assms(1) in_places(1) p(1) len]) (simp only: p(2) contents_ids [of ?r mem] map_append list.map)
  with k msg_at_store(2) [OF assms(1) in_places(1)] show ?thesis by auto
qed

text \<open>Events use a table and a ring of their own.\<close>

lemma event_store:
  assumes "pages_ok mem" "event_ok devevt_queue (store_queue mem devevt_queue q b)"
  shows "pages_ok (store_queue mem devevt_queue q b)" "r \<in> places \<Longrightarrow> ids r (store_queue mem devevt_queue q b) = ids r mem"
    "msg_at (store_queue mem devevt_queue q b) = msg_at mem"
proof -
  have f: "rpc_ok r (store_queue mem devevt_queue q b) = rpc_ok r mem" "ids r (store_queue mem devevt_queue q b) = ids r mem" if "r \<in> places" for r
    using other_queue(3,4) [of devevt_queue r mem q b] places_events [OF that] by (auto intro: ids_cong)
  then show "pages_ok (store_queue mem devevt_queue q b)" "r \<in> places \<Longrightarrow> ids r (store_queue mem devevt_queue q b) = ids r mem"
    using assms by (auto simp: pages_ok_def)
  show "msg_at (store_queue mem devevt_queue q b) = msg_at mem"
    by (simp add: fun_eq_iff msg_at_def buffer_at_def store_queue_def) (simp add: iobuf_ref_defs iobuf_layout_defs)
qed

lemma page_event_tx:
  assumes "pages_ok mem" "rpcmsg_event_tx bd devevt_queue mem m = Inr (rc, mem')"
  shows "pages_ok mem'" "r \<in> places \<Longrightarrow> ids r mem' = ids r mem" "msg_at mem' = msg_at mem"
    "set (event_contents devevt_queue mem') \<subseteq> insert m (set (event_contents devevt_queue mem))"
proof -
  have ok: "event_ok devevt_queue mem" using assms(1) by (simp add: pages_ok_def)
  have "\<exists>q b. mem' = store_queue mem devevt_queue q b" using assms(2) by (auto simp: rpcmsg_event_tx_def andthen_eq_Inr)
  moreover have e: "event_ok devevt_queue mem' \<and> set (event_contents devevt_queue mem') \<subseteq> insert m (set (event_contents devevt_queue mem))"
  proof (cases "length (event_contents devevt_queue mem) < RPCMSG_BUFFER_SIZE")
    case True
    from events.send_room [OF ok _ this, of bd m] assms(2) show ?thesis by auto
  next
    case False
    then have "length (event_contents devevt_queue mem) = RPCMSG_BUFFER_SIZE" using events.bounded [OF ok] by simp
    from events.send_full [OF ok this, of bd m] assms(2) ok show ?thesis by auto
  qed
  ultimately show "pages_ok mem'" "r \<in> places \<Longrightarrow> ids r mem' = ids r mem" "msg_at mem' = msg_at mem"
    "set (event_contents devevt_queue mem') \<subseteq> insert m (set (event_contents devevt_queue mem))"
    using event_store [OF assms(1)] by auto
qed

lemma page_event_rx:
  assumes "pages_ok mem" "event_contents devevt_queue mem = m # ms"
  shows "\<exists>mem'. rpcmsg_event_rx bd devevt_queue mem = Inr (0, Some m, mem') \<and> pages_ok mem' \<and> (\<forall>r \<in> places. ids r mem' = ids r mem) \<and>
    msg_at mem' = msg_at mem \<and> event_contents devevt_queue mem' = ms"
proof -
  have "event_ok devevt_queue mem" using assms(1) by (simp add: pages_ok_def)
  from event_rx_state [OF this assms(2), of bd] obtain mem' where
    m: "rpcmsg_event_rx bd devevt_queue mem = Inr (0, Some m, mem')" "event_ok devevt_queue mem'" "event_contents devevt_queue mem' = ms" by blast
  then have "\<exists>q b. mem' = store_queue mem devevt_queue q b" by (auto simp: rpcmsg_event_rx_def andthen_eq_Inr)
  with event_store [OF assms(1)] m show ?thesis by auto
qed

subsection \<open>Loops over a queue\<close>

text \<open>
  A loop over the messages of a queue, whose body does not touch that queue, returns; it has run its
  body once for every message, in their order, and the queue is empty.
\<close>

lemma for_each_drains:
  assumes "pages_ok mem" "r \<in> places"
    "\<And>k s mem. pages_ok mem \<Longrightarrow> \<exists>mem'. body (int k) s mem = Inr (f k s, mem') \<and> pages_ok mem' \<and> ids r mem' = ids r mem"
  shows "\<exists>mem'. for_each_rpc_msg bd r body s mem = Some (Inr (fold f (ids r mem) s, mem')) \<and> pages_ok mem' \<and> ids r mem' = []"
  using assms(1)
proof (induction "ids r mem" arbitrary: mem s)
  case Nil
  with page_dequeue_empty(1) [OF Nil(2) assms(2), of bd] show ?case by (subst for_each_rpc_msg.simps) simp
next
  case (Cons k ks)
  from page_dequeue [OF Cons.prems assms(2) Cons.hyps(2) [symmetric], of bd] obtain mem1 where
    d: "rpcmsg_receive bd r mem = Inr (Some (int k), mem1)" "moved r ks mem mem1" by blast
  from assms(3) [OF movedD(1) [OF d(2)]] obtain mem2 where
    b: "body (int k) s mem1 = Inr (f k s, mem2)" "pages_ok mem2" "ids r mem2 = ks" using movedD(2) [OF d(2)] by blast
  from Cons.hyps(1) [OF b(3) [symmetric] b(2), of "f k s"] b(3) Cons.hyps(2) [symmetric] d(1) b(1) show ?case
    by (subst for_each_rpc_msg.simps) simp
qed

text \<open>Forwarding every request moves them to the other queue, in order, as long as there is room.\<close>

lemma for_each_forwards:
  assumes "pages_ok mem" "request (driver_rpc dv) = device_drvrpc_req"
    "length (ids driver_drvrpc_req mem) + length (ids device_drvrpc_req mem) \<le> RPCMSG_BUFFER_SIZE"
  shows "\<exists>mem'. for_each_rpc_msg bd driver_drvrpc_req
      (\<lambda>off n mem. andthen (driver_rpc_request_fwd bd dv mem (Some off)) (\<lambda>(err, mem). Inr (n + err, mem))) 0 mem = Some (Inr (0, mem')) \<and>
    pages_ok mem' \<and> ids driver_drvrpc_req mem' = [] \<and> ids device_drvrpc_req mem' = ids device_drvrpc_req mem @ ids driver_drvrpc_req mem"
  using assms(1,3)
proof (induction "ids driver_drvrpc_req mem" arbitrary: mem)
  case Nil
  with page_dequeue_empty(1) [OF Nil(2) in_places(1), of bd] show ?case by (subst for_each_rpc_msg.simps) simp
next
  case (Cons k ks)
  have ne: "device_drvrpc_req \<noteq> driver_drvrpc_req" "driver_drvrpc_req \<noteq> device_drvrpc_req" by (simp_all add: iobuf_ref_defs iobuf_layout_defs)
  have k: "k < RPCMSG_BUFFER_SIZE" using ids_less [OF Cons.prems(1) in_places(1), of k] Cons.hyps(2) [symmetric] by simp
  from page_dequeue [OF Cons.prems(1) in_places(1) Cons.hyps(2) [symmetric], of bd] obtain mem1 where
    d: "rpcmsg_receive bd driver_drvrpc_req mem = Inr (Some (int k), mem1)" "moved driver_drvrpc_req ks mem mem1" by blast
  note m1 = movedD [OF d(2)]
  have room: "length (ids device_drvrpc_req mem1) < RPCMSG_BUFFER_SIZE"
    using m1(3) [OF in_places(2) ne(1)] Cons.prems(2) Cons.hyps(2) [symmetric] by simp
  from page_forward [of mem1 dv k bd] m1(1) k room assms(2) obtain mem2 where
    f: "driver_rpc_request_fwd bd dv mem1 (Some (int k)) = Inr (0, mem2)" "moved device_drvrpc_req (ids device_drvrpc_req mem1 @ [k]) mem1 mem2" by auto
  note m2 = movedD [OF f(2)]
  have q: "ids driver_drvrpc_req mem2 = ks" "ids device_drvrpc_req mem2 = ids device_drvrpc_req mem @ [k]"
    using m2(3) [OF in_places(1) ne(2)] m2(2) m1(2) m1(3) [OF in_places(2) ne(1)] by simp_all
  have "length (ids driver_drvrpc_req mem2) + length (ids device_drvrpc_req mem2) \<le> RPCMSG_BUFFER_SIZE"
    using Cons.prems(2) Cons.hyps(2) [symmetric] q by simp
  from Cons.hyps(1) [OF q(1) [symmetric] m2(1) this] d(1) f(1) q Cons.hyps(2) [symmetric] show ?case
    by (subst for_each_rpc_msg.simps) simp
qed

end
