(* ===== verification/Vm_System.thy ===== *)
theory Vm_System
  imports Vm_Run Rpc_Pages "HOL-Library.Multiset"
begin

text \<open>
  A proxy and its backend as one system. The VMM's vCPUs and native threads start requests, the
  kernel module and the device of the backend take, forward and answer them and send events, and
  the VMM completes answers and handles events, in any order. Each step is one call of the code on
  the shared pages; inside a call the ring is accessed as \<open>Rpc_Concurrent\<close> describes. The
  invariant says where every message is and who waits for it; from it follow the properties of
  the whole: no request is refused, no answer aborts the VMM, and nothing is ever stuck.
\<close>

subsection \<open>Messages, slots and waiters\<close>

text \<open>The slot that a message of the MMIO operation names.\<close>

definition slot_of :: "rpcmsg \<Rightarrow> nat" where
  "slot_of m = unat (ucast (mmio_slot (mr0 m)) :: u32)"

text \<open>
  Messages \<open>L\<close> are under way: they are the lent ones, each of them is an MMIO request, and they name
  exactly the slots in \<open>waiting\<close>, each once.
\<close>

definition tracks :: "(nat \<Rightarrow> rpcmsg) \<Rightarrow> nat list \<Rightarrow> int set \<Rightarrow> nat set \<Rightarrow> bool" where
  "tracks msgs L ls waiting \<longleftrightarrow> distinct L \<and> int ` set L = ls \<and> bij_betw (\<lambda>k. slot_of (msgs k)) (set L) waiting \<and>
     (\<forall>k \<in> set L. QEMU_OP (mr0 (msgs k)) = QEMU_OP_MMIO)"

lemma tracks_length: "tracks msgs L ls waiting \<Longrightarrow> length L = card waiting"
  by (metis tracks_def bij_betw_same_card distinct_card)

lemma tracks_move:
  assumes "tracks msgs L ls waiting" "mset L' = mset L" "\<And>k. mr0 (msgs' k) = mr0 (msgs k)"
  shows "tracks msgs' L' ls waiting"
proof -
  have "set L' = set L" "distinct L' = distinct L" using assms(2) by (metis mset_eq_setD, metis mset_eq_imp_distinct_iff)
  moreover have "slot_of (msgs' k) = slot_of (msgs k)" for k by (simp add: slot_of_def assms(3))
  ultimately show ?thesis using assms(1,3) by (simp add: tracks_def)
qed

lemma tracks_add:
  assumes "tracks msgs L ls waiting" "int k \<notin> ls" "slot_of m \<notin> waiting" "QEMU_OP (mr0 m) = QEMU_OP_MMIO"
    "mset L' = add_mset k (mset L)"
  shows "tracks (msgs(k := m)) L' (insert (int k) ls) (insert (slot_of m) waiting)"
proof -
  have k: "k \<notin> set L" using assms(1,2) by (auto simp: tracks_def)
  have "mset L' = mset (k # L)" using assms(5) by simp
  then have L': "set L' = insert k (set L)" "distinct L'"
    using k assms(1) by (metis list.simps(15) mset_eq_setD, metis distinct.simps(2) mset_eq_imp_distinct_iff tracks_def)
  have "bij_betw (\<lambda>j. slot_of ((msgs(k := m)) j)) (insert k (set L)) (insert (slot_of m) waiting)"
    using assms(1,3) k by (auto simp: tracks_def bij_betw_def inj_on_def image_iff) metis
  then show ?thesis using assms(1,4) L' by (auto simp: tracks_def)
qed

lemma tracks_remove:
  assumes "tracks msgs L ls waiting" "mset L = add_mset k (mset L')"
  shows "tracks msgs L' (ls - {int k}) (waiting - {slot_of (msgs k)})" "slot_of (msgs k) \<in> waiting"
    "QEMU_OP (mr0 (msgs k)) = QEMU_OP_MMIO" "int k \<in> ls"
proof -
  have "mset L = mset (k # L')" using assms(2) by simp
  then have L: "set L = insert k (set L')" "distinct (k # L')"
    using assms(1) by (metis list.simps(15) mset_eq_setD, metis mset_eq_imp_distinct_iff tracks_def)
  then show "slot_of (msgs k) \<in> waiting" "QEMU_OP (mr0 (msgs k)) = QEMU_OP_MMIO" "int k \<in> ls"
    using assms(1) by (auto simp: tracks_def bij_betw_def)
  have "bij_betw (\<lambda>k. slot_of (msgs k)) (set L') (waiting - {slot_of (msgs k)})"
    using assms(1) L by (auto simp: tracks_def bij_betw_def inj_on_def)
  then show "tracks msgs L' (ls - {int k}) (waiting - {slot_of (msgs k)})"
    using assms(1) L by (auto simp: tracks_def)
qed

subsection \<open>The system\<close>

text \<open>
  The VMM, and the messages the kernel module and the device have received and not yet passed on.
\<close>

record 'w system =
  host :: "'w vmm"
  km_held :: "nat list"
  dev_held :: "nat list"

abbreviation pages :: "proxy_ptr \<Rightarrow> 'w vmm \<Rightarrow> rpcmsg_iobuf" where
  "pages p vm \<equiv> iobuf (proxies vm p)"

text \<open>The slots in which somebody waits for an answer.\<close>

definition awaited :: "proxy_ptr \<Rightarrow> 'w vmm \<Rightarrow> nat set" where
  "awaited p vm = {i. i < NUM_IOACKS \<and> callback (ioacks (proxies vm p) ! i) \<noteq> None}"

text \<open>All messages under way, by the place they are at.\<close>

definition flight :: "rpcmsg_iobuf \<Rightarrow> nat list \<Rightarrow> nat list \<Rightarrow> nat list" where
  "flight mem km dv = ids driver_drvrpc_req mem @ km @ ids device_drvrpc_req mem @ dv @ ids driver_drvrpc_resp mem"

text \<open>How much is left to do for the messages under way: every step on the way of a request makes it less.\<close>

definition work :: "proxy_ptr \<Rightarrow> 'w system \<Rightarrow> nat" where
  "work p s = 5 * length (ids driver_drvrpc_req (pages p (host s))) + 4 * length (km_held s) +
     3 * length (ids device_drvrpc_req (pages p (host s))) + 2 * length (dev_held s) + length (ids driver_drvrpc_resp (pages p (host s)))"

lemma work_le: "work p s \<le> 5 * length (flight (pages p (host s)) (km_held s) (dev_held s))"
  by (simp add: work_def flight_def)

text \<open>Who waits in slot \<open>i\<close>: the vCPU with that number, or the native thread that owns the slot.\<close>

definition owner_ok :: "'w platform \<Rightarrow> 'w vmm \<Rightarrow> nat \<Rightarrow> ioack \<Rightarrow> bool" where
  "owner_ok pf vm i ack \<longleftrightarrow>
     (case ack_data ack of
        Some (Vcpu_cookie v) \<Rightarrow> callback ack \<in> {Some Ioack_vcpu_read, Some Ioack_vcpu_write} \<and> unat (vcpu_id (env pf) v) = i \<and> i < SEL4_MMIO_MAX_VCPU
      | Some (Native_data t) \<Rightarrow> callback ack \<in> {Some Ioack_native_read, Some Ioack_native_write} \<and> slot (natives vm t) = int i \<and> SEL4_MMIO_MAX_VCPU \<le> i
      | None \<Rightarrow> False)"

definition handles_ok :: "proxy_ptr \<Rightarrow> 'w vmm \<Rightarrow> bool" where
  "handles_ok p vm \<longleftrightarrow> req_queue vm p = driver_drvrpc_req \<and> resp_queue vm p = driver_drvrpc_resp \<and> event_queue vm p = devevt_queue \<and>
     doorbell (rpc (proxies vm p)) \<noteq> None \<and> state_ok (lending vm p) \<and> length (ioacks (proxies vm p)) = NUM_IOACKS"

text \<open>The emulated hardware that events act on: the PCI bus, the MSI frame and the emulated devices are initialised.\<close>

definition devices_ok :: "'w vmm \<Rightarrow> bool" where
  "devices_ok vm \<longleftrightarrow> bus_ok vm \<and> v2m_ok (v2m vm) \<and> emudev_vm vm"

definition sys_inv :: "'w platform \<Rightarrow> proxy_ptr \<Rightarrow> 'w system \<Rightarrow> bool" where
  "sys_inv pf p s \<longleftrightarrow>
     (let vm = host s; mem = pages p vm in
      handles_ok p vm \<and> pages_ok mem \<and> natives_ok vm \<and> devices_ok vm \<and>
      tracks (msg_at mem) (flight mem (km_held s) (dev_held s)) (lent (lending vm p)) (awaited p vm) \<and>
      (\<forall>i \<in> awaited p vm. owner_ok pf vm i (ioacks (proxies vm p) ! i) \<and> int i < free_native_slot vm) \<and>
      (\<forall>m \<in> set (event_contents devevt_queue mem). QEMU_OP (mr0 m) \<noteq> QEMU_OP_MMIO))"

text \<open>After start-up nothing is under way.\<close>

definition sys_start :: "proxy_ptr \<Rightarrow> 'w system \<Rightarrow> bool" where
  "sys_start p s \<longleftrightarrow>
     (let vm = host s; mem = pages p vm in
      handles_ok p vm \<and> pages_ok mem \<and> natives_ok vm \<and> devices_ok vm \<and> flight mem (km_held s) (dev_held s) = [] \<and> lent (lending vm p) = {} \<and>
      awaited p vm = {} \<and> (\<forall>m \<in> set (event_contents devevt_queue mem). QEMU_OP (mr0 m) \<noteq> QEMU_OP_MMIO))"

lemma start_inv: "sys_start p s \<Longrightarrow> sys_inv pf p s"
  by (simp add: sys_start_def sys_inv_def tracks_def Let_def bij_betw_def)

text \<open>
  The steps. \<open>km\<close> and \<open>dv\<close> are the handles of the kernel module and the device, as \<open>vso_rpc_init\<close> sets them
  up. \<open>serve_step\<close> is the way of a request through the backend and back: each rule is one call.
\<close>

definition backend_handles :: "('c, 'b) vso_rpc \<Rightarrow> ('c, 'b) vso_rpc \<Rightarrow> bool" where
  "backend_handles km dv \<longleftrightarrow>
     request (driver_rpc km) = device_km_drvrpc_req \<and> response (driver_rpc km) = device_km_drvrpc_resp \<and>
     request (driver_rpc dv) = device_drvrpc_req \<and> response (driver_rpc dv) = device_drvrpc_resp \<and> device_event dv = devevt_queue"

definition with_pages :: "proxy_ptr \<Rightarrow> rpcmsg_iobuf \<Rightarrow> 'w system \<Rightarrow> 'w system" where
  "with_pages p mem s = s\<lparr>host := set_iobuf p mem (host s)\<rparr>"

inductive serve_step :: "'w platform \<Rightarrow> proxy_ptr \<Rightarrow> ('c, 'b) vso_rpc \<Rightarrow> ('c, 'b) vso_rpc \<Rightarrow> 'w system \<Rightarrow> 'w system \<Rightarrow> bool"
  for pf :: "'w platform" and p :: proxy_ptr and km dv :: "('c, 'b) vso_rpc" where
  km_receive: "rpcmsg_receive bd (request (driver_rpc km)) (pages p (host s)) = Inr (Some (int k), mem')
      \<Longrightarrow> serve_step pf p km dv s ((with_pages p mem' s)\<lparr>km_held := km_held s @ [k]\<rparr>)"
| km_forward: "\<lbrakk>k \<in> set (km_held s); driver_rpc_request_fwd bd dv (pages p (host s)) (Some (int k)) = Inr (0, mem')\<rbrakk>
      \<Longrightarrow> serve_step pf p km dv s ((with_pages p mem' s)\<lparr>km_held := remove1 k (km_held s)\<rparr>)"
| km_answer: "\<lbrakk>k \<in> set (km_held s); driver_rpc_ack_mmio_finish bd km (pages p (host s)) b (Some (int k)) data = Inr (e, mem', b')\<rbrakk>
      \<Longrightarrow> serve_step pf p km dv s ((with_pages p mem' s)\<lparr>km_held := remove1 k (km_held s)\<rparr>)"
| dev_receive: "rpcmsg_receive bd (request (driver_rpc dv)) (pages p (host s)) = Inr (Some (int k), mem')
      \<Longrightarrow> serve_step pf p km dv s ((with_pages p mem' s)\<lparr>dev_held := dev_held s @ [k]\<rparr>)"
| dev_answer: "\<lbrakk>k \<in> set (dev_held s); driver_rpc_ack_mmio_finish bd dv (pages p (host s)) b (Some (int k)) data = Inr (e, mem', b')\<rbrakk>
      \<Longrightarrow> serve_step pf p km dv s ((with_pages p mem' s)\<lparr>dev_held := remove1 k (dev_held s)\<rparr>)"
| complete: "resp_step pf p (host s) = Inr (Some (rc, vm'), vm') \<Longrightarrow> serve_step pf p km dv s (s\<lparr>host := vm'\<rparr>)"

text \<open>
  A vCPU or thread that waits in its slot does not start another request; the device does not
  send events with the code of an answer.
\<close>

inductive own_step :: "'w platform \<Rightarrow> proxy_ptr \<Rightarrow> ('c, 'b) vso_rpc \<Rightarrow> ('c, 'b) vso_rpc \<Rightarrow> 'w system \<Rightarrow> 'w system \<Rightarrow> bool"
  for pf :: "'w platform" and p :: proxy_ptr and km dv :: "('c, 'b) vso_rpc" where
  fault: "\<lbrakk>unat (vcpu_id (env pf) v) < SEL4_MMIO_MAX_VCPU; unat (vcpu_id (env pf) v) \<notin> awaited p (host s); len \<le> 8;
      mmio_fault_handler pf p v a len (host s) = Inr (r, vm')\<rbrakk> \<Longrightarrow> own_step pf p km dv s (s\<lparr>host := vm'\<rparr>)"
| native: "\<lbrakk>nat (slot (natives (host s) t)) \<notin> awaited p (host s) \<or> slot (natives (host s) t) = 0; len \<le> 8;
      ioreq_native_start pf t p sp dir a len v0 (host s) = Inr (e, vm')\<rbrakk> \<Longrightarrow> own_step pf p km dv s (s\<lparr>host := vm'\<rparr>)"
| serve: "serve_step pf p km dv s s' \<Longrightarrow> own_step pf p km dv s s'"
| dev_event: "\<lbrakk>QEMU_OP (set_op (mr0 m) op) \<noteq> QEMU_OP_MMIO; device_event_tx bd dv (pages p (host s)) b op m = Inr (e, mem', b')\<rbrakk>
      \<Longrightarrow> own_step pf p km dv s (with_pages p mem' s)"
| notice: "event_step pf p (host s) = Inr (Some (rc, vm'), vm') \<Longrightarrow> own_step pf p km dv s (s\<lparr>host := vm'\<rparr>)"

text \<open>
  The rest of the VMM may do what concerns other proxies: it leaves this one alone, threads keep the slots they
  have, and what the proxies share stays consistent. \<open>Vm_Proxies\<close> shows that the steps of other proxies are such.
\<close>

inductive sys_step :: "'w platform \<Rightarrow> proxy_ptr \<Rightarrow> ('c, 'b) vso_rpc \<Rightarrow> ('c, 'b) vso_rpc \<Rightarrow> 'w system \<Rightarrow> 'w system \<Rightarrow> bool"
  for pf :: "'w platform" and p :: proxy_ptr and km dv :: "('c, 'b) vso_rpc" where
  own: "own_step pf p km dv s s' \<Longrightarrow> sys_step pf p km dv s s'"
| other: "\<lbrakk>proxies vm' p = proxies (host s) p; natives_ok vm'; devices_ok vm'; free_native_slot (host s) \<le> free_native_slot vm';
      \<forall>t. slot (natives (host s) t) \<noteq> 0 \<longrightarrow> slot (natives vm' t) = slot (natives (host s) t)\<rbrakk>
      \<Longrightarrow> sys_step pf p km dv s (s\<lparr>host := vm'\<rparr>)"

inductive reachable :: "'w platform \<Rightarrow> proxy_ptr \<Rightarrow> ('c, 'b) vso_rpc \<Rightarrow> ('c, 'b) vso_rpc \<Rightarrow> 'w system \<Rightarrow> bool"
  for pf :: "'w platform" and p :: proxy_ptr and km dv :: "('c, 'b) vso_rpc" where
  start: "sys_start p s \<Longrightarrow> reachable pf p km dv s"
| step: "\<lbrakk>reachable pf p km dv s; sys_step pf p km dv s s'\<rbrakk> \<Longrightarrow> reachable pf p km dv s'"

subsection \<open>The backend moves messages\<close>

lemma invD:
  assumes "sys_inv pf p s"
  shows "handles_ok p (host s)" "pages_ok (pages p (host s))" "natives_ok (host s)"
    "tracks (msg_at (pages p (host s))) (flight (pages p (host s)) (km_held s) (dev_held s)) (lent (lending (host s) p)) (awaited p (host s))"
    "\<And>i. i \<in> awaited p (host s) \<Longrightarrow> owner_ok pf (host s) i (ioacks (proxies (host s) p) ! i) \<and> int i < free_native_slot (host s)"
    "\<And>m. m \<in> set (event_contents devevt_queue (pages p (host s))) \<Longrightarrow> QEMU_OP (mr0 m) \<noteq> QEMU_OP_MMIO"
    "devices_ok (host s)"
  using assms by (simp_all add: sys_inv_def Let_def)

lemma set_iobuf_frame [simp]:
  "awaited p (set_iobuf p mem vm) = awaited p vm" "natives_ok (set_iobuf p mem vm) = natives_ok vm"
  "handles_ok p (set_iobuf p mem vm) = handles_ok p vm" "owner_ok pf (set_iobuf p mem vm) i ack = owner_ok pf vm i ack"
  "free_native_slot (set_iobuf p mem vm) = free_native_slot vm" "ioacks (proxies (set_iobuf p mem vm) p) = ioacks (proxies vm p)"
  "natives (set_iobuf p mem vm) = natives vm" "devices_ok (set_iobuf p mem vm) = devices_ok vm"
  by (simp_all add: devices_ok_def bus_ok_def awaited_def natives_ok_def handles_ok_def owner_ok_def set_iobuf_def split: option.split ack_cookie.split)

lemma inv_move:
  assumes "sys_inv pf p s" "pages_ok mem" "mset (flight mem km' dv') = mset (flight (pages p (host s)) (km_held s) (dev_held s))"
    "\<And>k. mr0 (msg_at mem k) = mr0 (msg_at (pages p (host s)) k)"
    "\<And>m. m \<in> set (event_contents devevt_queue mem) \<Longrightarrow> QEMU_OP (mr0 m) \<noteq> QEMU_OP_MMIO"
  shows "sys_inv pf p \<lparr>host = set_iobuf p mem (host s), km_held = km', dev_held = dv'\<rparr>"
  using invD [OF assms(1)] assms(2,5) tracks_move [OF invD(4) [OF assms(1)] assms(3), of "msg_at mem"] assms(4)
  by (simp add: sys_inv_def Let_def set_iobuf_queues)

definition served :: "'w platform \<Rightarrow> proxy_ptr \<Rightarrow> 'w system \<Rightarrow> 'w system \<Rightarrow> bool" where
  "served pf p s s' \<longleftrightarrow> sys_inv pf p s' \<and> work p s' < work p s"

lemma served_move:
  assumes "sys_inv pf p s" "moved r ks (pages p (host s)) mem" "r \<in> places"
    "mset (flight mem km' dv') = mset (flight (pages p (host s)) (km_held s) (dev_held s))"
    "\<And>k. mr0 (msg_at mem k) = mr0 (msg_at (pages p (host s)) k)"
    "work p \<lparr>host = set_iobuf p mem (host s), km_held = km', dev_held = dv'\<rparr> < work p s"
  shows "served pf p s \<lparr>host = set_iobuf p mem (host s), km_held = km', dev_held = dv'\<rparr>"
  unfolding served_def using inv_move [OF assms(1) movedD(1) [OF assms(2)] assms(4,5)] movedD(4) [OF assms(2)] invD(6) [OF assms(1)] assms(6)
  by simp

text \<open>A message that somebody holds is in no queue, so every queue has room for it.\<close>

lemma flight_room:
  assumes "sys_inv pf p s" "k \<in> set (km_held s) \<or> k \<in> set (dev_held s)" "r \<in> places"
  shows "k < RPCMSG_BUFFER_SIZE" "length (ids r (pages p (host s))) < RPCMSG_BUFFER_SIZE"
proof -
  let ?L = "flight (pages p (host s)) (km_held s) (dev_held s)"
  note t = invD(4) [OF assms(1)]
  have sub: "set ?L \<subseteq> {..<RPCMSG_BUFFER_SIZE}"
  proof
    fix j assume "j \<in> set ?L"
    then have "int j \<in> int ` set ?L" by (rule imageI)
    also have "\<dots> = lent (lending (host s) p)" using t by (simp add: tracks_def)
    finally show "j \<in> {..<RPCMSG_BUFFER_SIZE}" by simp
  qed
  have k: "k \<in> set ?L" using assms(2) by (auto simp: flight_def)
  with sub show "k < RPCMSG_BUFFER_SIZE" by auto
  have d: "distinct ?L" using t by (simp add: tracks_def)
  then have "distinct (ids r (pages p (host s)))" "set (ids r (pages p (host s))) \<subseteq> set ?L - {k}"
    using assms(2,3) by (auto simp: flight_def places_def)
  then have "length (ids r (pages p (host s))) \<le> card (set ?L - {k})" by (metis List.finite_set card_mono distinct_card finite_Diff)
  also have "\<dots> < card (set ?L)" by (rule card_Diff1_less [OF _ k]) simp
  also have "\<dots> \<le> RPCMSG_BUFFER_SIZE" using card_mono [OF _ sub] by simp
  finally show "length (ids r (pages p (host s))) < RPCMSG_BUFFER_SIZE" .
qed

lemma flight_moved:
  assumes "moved r ks mem mem'" "r \<in> places"
  shows "ids driver_drvrpc_req mem' = (if r = driver_drvrpc_req then ks else ids driver_drvrpc_req mem)"
    "ids device_drvrpc_req mem' = (if r = device_drvrpc_req then ks else ids device_drvrpc_req mem)"
    "ids driver_drvrpc_resp mem' = (if r = driver_drvrpc_resp then ks else ids driver_drvrpc_resp mem)"
  using movedD(2,3) [OF assms(1)] by auto

text \<open>Receiving: the head of a queue goes to the party that receives.\<close>

lemma receive_head:
  assumes "pages_ok mem" "r \<in> places" "rpcmsg_receive bd r mem = Inr (Some (int k), mem')"
  shows "\<exists>ks. ids r mem = k # ks \<and> moved r ks mem mem' \<and> msg_at mem' = msg_at mem"
proof (cases "ids r mem")
  case Nil
  with page_dequeue_empty(1) [OF assms(1,2), of bd] assms(3) show ?thesis by simp
next
  case (Cons j js)
  with page_dequeue [OF assms(1,2) Cons, of bd] assms(3) show ?thesis by auto
qed

lemma remove1_mset: "k \<in> set ks \<Longrightarrow> mset ks = add_mset k (mset (remove1 k ks))"
  by (simp add: mset_remove1)

lemma remove1_length: "k \<in> set ks \<Longrightarrow> length ks = Suc (length (remove1 k ks))"
  by (induction ks) auto

text \<open>The five backend steps that move a message keep the invariant.\<close>

lemma with_pages_eq: "(with_pages p mem s)\<lparr>km_held := ks\<rparr> = \<lparr>host = set_iobuf p mem (host s), km_held = ks, dev_held = dev_held s\<rparr>"
  "(with_pages p mem s)\<lparr>dev_held := ks\<rparr> = \<lparr>host = set_iobuf p mem (host s), km_held = km_held s, dev_held = ks\<rparr>"
  "with_pages p mem s = \<lparr>host = set_iobuf p mem (host s), km_held = km_held s, dev_held = dev_held s\<rparr>"
  by (cases s; simp add: with_pages_def)+

lemma served_km_receive:
  assumes "sys_inv pf p s" "rpcmsg_receive bd driver_drvrpc_req (pages p (host s)) = Inr (Some (int k), mem)"
  shows "served pf p s ((with_pages p mem s)\<lparr>km_held := km_held s @ [k]\<rparr>)"
proof -
  from receive_head [OF invD(2) [OF assms(1)] in_places(1) assms(2)] obtain ks where
    k: "ids driver_drvrpc_req (pages p (host s)) = k # ks" "moved driver_drvrpc_req ks (pages p (host s)) mem" "msg_at mem = msg_at (pages p (host s))" by blast
  note f = flight_moved [OF k(2) in_places(1)]
  show ?thesis unfolding with_pages_eq(1)
    by (rule served_move [OF assms(1) k(2) in_places(1)]) (use k f in \<open>auto simp: flight_def work_def set_iobuf_queues\<close>)
qed

lemma served_dev_receive:
  assumes "sys_inv pf p s" "rpcmsg_receive bd device_drvrpc_req (pages p (host s)) = Inr (Some (int k), mem)"
  shows "served pf p s ((with_pages p mem s)\<lparr>dev_held := dev_held s @ [k]\<rparr>)"
proof -
  from receive_head [OF invD(2) [OF assms(1)] in_places(2) assms(2)] obtain ks where
    k: "ids device_drvrpc_req (pages p (host s)) = k # ks" "moved device_drvrpc_req ks (pages p (host s)) mem" "msg_at mem = msg_at (pages p (host s))" by blast
  note f = flight_moved [OF k(2) in_places(2)]
  show ?thesis unfolding with_pages_eq(2)
    by (rule served_move [OF assms(1) k(2) in_places(2)]) (use k f in \<open>auto simp: flight_def work_def set_iobuf_queues\<close>)
qed

lemma served_km_forward:
  assumes "sys_inv pf p s" "k \<in> set (km_held s)" "request (driver_rpc dv) = device_drvrpc_req"
    "driver_rpc_request_fwd bd dv (pages p (host s)) (Some (int k)) = Inr (e, mem)"
  shows "served pf p s ((with_pages p mem s)\<lparr>km_held := remove1 k (km_held s)\<rparr>)"
proof -
  let ?m = "pages p (host s)"
  note r = flight_room [OF assms(1) disjI1 [OF assms(2)] in_places(2)]
  obtain k: "moved device_drvrpc_req (ids device_drvrpc_req ?m @ [k]) ?m mem" "msg_at mem = msg_at ?m"
    using page_forward [of ?m dv k bd] invD(2) [OF assms(1)] r assms(3,4) by auto
  note f = flight_moved [OF k(1) in_places(2)]
  show ?thesis unfolding with_pages_eq(1)
    by (rule served_move [OF assms(1) k(1) in_places(2)]) (use k f remove1_mset [OF assms(2)] remove1_length [OF assms(2)] in \<open>auto simp: flight_def work_def set_iobuf_queues\<close>)
qed

lemma answer_moved:
  assumes "pages_ok mem" "response (driver_rpc h) = driver_drvrpc_resp" "k < RPCMSG_BUFFER_SIZE" "length (ids driver_drvrpc_resp mem) < RPCMSG_BUFFER_SIZE"
    "driver_rpc_ack_mmio_finish bd h mem b (Some (int k)) data = Inr (e, mem', b')"
  shows "moved driver_drvrpc_resp (ids driver_drvrpc_resp mem @ [k]) mem mem' \<and> msg_at mem' = (msg_at mem)(k := (msg_at mem k)\<lparr>mr2 := data\<rparr>)"
  using page_ack [OF assms(1-4), of bd b data] assms(5) by (auto simp: case_prod_beta)

lemma served_km_answer:
  assumes "sys_inv pf p s" "k \<in> set (km_held s)" "response (driver_rpc h) = driver_drvrpc_resp"
    "driver_rpc_ack_mmio_finish bd h (pages p (host s)) b (Some (int k)) data = Inr (e, mem, b')"
  shows "served pf p s ((with_pages p mem s)\<lparr>km_held := remove1 k (km_held s)\<rparr>)"
proof -
  let ?m = "pages p (host s)"
  note r = flight_room [OF assms(1) disjI1 [OF assms(2)] in_places(3)]
  note k = answer_moved [OF invD(2) [OF assms(1)] assms(3) r assms(4)]
  note f = flight_moved [OF conjunct1 [OF k] in_places(3)]
  show ?thesis unfolding with_pages_eq(1)
    by (rule served_move [OF assms(1) conjunct1 [OF k] in_places(3)]) (use k f remove1_mset [OF assms(2)] remove1_length [OF assms(2)] in \<open>auto simp: flight_def work_def set_iobuf_queues\<close>)
qed

lemma served_dev_answer:
  assumes "sys_inv pf p s" "k \<in> set (dev_held s)" "response (driver_rpc h) = driver_drvrpc_resp"
    "driver_rpc_ack_mmio_finish bd h (pages p (host s)) b (Some (int k)) data = Inr (e, mem, b')"
  shows "served pf p s ((with_pages p mem s)\<lparr>dev_held := remove1 k (dev_held s)\<rparr>)"
proof -
  let ?m = "pages p (host s)"
  note r = flight_room [OF assms(1) disjI2 [OF assms(2)] in_places(3)]
  note k = answer_moved [OF invD(2) [OF assms(1)] assms(3) r assms(4)]
  note f = flight_moved [OF conjunct1 [OF k] in_places(3)]
  show ?thesis unfolding with_pages_eq(2)
    by (rule served_move [OF assms(1) conjunct1 [OF k] in_places(3)]) (use k f remove1_mset [OF assms(2)] remove1_length [OF assms(2)] in \<open>auto simp: flight_def work_def set_iobuf_queues\<close>)
qed

lemma inv_dev_event:
  assumes "sys_inv pf p s" "device_event dv = devevt_queue" "QEMU_OP (set_op (mr0 m) op) \<noteq> QEMU_OP_MMIO"
    "device_event_tx bd dv (pages p (host s)) b op m = Inr (e, mem, b')"
  shows "sys_inv pf p (with_pages p mem s)"
proof -
  obtain rc where "rpcmsg_event_tx bd devevt_queue (pages p (host s)) (m\<lparr>mr0 := set_op (mr0 m) op\<rparr>) = Inr (rc, mem)"
    using assms(2,4) by (auto simp: device_event_tx_def andthen_eq_Inr split: if_splits prod.splits)
  note t = page_event_tx [OF invD(2) [OF assms(1)] this]
  show ?thesis unfolding with_pages_eq(3)
    by (rule inv_move [OF assms(1) t(1)]) (use t assms(3) invD(6) [OF assms(1)] in \<open>auto simp: flight_def\<close>)
qed

text \<open>What happens to other proxies, and a thread that gets its slot, do not disturb the invariant.\<close>

lemma owner_other:
  assumes "owner_ok pf vm i ack" "\<And>t. slot (natives vm t) \<noteq> 0 \<Longrightarrow> slot (natives vm' t) = slot (natives vm t)"
  shows "owner_ok pf vm' i ack"
proof -
  have "slot (natives vm' t) = int i" if "slot (natives vm t) = int i" "SEL4_MMIO_MAX_VCPU \<le> i" for t
    using assms(2) [of t] that by (simp add: SEL4_MMIO_MAX_VCPU_def)
  then show ?thesis using assms(1) by (auto simp: owner_ok_def split: option.splits ack_cookie.splits)
qed

lemma inv_other:
  assumes "sys_inv pf p s" "proxies vm' p = proxies (host s) p" "natives_ok vm'" "devices_ok vm'" "free_native_slot (host s) \<le> free_native_slot vm'"
    "\<And>t. slot (natives (host s) t) \<noteq> 0 \<Longrightarrow> slot (natives vm' t) = slot (natives (host s) t)"
  shows "sys_inv pf p (s\<lparr>host := vm'\<rparr>)"
proof -
  have "awaited p vm' = awaited p (host s)" "handles_ok p vm' = handles_ok p (host s)" using assms(2) by (simp_all add: awaited_def handles_ok_def)
  moreover have "owner_ok pf vm' i ack" if "owner_ok pf (host s) i ack" for i ack by (rule owner_other [OF that assms(6)])
  ultimately show ?thesis using invD [OF assms(1)] assms(2-5) by (fastforce simp: sys_inv_def Let_def)
qed

end
