(* ===== verification/Vm_Guarantees.thy ===== *)
theory Vm_Guarantees
  imports Vm_System
begin

unbundle bit_operations_syntax

text \<open>
  The VMM's steps keep the invariant of \<open>Vm_System\<close>, and what follows for every reachable state of
  the system.
\<close>

lemma num_ioacks: "NUM_IOACKS = RPCMSG_BUFFER_SIZE" "RPCMSG_BUFFER_SIZE = 32"
  by (simp_all add: NUM_IOACKS_def SEL4_MMIO_MAX_VCPU_def SEL4_MMIO_MAX_NATIVE_def RPCMSG_BUFFER_SIZE_def)

subsection \<open>Requests\<close>

text \<open>As long as one slot is not awaited, a message is free and the request queue has room.\<close>

lemma request_room:
  assumes "sys_inv pf p s" "i < NUM_IOACKS" "i \<notin> awaited p (host s)"
  shows "lent (lending (host s) p) \<noteq> all_slots" "length (ids driver_drvrpc_req (pages p (host s))) < RPCMSG_BUFFER_SIZE"
proof -
  let ?L = "flight (pages p (host s)) (km_held s) (dev_held s)"
  note t = invD(4) [OF assms(1)]
  have "awaited p (host s) \<subseteq> {..<NUM_IOACKS} - {i}" using assms(3) by (auto simp: awaited_def)
  then have "card (awaited p (host s)) \<le> card ({..<NUM_IOACKS} - {i})" by (intro card_mono) simp_all
  also have "\<dots> < RPCMSG_BUFFER_SIZE" using assms(2) by (simp add: num_ioacks)
  finally have len: "length ?L < RPCMSG_BUFFER_SIZE" using tracks_length [OF t] by simp
  then show "length (ids driver_drvrpc_req (pages p (host s))) < RPCMSG_BUFFER_SIZE" by (simp add: flight_def)
  have "card (lent (lending (host s) p)) = length ?L"
    using t unfolding tracks_def by (metis card_image distinct_card inj_on_of_nat)
  moreover have "card all_slots = RPCMSG_BUFFER_SIZE" by (simp add: all_slots_def card_image)
  ultimately show "lent (lending (host s) p) \<noteq> all_slots" using len by auto
qed

text \<open>The message of a request, and the effect of queueing it: a message that was not under way carries it.\<close>

definition request_msg :: "u32 \<Rightarrow> u32 \<Rightarrow> u32 \<Rightarrow> u64 \<Rightarrow> u64 \<Rightarrow> u64 \<Rightarrow> rpcmsg" where
  "request_msg dir sp sl off sz v0 = \<lparr>mr0 = set_op (mmio_mr0 dir sp sl sz) QEMU_OP_MMIO, mr1 = off, mr2 = v0, mr3 = 0\<rparr>"

definition asked :: "proxy_ptr \<Rightarrow> 'w system \<Rightarrow> 'w vmm \<Rightarrow> rpcmsg \<Rightarrow> bool" where
  "asked p s vm' m \<longleftrightarrow>
     (\<exists>k. k \<notin> set (flight (pages p (host s)) (km_held s) (dev_held s)) \<and>
        moved driver_drvrpc_req (ids driver_drvrpc_req (pages p (host s)) @ [k]) (pages p (host s)) (pages p vm') \<and>
        msg_at (pages p vm') = (msg_at (pages p (host s)))(k := m))"

text \<open>The request that a fault of a vCPU starts.\<close>

definition fault_request :: "'w platform \<Rightarrow> vcpu \<Rightarrow> u64 \<Rightarrow> u64 \<Rightarrow> 'w vmm \<Rightarrow> rpcmsg" where
  "fault_request pf v a len vm =
     (if is_vcpu_read_fault (env pf) v (ext vm) then request_msg SEL4_IO_DIR_READ AS_GLOBAL (vcpu_id (env pf) v) a len 0
      else request_msg SEL4_IO_DIR_WRITE AS_GLOBAL (vcpu_id (env pf) v) a len
        (get_vcpu_fault_data (env pf) v (ext vm) AND drop_bit (fault_shift (env pf) v (ext vm)) (get_vcpu_fault_data_mask (env pf) v (ext vm))))"

lemma request_message:
  assumes "unat sl < NUM_IOACKS"
  shows "slot_of (request_msg dir sp sl off sz v0) = unat sl" "QEMU_OP (mr0 (request_msg dir sp sl off sz v0)) = QEMU_OP_MMIO"
  by (simp_all add: request_msg_def slot_of_def request_slot [OF assms] QEMU_OP_set_op QEMU_OP_MMIO_def)

lemma inv_request:
  assumes inv: "sys_inv pf p s" and sl: "unat sl < NUM_IOACKS" "unat sl \<notin> awaited p (host s)" "int (unat sl) < free_native_slot (host s)"
    and sz: "sz \<le> 8" and own: "owner_ok pf (host s) (unat sl) \<lparr>callback = Some (if dir = SEL4_IO_DIR_READ then rd else wr), ack_data = Some ck\<rparr>"
  shows "\<exists>vm'. ioreq_start pf p sl rd wr ck sp dir off sz v0 (host s) = Inr (0, vm') \<and> sys_inv pf p (s\<lparr>host := vm'\<rparr>) \<and>
    awaited p vm' = insert (unat sl) (awaited p (host s)) \<and> asked p s vm' (request_msg dir sp sl off sz v0)"
proof -
  let ?vm = "host s" and ?px = "proxies (host s) p" and ?mem = "pages p (host s)"
  let ?ack = "\<lparr>callback = Some (if dir = SEL4_IO_DIR_READ then rd else wr), ack_data = Some ck\<rparr>"
  let ?m = "request_msg dir sp sl off sz v0"
  note h = invD(1) [OF inv, unfolded handles_ok_def] and room = request_room [OF inv sl(1,2)]
  obtain f where f: "doorbell (rpc ?px) = Some f" using h by blast
  obtain k st mem where k: "rpcmsg_request Userspace driver_drvrpc_req (lending ?vm p) ?mem ?m = Inr (int k, st, mem)"
    "state_ok st" "int k \<notin> lent (lending ?vm p)" "lent st = insert (int k) (lent (lending ?vm p))"
    "moved driver_drvrpc_req (ids driver_drvrpc_req ?mem @ [k]) ?mem mem" "msg_at mem = (msg_at ?mem)(k := ?m)"
    using page_request [OF invD(2) [OF inv] _ room] h by blast
  define vm' where "vm' = (set_proxy p (?px\<lparr>ioacks := (ioacks ?px)[unat sl := ?ack],
    rpc := (rpc ?px)\<lparr>driver_rpc := (driver_rpc (rpc ?px))\<lparr>buffer_state := st\<rparr>\<rparr>, iobuf := mem\<rparr>) ?vm)\<lparr>ext := f (doorbell_cookie (rpc ?px)) (ext ?vm)\<rparr>"
  have free: "callback (ioacks ?px ! unat sl) = None" using sl(1,2) by (simp add: awaited_def)
  have run: "ioreq_start pf p sl rd wr ck sp dir off sz v0 ?vm = Inr (0, vm')"
    using h sl(1) free sz k(1) f
    by (simp add: ioreq_start_def Let_def driver_rpc_req_mmio_start_def driver_rpc_request_def vso_doorbell_def vm'_def request_msg_def)
  have aw: "awaited p vm' = insert (unat sl) (awaited p ?vm)"
    using h sl(1) by (auto simp: awaited_def vm'_def nth_list_update)
  note m = movedD [OF k(5)] and fl = flight_moved [OF k(5) in_places(1)]
  have "tracks (msg_at mem) (flight mem (km_held s) (dev_held s)) (lent st) (awaited p vm')"
    using tracks_add [OF invD(4) [OF inv] k(3), of ?m] sl(2) request_message [OF sl(1)] fl
    unfolding k(4,6) aw by (auto simp: flight_def)
  moreover have "owner_ok pf vm' i (ioacks (proxies vm' p) ! i) \<and> int i < free_native_slot vm'" if "i \<in> awaited p vm'" for i
    using that invD(5) [OF inv, of i] own sl(1,3) h unfolding aw
    by (cases "i = unat sl") (auto simp: vm'_def owner_ok_def split: option.splits ack_cookie.splits)
  moreover have "handles_ok p vm'" "natives_ok vm'" "devices_ok vm'" "lending vm' p = st" "pages p vm' = mem"
    using h invD(3,7) [OF inv] k(2) by (simp_all add: handles_ok_def natives_ok_def devices_ok_def bus_ok_def vm'_def)
  ultimately have "sys_inv pf p (s\<lparr>host := vm'\<rparr>)"
    using m(1,4) invD(6) [OF inv] by (simp add: sys_inv_def Let_def)
  moreover have "k \<notin> set (flight ?mem (km_held s) (dev_held s))"
    using k(3) invD(4) [OF inv] unfolding tracks_def by (metis image_eqI)
  then have "asked p s vm' ?m"
    unfolding asked_def \<open>pages p vm' = mem\<close> using k(5,6) by blast
  ultimately show ?thesis using run aw by blast
qed

lemma inv_fault:
  assumes "sys_inv pf p s" "unat (vcpu_id (env pf) v) < SEL4_MMIO_MAX_VCPU" "unat (vcpu_id (env pf) v) \<notin> awaited p (host s)" "len \<le> 8"
  shows "\<exists>vm'. mmio_fault_handler pf p v a len (host s) = Inr (FAULT_HANDLED, vm') \<and> sys_inv pf p (s\<lparr>host := vm'\<rparr>) \<and>
    awaited p vm' = insert (unat (vcpu_id (env pf) v)) (awaited p (host s)) \<and> asked p s vm' (fault_request pf v a len (host s))"
proof -
  let ?sl = "vcpu_id (env pf) v"
  have "int (unat ?sl) < 16" using assms(2) unfolding SEL4_MMIO_MAX_VCPU_def by linarith
  then have b: "unat ?sl < NUM_IOACKS" "int (unat ?sl) < free_native_slot (host s)"
    using invD(3) [OF assms(1)] unfolding natives_ok_def SEL4_MMIO_NATIVE_BASE_def num_ioacks by linarith+
  have own: "owner_ok pf (host s) (unat ?sl) \<lparr>callback = Some (if dir = SEL4_IO_DIR_READ then Ioack_vcpu_read else Ioack_vcpu_write),
      ack_data = Some (Vcpu_cookie v)\<rparr>" for dir using assms(2) by (simp add: owner_ok_def)
  note start = inv_request [OF assms(1) b(1) assms(3) b(2) assms(4) own, of AS_GLOBAL]
  show ?thesis
  proof (cases "is_vcpu_read_fault (env pf) v (ext (host s))")
    case True
    with start [of SEL4_IO_DIR_READ a 0] show ?thesis by (auto simp: mmio_fault_handler_def fault_request_def)
  next
    case False
    then show ?thesis
      using start [of SEL4_IO_DIR_WRITE a "get_vcpu_fault_data (env pf) v (ext (host s)) AND
          drop_bit (fault_shift (env pf) v (ext (host s))) (get_vcpu_fault_data_mask (env pf) v (ext (host s)))"]
      by (auto simp: mmio_fault_handler_def fault_request_def)
  qed
qed

lemma native_slot_frame:
  assumes "natives_ok vm" "ioreq_native_slot pf t vm = (sl, vm0)"
  shows "free_native_slot vm \<le> free_native_slot vm0" "slot (natives vm u) \<noteq> 0 \<Longrightarrow> slot (natives vm0 u) = slot (natives vm u)"
    "sl \<noteq> -1 \<Longrightarrow> slot (natives vm t) = 0 \<Longrightarrow> sl = free_native_slot vm"
  using assms(2) by (auto simp: ioreq_native_slot_def Let_def split: if_splits prod.splits)

lemma native_slot_free:
  assumes "sys_inv pf p s" "nat (slot (natives (host s) t)) \<notin> awaited p (host s) \<or> slot (natives (host s) t) = 0"
    "ioreq_native_slot pf t (host s) = (sl, vm0)"
  shows "sys_inv pf p (s\<lparr>host := vm0\<rparr>)"
    "sl \<noteq> -1 \<Longrightarrow> nat sl \<notin> awaited p vm0 \<and> sl = slot (natives vm0 t) \<and> 16 \<le> sl \<and> sl < 32 \<and> sl < free_native_slot vm0"
proof -
  note c = native_slot_cases [OF invD(3) [OF assms(1)] assms(3)] and f = native_slot_frame [OF invD(3) [OF assms(1)] assms(3)]
  have "devices_ok vm0"
    using invD(7) [OF assms(1)] assms(3) by (auto simp: ioreq_native_slot_def Let_def devices_ok_def bus_ok_def split: if_splits prod.splits)
  then show "sys_inv pf p (s\<lparr>host := vm0\<rparr>)" using c f(1,2) by (intro inv_other [OF assms(1)]) auto
  assume sl: "sl \<noteq> -1"
  have aw: "awaited p vm0 = awaited p (host s)" using c by (simp add: awaited_def)
  have b: "sl = slot (natives vm0 t)" "16 \<le> sl" "sl < 32" using c sl by (auto simp: SEL4_MMIO_NATIVE_BASE_def num_ioacks)
  have "nat sl \<notin> awaited p (host s)"
  proof (cases "slot (natives (host s) t) = 0")
    case True
    then have "sl = free_native_slot (host s)" using f(3) sl by blast
    then show ?thesis using invD(5) [OF assms(1), of "nat sl"] b(2) by auto
  next
    case False
    then show ?thesis using assms(2) f(2) [of t] b(1) by simp
  qed
  moreover have "sl < free_native_slot vm0"
    using c b unfolding natives_ok_def by (metis not_numeral_le_zero)
  ultimately show "nat sl \<notin> awaited p vm0 \<and> sl = slot (natives vm0 t) \<and> 16 \<le> sl \<and> sl < 32 \<and> sl < free_native_slot vm0"
    using b aw by simp
qed

lemma inv_native:
  assumes "sys_inv pf p s" "nat (slot (natives (host s) t)) \<notin> awaited p (host s) \<or> slot (natives (host s) t) = 0" "len \<le> 8"
    "ioreq_native_slot pf t (host s) = (sl, vm0)"
  shows "\<exists>vm'. ioreq_native_start pf t p sp dir a len v0 (host s) = Inr (if sl = -1 then -1 else 0, vm') \<and> sys_inv pf p (s\<lparr>host := vm'\<rparr>) \<and>
    awaited p vm' = (if sl = -1 then awaited p (host s) else insert (nat sl) (awaited p (host s))) \<and>
    (if sl = -1 then proxies vm' = proxies (host s) else asked p s vm' (request_msg dir sp (word_of_int sl) a len v0))"
proof (cases "sl = -1")
  case True
  with native_slot_free(1) [OF assms(1,2,4)] assms(4) native_slot_cases [OF invD(3) [OF assms(1)] assms(4)] show ?thesis
    by (auto simp: ioreq_native_start_def awaited_def)
next
  case False
  note n = native_slot_free [OF assms(1,2,4)]
  from n(2) [OF False] have b: "nat sl \<notin> awaited p vm0" "sl = slot (natives vm0 t)" "16 \<le> sl" "sl < 32" "sl < free_native_slot vm0" by auto
  have w: "unat (word_of_int sl :: u32) = nat sl" using b(3,4) by (simp add: unat_eq_nat_uint uint_word_of_int)
  have own: "owner_ok pf vm0 (nat sl) \<lparr>callback = Some (if dir = SEL4_IO_DIR_READ then Ioack_native_read else Ioack_native_write),
      ack_data = Some (Native_data t)\<rparr>" using b by (simp add: owner_ok_def SEL4_MMIO_MAX_VCPU_def)
  have "nat sl < NUM_IOACKS" using b(3,4) by (simp add: num_ioacks)
  with inv_request [OF n(1), of "word_of_int sl" len dir Ioack_native_read Ioack_native_write "Native_data t" sp a v0] own b assms(3)
  obtain vm' where v: "ioreq_start pf p (word_of_int sl) Ioack_native_read Ioack_native_write (Native_data t) sp dir a len v0 vm0 = Inr (0, vm')"
    "sys_inv pf p (s\<lparr>host := vm'\<rparr>)" "awaited p vm' = insert (nat sl) (awaited p vm0)" "asked p (s\<lparr>host := vm0\<rparr>) vm' (request_msg dir sp (word_of_int sl) a len v0)"
    unfolding w by auto
  moreover have "proxies vm0 = proxies (host s)" using native_slot_cases [OF invD(3) [OF assms(1)] assms(4)] by simp
  ultimately show ?thesis using assms(4) b(3) False by (simp add: ioreq_native_start_def asked_def awaited_def)
qed

subsection \<open>Answers\<close>

text \<open>The callback of a slot that is awaited runs and leaves the bookkeeping alone.\<close>

lemma owner_call:
  assumes "owner_ok pf vm i ack"
  shows "\<exists>f vm1. callback ack = Some f \<and> call_ioack pf f (ack_data ack) data vm = Inr (0, vm1) \<and> proxies vm1 = proxies vm \<and>
    free_native_slot vm1 = free_native_slot vm \<and> (\<forall>t. slot (natives vm1 t) = slot (natives vm t)) \<and> devices_ok vm1 = devices_ok vm"
  using assms
  by (auto simp: devices_ok_def bus_ok_def owner_ok_def ioack_native_read_def ioack_native_write_def ioack_vcpu_read_def ioack_vcpu_write_def Let_def
      split: option.splits ack_cookie.splits)

text \<open>
  What the waiter in slot \<open>i\<close> gets: the vCPU of that number has the data in the byte lane of its fault and goes on, or
  the native thread with that slot is woken and reads the data; no other vCPU or thread sees anything.
\<close>

definition delivers :: "'w platform \<Rightarrow> proxy_ptr \<Rightarrow> nat \<Rightarrow> seL4_Word \<Rightarrow> 'w vmm \<Rightarrow> 'w vmm \<Rightarrow> bool" where
  "delivers pf p i d vm vm' \<longleftrightarrow>
     (let ack = ioacks (proxies vm p) ! i in
      case ack_data ack of
        Some (Vcpu_cookie v) \<Rightarrow> unat (vcpu_id (env pf) v) = i \<and> natives vm' = natives vm \<and>
          (callback ack = Some Ioack_vcpu_read \<and>
             ext vm' = advance_vcpu_fault (env pf) v (set_vcpu_fault_data (env pf) v (push_bit (fault_shift (env pf) v (ext vm)) d) (ext vm)) \<or>
           callback ack = Some Ioack_vcpu_write \<and> ext vm' = advance_vcpu_fault (env pf) v (ext vm))
      | Some (Native_data t) \<Rightarrow> slot (natives vm t) = int i \<and> (\<forall>u. u \<noteq> t \<longrightarrow> natives vm' u = natives vm u) \<and>
          ext vm' = sync_sem_post (env pf) (Handoff t) (ext vm) \<and>
          (callback ack = Some Ioack_native_read \<and> ioreq_native_end t vm' = (0, d) \<or>
           callback ack = Some Ioack_native_write \<and> natives vm' t = natives vm t)
      | None \<Rightarrow> False)"

lemma call_delivers:
  assumes "owner_ok pf vm i (ioacks (proxies vm p) ! i)" "callback (ioacks (proxies vm p) ! i) = Some f"
    "call_ioack pf f (ack_data (ioacks (proxies vm p) ! i)) d (set_iobuf p mem vm) = Inr (0, vm1)" "ext vm' = ext vm1" "natives vm' = natives vm1"
  shows "delivers pf p i d vm vm'"
  using assms
  by (auto simp: delivers_def owner_ok_def Let_def ioack_native_read_def ioack_native_write_def ioack_vcpu_read_def ioack_vcpu_write_def
      ioreq_native_end_def ioreq_native_wait_def set_iobuf_def split: option.splits ack_cookie.splits)

text \<open>
  One pass of the loop over the answers: the message at the head is taken, the callback of the slot
  it names runs, the slot is free again, and so is the message.
\<close>

lemma answer_step:
  assumes inv: "sys_inv pf p s" and k: "ids driver_drvrpc_resp (pages p (host s)) = k # ks"
    and m: "m = msg_at (pages p (host s)) k"
  shows "\<exists>vm' mem st. resp_step pf p (host s) = Inr (Some (0, vm'), vm') \<and> moved driver_drvrpc_resp ks (pages p (host s)) mem \<and>
    msg_at mem = msg_at (pages p (host s)) \<and> state_ok st \<and> lent st = lent (lending (host s) p) - {int k} \<and>
    proxies vm' p = (proxies (host s) p)\<lparr>iobuf := mem,
      ioacks := (ioacks (proxies (host s) p))[slot_of m := (ioacks (proxies (host s) p) ! slot_of m)\<lparr>callback := None\<rparr>],
      rpc := (rpc (proxies (host s) p))\<lparr>driver_rpc := (driver_rpc (rpc (proxies (host s) p)))\<lparr>buffer_state := st\<rparr>\<rparr>\<rparr> \<and>
    free_native_slot vm' = free_native_slot (host s) \<and> (\<forall>t. slot (natives vm' t) = slot (natives (host s) t)) \<and> devices_ok vm' \<and>
    delivers pf p (slot_of m) (mr2 m) (host s) vm'"
proof -
  let ?r = driver_drvrpc_resp and ?mem = "pages p (host s)" and ?px = "proxies (host s) p"
  let ?i = "slot_of m"
  note h = invD(1) [OF inv, unfolded handles_ok_def]
  obtain mem where q: "rpcmsg_receive_response Userspace ?r ?mem = Inr (Some (int k), Some (of_nat k), mem)" "moved ?r ks ?mem mem" "msg_at mem = msg_at ?mem"
    using page_dequeue [OF invD(2) [OF inv] in_places(3) k] by blast
  note mv = movedD [OF q(2)]
  have "mset (flight ?mem (km_held s) (dev_held s)) = add_mset k (mset (flight mem (km_held s) (dev_held s)))"
    using flight_moved [OF q(2) in_places(3)] k by (simp add: flight_def)
  note t = tracks_remove [OF invD(4) [OF inv] this, folded m]
  have i: "?i < NUM_IOACKS" using t(2) by (simp add: awaited_def)
  obtain f vm1 where f: "callback (ioacks ?px ! ?i) = Some f"
    "call_ioack pf f (ack_data (ioacks ?px ! ?i)) (mr2 m) (set_iobuf p mem (host s)) = Inr (0, vm1)"
    "proxies vm1 = proxies (set_iobuf p mem (host s))" "free_native_slot vm1 = free_native_slot (host s)"
    "\<And>t. slot (natives vm1 t) = slot (natives (host s) t)" "devices_ok vm1"
    using owner_call [of pf "set_iobuf p mem (host s)" ?i "ioacks ?px ! ?i" "mr2 m"] invD(5) [OF inv t(2)] invD(7) [OF inv] by auto
  let ?vm2 = "set_proxy p (?px\<lparr>iobuf := mem, ioacks := (ioacks ?px)[?i := (ioacks ?px ! ?i)\<lparr>callback := None\<rparr>]\<rparr>) vm1"
  have px1: "proxies vm1 p = ?px\<lparr>iobuf := mem\<rparr>" by (simp add: f(3) set_iobuf_def)
  have fin: "rpc_process pf m p (set_iobuf p mem (host s)) = Inr (0, ?vm2)"
    using h i f(1,2) px1 unfolding process_mmio [OF t(3)] handle_mmio_def slot_of_def [symmetric]
    by (simp add: ioreq_finish_def slot_of_def [symmetric] finish_rc_def Let_def)
  have len: "k < RPCMSG_BUFFER_SIZE" using ids_less [OF invD(2) [OF inv] in_places(3), of k] k by simp
  obtain st where st: "rpcmsg_reclaim_buffer (lending (host s) p) (Some (int k)) = Inr st" "state_ok st" "lent st = lent (lending (host s) p) - {int k}"
    using reclaim_buffer_ok [of "lending (host s) p" k] h len by auto
  have ref: "ref_ok ?r mem" using pages_ok_rpc [OF mv(1) in_places(3)] by (simp add: rpc_ok_def)
  have "read_msg (buffer_at mem ?r) (Some (int k)) = Inr m"
    using len pages_ok_messages [OF mv(1) in_places(3)] by (simp add: read_msg_def msg_at_place q(3) m)
  then have "resp_step pf p (host s) = Inr (Some (0, set_buffer_state p st ?vm2), set_buffer_state p st ?vm2)"
    using q(1) h fin st(1) by (simp add: resp_step_def Let_def set_iobuf_queues load_queue_ok [OF ref])
  moreover have "devices_ok (set_buffer_state p st ?vm2)" using f(6) by (simp add: devices_ok_def bus_ok_def set_buffer_state_def Let_def)
  moreover have "delivers pf p ?i (mr2 m) (host s) (set_buffer_state p st ?vm2)"
    using call_delivers [OF _ f(1,2)] invD(5) [OF inv t(2)] by (simp add: set_buffer_state_def Let_def)
  ultimately show ?thesis
    using q(2,3) st(2,3) f(4,5) by (intro exI [of _ "set_buffer_state p st ?vm2"] exI [of _ mem] exI [of _ st]) (simp add: set_buffer_state_def Let_def)
qed

lemma inv_complete:
  assumes inv: "sys_inv pf p s" and k: "ids driver_drvrpc_resp (pages p (host s)) = k # ks"
  shows "\<exists>vm'. resp_step pf p (host s) = Inr (Some (0, vm'), vm') \<and> sys_inv pf p (s\<lparr>host := vm'\<rparr>) \<and>
    moved driver_drvrpc_resp ks (pages p (host s)) (pages p vm') \<and> msg_at (pages p vm') = msg_at (pages p (host s)) \<and>
    free_native_slot vm' = free_native_slot (host s) \<and> (\<forall>t. slot (natives vm' t) = slot (natives (host s) t)) \<and>
    delivers pf p (slot_of (msg_at (pages p (host s)) k)) (mr2 (msg_at (pages p (host s)) k)) (host s) vm'"
proof -
  let ?r = driver_drvrpc_resp and ?mem = "pages p (host s)" and ?px = "proxies (host s) p"
  let ?i = "slot_of (msg_at ?mem k)"
  note h = invD(1) [OF inv, unfolded handles_ok_def]
  obtain vm' mem st where run: "resp_step pf p (host s) = Inr (Some (0, vm'), vm')" and q: "moved ?r ks ?mem mem" "msg_at mem = msg_at ?mem"
    and st: "state_ok st" "lent st = lent (lending (host s) p) - {int k}"
    and px: "proxies vm' p = ?px\<lparr>iobuf := mem, ioacks := (ioacks ?px)[?i := (ioacks ?px ! ?i)\<lparr>callback := None\<rparr>],
      rpc := (rpc ?px)\<lparr>driver_rpc := (driver_rpc (rpc ?px))\<lparr>buffer_state := st\<rparr>\<rparr>\<rparr>"
    and nat': "free_native_slot vm' = free_native_slot (host s)" "\<And>t. slot (natives vm' t) = slot (natives (host s) t)" "devices_ok vm'"
    and dl: "delivers pf p ?i (mr2 (msg_at ?mem k)) (host s) vm'"
    using answer_step [OF assms refl] by metis
  note m = movedD [OF q(1)]
  have "mset (flight ?mem (km_held s) (dev_held s)) = add_mset k (mset (flight mem (km_held s) (dev_held s)))"
    using flight_moved [OF q(1) in_places(3)] k by (simp add: flight_def)
  note t = tracks_remove [OF invD(4) [OF inv] this]
  have "?i < NUM_IOACKS" using t(2) by (simp add: awaited_def)
  then have aw: "awaited p vm' = awaited p (host s) - {?i}"
    using h unfolding awaited_def px by (auto simp: nth_list_update split: if_splits)
  have "owner_ok pf vm' j (ioacks (proxies vm' p) ! j) \<and> int j < free_native_slot vm'" if "j \<in> awaited p vm'" for j
  proof -
    from that have j: "j \<in> awaited p (host s)" "j \<noteq> ?i" unfolding aw by auto
    have "ioacks (proxies vm' p) ! j = ioacks ?px ! j" using j(2) unfolding px by simp
    with invD(5) [OF inv j(1)] owner_other [of pf "host s" j _ vm'] nat' show ?thesis by simp
  qed
  moreover have "natives_ok vm'" using invD(3) [OF inv] unfolding natives_ok_def nat' .
  moreover have "handles_ok p vm'" using h st(1) by (simp add: handles_ok_def px)
  moreover have "tracks (msg_at mem) (flight mem (km_held s) (dev_held s)) (lent st) (awaited p vm')" unfolding q(2) st(2) aw by (rule t(1))
  ultimately have "sys_inv pf p (s\<lparr>host := vm'\<rparr>)" using m(1,4) invD(6) [OF inv] nat'(3) by (simp add: sys_inv_def Let_def px)
  with run q nat' dl show ?thesis by (auto simp: px)
qed

subsection \<open>Events\<close>

text \<open>
  A handler that cannot abort and does not complete requests, for every operation but the answer
  to an MMIO request.
\<close>

definition same_waiters :: "'w vmm \<Rightarrow> 'w vmm \<Rightarrow> bool" where
  "same_waiters vm vm' \<longleftrightarrow> natives vm' = natives vm \<and> free_native_slot vm' = free_native_slot vm \<and>
     (\<forall>q. ioacks (proxies vm' q) = ioacks (proxies vm q))"

locale steady_handler = rpc_handler +
  assumes steady: "op \<noteq> QEMU_OP_MMIO \<Longrightarrow> devices_ok vm \<Longrightarrow>
    \<exists>rc vm'. handle pf p op msg vm = Inr (rc, vm') \<and> devices_ok vm' \<and> same_waiters vm vm'"
begin

lemma chain_steady:
  assumes "op \<noteq> QEMU_OP_MMIO" "devices_ok vm"
    and "\<And>vm. devices_ok vm \<Longrightarrow> \<exists>rc vm'. run_callbacks cbs pf p op msg vm = Inr (rc, vm') \<and> devices_ok vm' \<and> same_waiters vm vm'"
  shows "\<exists>rc vm'. run_callbacks (handle # cbs) pf p op msg vm = Inr (rc, vm') \<and> devices_ok vm' \<and> same_waiters vm vm'"
proof -
  obtain rc vm1 where h: "handle pf p op msg vm = Inr (rc, vm1)" "devices_ok vm1" "same_waiters vm vm1"
    using steady [OF assms(1,2)] by blast
  obtain rc2 vm2 where c: "run_callbacks cbs pf p op msg vm1 = Inr (rc2, vm2)" "devices_ok vm2" "same_waiters vm1 vm2"
    using assms(3) [OF h(2)] by blast
  show ?thesis using h c by (cases "rc = RPCMSG_RC_NONE") (auto simp: same_waiters_def)
qed

end

interpretation mmio_handler: steady_handler handle_mmio "{QEMU_OP_MMIO}"
  by unfold_locales (simp add: handle_mmio_def same_waiters_def)

interpretation msi_handler: steady_handler handle_msi "{QEMU_OP_SET_IRQ}"
proof unfold_locales
  fix op :: u32 and vm :: "'a vmm" and pf :: "'a platform" and p msg
  assume ok: "devices_ok vm"
  then have v: "v2m_ok (v2m vm)" by (simp add: devices_ok_def)
  have "\<exists>rc w. msi_handle (env pf) (v2m vm) op msg (ext vm) = Inr (rc, w)"
    using v2m_line [OF v, of "ucast (mr1 msg)"]
    by (auto simp: msi_handle_def msi_irq_set_def v2m_inject_irq_def case_prod_beta)
  then show "\<exists>rc vm'. handle_msi pf p op msg vm = Inr (rc, vm') \<and> devices_ok vm' \<and> same_waiters vm vm'"
    using ok by (auto simp: handle_msi_def devices_ok_def bus_ok_def same_waiters_def)
qed

text \<open>The parts of the state that the handlers of interrupts, PCI devices and regions never write.\<close>

definition same_rest :: "'w vmm \<Rightarrow> 'w vmm \<Rightarrow> bool" where
  "same_rest vm vm' \<longleftrightarrow> natives vm' = natives vm \<and> free_native_slot vm' = free_native_slot vm \<and> v2m vm' = v2m vm \<and> emudev_vm vm' = emudev_vm vm"

lemma intx_rest:
  "pcidev_intx_set pf p bdf level vm = Inr (rc, vm') \<Longrightarrow> same_rest vm vm'"
  by (auto simp: pcidev_intx_set_def andthen_def same_rest_def split: if_splits sum.splits option.splits)

lemma pci_intx_rest: "handle_pci_intx pf p bdf op vm = Inr (rc, vm') \<Longrightarrow> same_rest vm vm'"
  by (auto simp: handle_pci_intx_def andthen_def same_rest_def split: if_splits sum.splits dest!: intx_rest)

lemma register_rest: "pcidev_register pf p bdf vm = (rc, vm') \<Longrightarrow> same_rest vm vm'"
  by (auto simp: pcidev_register_def same_rest_def Let_def split: if_splits prod.splits)

lemma pci_rest: "handle_pci pf p op msg vm = Inr (rc, vm') \<Longrightarrow> same_rest vm vm'"
  by (auto simp: handle_pci_def andthen_def split: if_splits sum.splits option.splits prod.splits
      dest: pci_intx_rest register_rest) (simp_all add: same_rest_def)

interpretation pci_handler: steady_handler handle_pci "{QEMU_OP_SET_IRQ, QEMU_OP_REGISTER_PCI_DEV}"
proof unfold_locales
  fix op :: u32 and vm :: "'a vmm" and pf :: "'a platform" and p msg
  assume ok: "devices_ok vm"
  then obtain rc vm' where h: "handle_pci pf p op msg vm = Inr (rc, vm')" "bus_ok vm'" "proxies vm' = proxies vm"
    using handle_pci_ok [of vm pf p op msg] unfolding devices_ok_def by blast
  with pci_rest [OF h(1)] ok show "\<exists>rc vm'. handle_pci pf p op msg vm = Inr (rc, vm') \<and> devices_ok vm' \<and> same_waiters vm vm'"
    by (auto simp: devices_ok_def same_waiters_def same_rest_def)
qed

lemma emudev_returns:
  assumes "emudev_vm vm"
  shows "\<exists>rc vm'. handle_emudev pf p op msg vm = Inr (rc, vm') \<and> same_rest vm vm' \<and> proxies vm' = proxies vm \<and>
    pci_devs vm' = pci_devs vm \<and> pci_intx vm' = pci_intx vm"
  using assms
  by (auto simp: handle_emudev_def emudev_mmio_config_def emudev_irq_set_def emudev_irq_register_def drive_line_def same_rest_def
      case_prod_beta Let_def split: option.split)

interpretation emudev_handler: steady_handler handle_emudev "{QEMU_OP_MMIO_REGION_CONFIG, QEMU_OP_SET_IRQ}"
proof unfold_locales
  fix op :: u32 and vm :: "'a vmm" and pf :: "'a platform" and p msg
  assume ok: "devices_ok vm"
  then have "emudev_vm vm" by (simp add: devices_ok_def)
  from emudev_returns [OF this, of pf p op msg] ok
  show "\<exists>rc vm'. handle_emudev pf p op msg vm = Inr (rc, vm') \<and> devices_ok vm' \<and> same_waiters vm vm'"
    by (auto simp: devices_ok_def same_waiters_def same_rest_def bus_ok_def)
qed

interpretation control_handler: steady_handler handle_control "{QEMU_OP_START_VM}"
  by unfold_locales (auto simp: handle_control_def devices_ok_def bus_ok_def same_waiters_def Let_def)

lemma process_steady:
  assumes "QEMU_OP (mr0 m) \<noteq> QEMU_OP_MMIO" "devices_ok vm"
  shows "\<exists>rc vm'. rpc_process pf m p vm = Inr (rc, vm') \<and> devices_ok vm' \<and> same_waiters vm vm' \<and> same_rpc vm vm'"
proof -
  note op = assms(1)
  have none: "\<exists>rc vm'. run_callbacks [] pf p (QEMU_OP (mr0 m)) m vm = Inr (rc, vm') \<and> devices_ok vm' \<and> same_waiters vm vm'"
    if "devices_ok vm" for vm using that by (simp add: same_waiters_def)
  have "\<exists>rc vm'. run_callbacks rpc_callbacks pf p (QEMU_OP (mr0 m)) m vm = Inr (rc, vm') \<and> devices_ok vm' \<and> same_waiters vm vm'"
    unfolding rpc_callbacks_def
    by (intro mmio_handler.chain_steady [OF op] msi_handler.chain_steady [OF op] pci_handler.chain_steady [OF op]
        emudev_handler.chain_steady [OF op] control_handler.chain_steady [OF op] none assms(2))
  then obtain rc vm' where "run_callbacks rpc_callbacks pf p (QEMU_OP (mr0 m)) m vm = Inr (rc, vm')" "devices_ok vm'" "same_waiters vm vm'" by blast
  then have "\<exists>rc. rpc_process pf m p vm = Inr (rc, vm')" by (simp add: rpc_process_def)
  with \<open>devices_ok vm'\<close> \<open>same_waiters vm vm'\<close> show ?thesis using rpc_process_frame(1) by blast
qed

lemma inv_notice:
  assumes inv: "sys_inv pf p s" and e: "event_contents devevt_queue (pages p (host s)) = m # ms"
  shows "\<exists>rc vm'. event_step pf p (host s) = Inr (Some (rc, vm'), vm') \<and> sys_inv pf p (s\<lparr>host := vm'\<rparr>) \<and>
    event_contents devevt_queue (pages p vm') = ms \<and> awaited p vm' = awaited p (host s) \<and>
    (\<forall>r \<in> places. ids r (pages p vm') = ids r (pages p (host s))) \<and> msg_at (pages p vm') = msg_at (pages p (host s)) \<and>
    natives vm' = natives (host s) \<and> free_native_slot vm' = free_native_slot (host s)"
proof -
  note h = invD(1) [OF inv, unfolded handles_ok_def]
  obtain mem where q: "rpcmsg_event_rx Userspace devevt_queue (pages p (host s)) = Inr (0, Some m, mem)" "pages_ok mem"
    "\<And>r. r \<in> places \<Longrightarrow> ids r mem = ids r (pages p (host s))" "msg_at mem = msg_at (pages p (host s))" "event_contents devevt_queue mem = ms"
    using page_event_rx [OF invD(2) [OF inv] e, of Userspace] by auto
  have inv1: "sys_inv pf p \<lparr>host = set_iobuf p mem (host s), km_held = km_held s, dev_held = dev_held s\<rparr>"
    by (rule inv_move [OF inv q(2)]) (use q invD(6) [OF inv] e in \<open>auto simp: flight_def\<close>)
  have "QEMU_OP (mr0 m) \<noteq> QEMU_OP_MMIO" using invD(6) [OF inv, of m] e by simp
  from process_steady [OF this, of "set_iobuf p mem (host s)" pf p] invD(7) [OF inv] obtain rc vm' where
    v: "rpc_process pf m p (set_iobuf p mem (host s)) = Inr (rc, vm')" "devices_ok vm'" "same_waiters (set_iobuf p mem (host s)) vm'"
      "same_rpc (set_iobuf p mem (host s)) vm'" by auto
  have run: "event_step pf p (host s) = Inr (Some (rc, vm'), vm')" using q(1) v(1) h by (simp add: event_step_def Let_def)
  have px: "rpc (proxies vm' p) = rpc (proxies (host s) p)" "pages p vm' = mem" "ioacks (proxies vm' p) = ioacks (proxies (host s) p)"
    "natives vm' = natives (host s)" "free_native_slot vm' = free_native_slot (host s)"
    using v(3,4) by (simp_all add: same_rpc_def same_waiters_def) (simp_all add: set_iobuf_def)
  have aw: "awaited p vm' = awaited p (host s)" by (simp add: awaited_def px)
  have own: "owner_ok pf vm' i ack = owner_ok pf (host s) i ack" for i ack by (simp add: owner_ok_def px split: option.split ack_cookie.split)
  have "sys_inv pf p (s\<lparr>host := vm'\<rparr>)"
    using inv1 v(2) aw h unfolding sys_inv_def Let_def
    by (simp add: px own set_iobuf_queues handles_ok_def natives_ok_def)
  with run q(3-5) aw show ?thesis by (auto simp: px)
qed

subsection \<open>Every step\<close>

lemma complete_pending:
  assumes "sys_inv pf p s" "resp_step pf p (host s) = Inr (Some r, vm')"
  shows "\<exists>k ks. ids driver_drvrpc_resp (pages p (host s)) = k # ks"
proof (cases "ids driver_drvrpc_resp (pages p (host s))")
  case Nil
  then show ?thesis
    using assms(2) invD(1) [OF assms(1)] page_dequeue_empty(2) [OF invD(2) [OF assms(1)] in_places(3) Nil, of Userspace]
    by (simp add: resp_step_def Let_def handles_ok_def)
qed simp

lemma notice_pending:
  assumes "sys_inv pf p s" "event_step pf p (host s) = Inr (Some r, vm')"
  shows "\<exists>m ms. event_contents devevt_queue (pages p (host s)) = m # ms"
proof (cases "event_contents devevt_queue (pages p (host s))")
  case Nil
  have "event_ok devevt_queue (pages p (host s))" using invD(2) [OF assms(1)] by (simp add: pages_ok_def)
  from events.recv_none [OF this Nil, of Userspace] show ?thesis
    using assms(2) invD(1) [OF assms(1)] by (simp add: event_step_def Let_def handles_ok_def)
qed simp

lemma serve_served:
  assumes "serve_step pf p km dv s s'" "backend_handles km dv" "sys_inv pf p s"
  shows "served pf p s s'"
  using assms(1)
proof cases
  case (km_receive bd k mem')
  then show ?thesis using served_km_receive [OF assms(3), of bd k mem'] assms(2) by (simp add: backend_handles_def)
next
  case (km_forward k bd mem')
  then show ?thesis using served_km_forward [OF assms(3), of k dv bd 0 mem'] assms(2) by (simp add: backend_handles_def)
next
  case (km_answer k bd b data e mem' b')
  then show ?thesis using served_km_answer [OF assms(3), of k km bd b data e mem' b'] assms(2) by (simp add: backend_handles_def)
next
  case (dev_receive bd k mem')
  then show ?thesis using served_dev_receive [OF assms(3), of bd k mem'] assms(2) by (simp add: backend_handles_def)
next
  case (dev_answer k bd b data e mem' b')
  then show ?thesis using served_dev_answer [OF assms(3), of k dv bd b data e mem' b'] assms(2) by (simp add: backend_handles_def)
next
  case (complete rc vm')
  obtain k ks where k: "ids driver_drvrpc_resp (pages p (host s)) = k # ks" using complete_pending [OF assms(3) complete(2)] by blast
  then have v: "sys_inv pf p (s\<lparr>host := vm'\<rparr>)" "moved driver_drvrpc_resp ks (pages p (host s)) (pages p vm')"
    using inv_complete [OF assms(3) k] complete(2) by auto
  show ?thesis unfolding served_def complete(1) using v flight_moved [OF v(2) in_places(3)] k by (simp add: work_def)
qed

text \<open>As long as a message is under way, somebody can move it on.\<close>

lemma serve_enabled:
  assumes "backend_handles km dv" "sys_inv pf p s" "flight (pages p (host s)) (km_held s) (dev_held s) \<noteq> []"
  shows "\<exists>s'. serve_step pf p km dv s s'"
proof -
  let ?m = "pages p (host s)"
  note ok = invD(2) [OF assms(2)] and h = assms(1) [unfolded backend_handles_def]
  from assms(3) consider (req) k ks where "ids driver_drvrpc_req ?m = k # ks" | (km) k where "k \<in> set (km_held s)"
    | (dev) k ks where "ids device_drvrpc_req ?m = k # ks" | (dv) k where "k \<in> set (dev_held s)"
    | (resp) k ks where "ids driver_drvrpc_resp ?m = k # ks"
    unfolding flight_def by (metis append_Nil2 append_is_Nil_conv list.set_intros(1) neq_Nil_conv)
  then show ?thesis
  proof cases
    case req
    obtain mem' where "rpcmsg_receive Linux_kernel (request (driver_rpc km)) ?m = Inr (Some (int k), mem')"
      using page_dequeue [OF ok in_places(1) req, of Linux_kernel] h by auto
    then show ?thesis using serve_step.km_receive by blast
  next
    case km
    obtain rc mem' b where "driver_rpc_ack_mmio_finish Linux_kernel km ?m undefined (Some (int k)) 0 = Inr (rc, mem', b)"
      using page_ack [OF ok, of km k Linux_kernel undefined 0] flight_room [OF assms(2) disjI1 [OF km] in_places(3)] h by (auto simp: case_prod_beta)
    from serve_step.km_answer [OF km this] show ?thesis by (rule exI)
  next
    case dev
    obtain mem' where "rpcmsg_receive Userspace (request (driver_rpc dv)) ?m = Inr (Some (int k), mem')"
      using page_dequeue [OF ok in_places(2) dev, of Userspace] h by auto
    then show ?thesis using serve_step.dev_receive by blast
  next
    case dv
    obtain rc mem' b where "driver_rpc_ack_mmio_finish Userspace dv ?m undefined (Some (int k)) 0 = Inr (rc, mem', b)"
      using page_ack [OF ok, of dv k Userspace undefined 0] flight_room [OF assms(2) disjI2 [OF dv] in_places(3)] h by (auto simp: case_prod_beta)
    from serve_step.dev_answer [OF dv this] show ?thesis by (rule exI)
  next
    case resp
    then show ?thesis using inv_complete [OF assms(2) resp] serve_step.complete by blast
  qed
qed

lemma own_inv:
  assumes "own_step pf p km dv s s'" "backend_handles km dv" "sys_inv pf p s"
  shows "sys_inv pf p s'"
  using assms(1)
proof cases
  case (fault v len a r vm')
  with inv_fault [OF assms(3) fault(2,3,4), of a] show ?thesis by auto
next
  case (native t len sp dir a v0 e vm')
  obtain sl vm0 where "ioreq_native_slot pf t (host s) = (sl, vm0)" by fastforce
  with inv_native [OF assms(3) native(2,3) this, of sp dir a v0] native show ?thesis by auto
next
  case serve
  from serve_served [OF this assms(2,3)] show ?thesis by (simp add: served_def)
next
  case (dev_event m op bd b e mem' b')
  then show ?thesis using inv_dev_event [OF assms(3), of dv m op bd b e mem' b'] assms(2) by (simp add: backend_handles_def)
next
  case (notice rc vm')
  with notice_pending [OF assms(3) notice(2)] inv_notice [OF assms(3)] show ?thesis by fastforce
qed

lemma step_inv:
  assumes "sys_step pf p km dv s s'" "backend_handles km dv" "sys_inv pf p s"
  shows "sys_inv pf p s'"
  using assms(1)
proof cases
  case own
  from own_inv [OF this assms(2,3)] show ?thesis .
next
  case (other vm')
  then show ?thesis using inv_other [OF assms(3), of vm'] by simp
qed

lemma reachable_inv: "reachable pf p km dv s \<Longrightarrow> backend_handles km dv \<Longrightarrow> sys_inv pf p s"
  by (induction rule: reachable.induct) (auto intro: start_inv step_inv)

end
