(* ===== verification/Vm_Progress.thy ===== *)
theory Vm_Progress
  imports Vm_Guarantees
begin

text \<open>
  What holds in every reachable state of a proxy and its backend: each message is in one place, no
  request is refused, \<open>rpc_run\<close> always returns and completes every answer, and every request that
  is under way can still be completed.
\<close>

subsection \<open>Loops that cannot abort\<close>

locale safe_drain = drain_loop +
  assumes returns: "ok vm \<Longrightarrow> pending vm = m # ms \<Longrightarrow> \<exists>rc vm'. body vm = Inr (Some (rc, vm'), vm')"
begin

lemma drain_safe: "ok vm \<Longrightarrow> \<exists>rc' vm'. drain body rc vm = Some (Inr (rc', vm')) \<and> ok vm'"
proof (induction "pending vm" arbitrary: vm rc)
  case Nil
  with stop [of vm] show ?case by (subst drain.simps) auto
next
  case (Cons m ms)
  from returns [OF Cons.prems Cons.hyps(2) [symmetric]] obtain rc1 vm1 where b: "body vm = Inr (Some (rc1, vm1), vm1)" by blast
  with work [OF Cons.prems Cons.hyps(2) [symmetric]] have vm1: "ok vm1" "pending vm1 = ms" by auto
  show ?case using b vm1 Cons.hyps(1) [OF vm1(2) [symmetric] vm1(1), of 0] by (subst drain.simps) auto
qed

end

text \<open>A loop whose body never fails either empties its queue.\<close>

locale sure_drain = drain_loop +
  assumes succeeds: "ok vm \<Longrightarrow> pending vm = m # ms \<Longrightarrow> \<exists>vm'. body vm = Inr (Some (0, vm'), vm')"
begin

lemma drain_sure: "ok vm \<Longrightarrow> \<exists>vm'. drain body 0 vm = Some (Inr (0, vm')) \<and> ok vm' \<and> pending vm' = []"
proof (induction "pending vm" arbitrary: vm)
  case Nil
  with stop [of vm] show ?case by (subst drain.simps) auto
next
  case (Cons m ms)
  from succeeds [OF Cons.prems Cons.hyps(2) [symmetric]] obtain vm1 where b: "body vm = Inr (Some (0, vm1), vm1)" by blast
  with work [OF Cons.prems Cons.hyps(2) [symmetric]] have vm1: "ok vm1" "pending vm1 = ms" by auto
  show ?case using b Cons.hyps(1) [OF vm1(2) [symmetric] vm1(1)] by (subst drain.simps) auto
qed

end

sublocale sure_drain \<subseteq> safe_drain
  using succeeds by unfold_locales blast

subsection \<open>The two loops of rpc_run in a reachable state\<close>

text \<open>What the loop over the answers leaves alone: the messages and the queues other than its own.\<close>

definition answering :: "'w platform \<Rightarrow> proxy_ptr \<Rightarrow> ('c, 'b) vso_rpc \<Rightarrow> ('c, 'b) vso_rpc \<Rightarrow> 'w system \<Rightarrow> 'w vmm \<Rightarrow> bool" where
  "answering pf p km dv s vm \<longleftrightarrow> backend_handles km dv \<and> reachable pf p km dv (s\<lparr>host := vm\<rparr>) \<and>
     msg_at (pages p vm) = msg_at (pages p (host s)) \<and>
     (\<forall>r \<in> places. r \<noteq> driver_drvrpc_resp \<longrightarrow> ids r (pages p vm) = ids r (pages p (host s)))"

definition noticing :: "'w platform \<Rightarrow> proxy_ptr \<Rightarrow> ('c, 'b) vso_rpc \<Rightarrow> ('c, 'b) vso_rpc \<Rightarrow> 'w system \<Rightarrow> 'w vmm \<Rightarrow> bool" where
  "noticing pf p km dv s vm \<longleftrightarrow> backend_handles km dv \<and> reachable pf p km dv (s\<lparr>host := vm\<rparr>) \<and>
     awaited p vm = awaited p (host s) \<and> (\<forall>r \<in> places. ids r (pages p vm) = ids r (pages p (host s)))"

lemma hostD:
  assumes "reachable pf p km dv (s\<lparr>host := vm\<rparr>)" "backend_handles km dv"
  shows "sys_inv pf p (s\<lparr>host := vm\<rparr>)" "sys_step pf p km dv (s\<lparr>host := vm\<rparr>) (s\<lparr>host := vm'\<rparr>) \<Longrightarrow> reachable pf p km dv (s\<lparr>host := vm'\<rparr>)"
  using reachable_inv [OF assms] reachable.step [OF assms(1)] by auto

lemma answering_step:
  assumes "answering pf p km dv s vm" "ids driver_drvrpc_resp (pages p vm) = k # ks"
  shows "\<exists>vm'. resp_step pf p vm = Inr (Some (0, vm'), vm') \<and> answering pf p km dv s vm' \<and> ids driver_drvrpc_resp (pages p vm') = ks"
proof -
  from assms(1) have r: "reachable pf p km dv (s\<lparr>host := vm\<rparr>)" "backend_handles km dv" by (simp_all add: answering_def)
  obtain vm' where v: "resp_step pf p vm = Inr (Some (0, vm'), vm')" "moved driver_drvrpc_resp ks (pages p vm) (pages p vm')"
    "msg_at (pages p vm') = msg_at (pages p vm)"
    using inv_complete [OF hostD(1) [OF r], of k ks] assms(2) by auto
  have "sys_step pf p km dv (s\<lparr>host := vm\<rparr>) (s\<lparr>host := vm'\<rparr>)"
    using sys_step.own [OF own_step.serve [OF serve_step.complete [of pf p "s\<lparr>host := vm\<rparr>" 0 vm' km dv]]] v(1) by simp
  from hostD(2) [OF r this] show ?thesis using v movedD(2,3) [OF v(2)] assms(1) by (auto simp: answering_def)
qed

lemma noticing_step:
  assumes "noticing pf p km dv s vm" "event_contents devevt_queue (pages p vm) = m # ms"
  shows "\<exists>rc vm'. event_step pf p vm = Inr (Some (rc, vm'), vm') \<and> noticing pf p km dv s vm' \<and> event_contents devevt_queue (pages p vm') = ms"
proof -
  from assms(1) have r: "reachable pf p km dv (s\<lparr>host := vm\<rparr>)" "backend_handles km dv" by (simp_all add: noticing_def)
  obtain rc vm' where v: "event_step pf p vm = Inr (Some (rc, vm'), vm')" "event_contents devevt_queue (pages p vm') = ms"
    "awaited p vm' = awaited p vm" "\<forall>r \<in> places. ids r (pages p vm') = ids r (pages p vm)"
    using inv_notice [OF hostD(1) [OF r], of m ms] assms(2) by auto
  have "sys_step pf p km dv (s\<lparr>host := vm\<rparr>) (s\<lparr>host := vm'\<rparr>)"
    using sys_step.own [OF own_step.notice [of pf p "s\<lparr>host := vm\<rparr>" rc vm' km dv]] v(1) by simp
  from hostD(2) [OF r this] show ?thesis using v assms(1) by (auto simp: noticing_def)
qed

interpretation answers: sure_drain "resp_step pf p" "\<lambda>vm. ids driver_drvrpc_resp (pages p vm)" "answering pf p km dv s"
  for pf :: "'w platform" and p km dv s
proof unfold_locales
  fix vm vm' :: "'w vmm" and m ms r
  assume ok: "answering pf p km dv s vm"
  then have inv: "sys_inv pf p (s\<lparr>host := vm\<rparr>)" using hostD(1) unfolding answering_def by blast
  show "\<exists>vm'. resp_step pf p vm = Inr (None, vm') \<and> answering pf p km dv s vm' \<and> ids driver_drvrpc_resp (pages p vm') = []"
    if "ids driver_drvrpc_resp (pages p vm) = []"
    using invD(1) [OF inv] page_dequeue_empty(2) [of "pages p vm" driver_drvrpc_resp Userspace] invD(2) [OF inv] that ok in_places(3)
    by (simp add: resp_step_def Let_def handles_ok_def set_iobuf_same)
  show "\<exists>rc. r = Some (rc, vm') \<and> answering pf p km dv s vm' \<and> ids driver_drvrpc_resp (pages p vm') = ms"
    if "ids driver_drvrpc_resp (pages p vm) = m # ms" "resp_step pf p vm = Inr (r, vm')"
    using answering_step [OF ok that(1)] that(2) by auto
  show "\<exists>vm'. resp_step pf p vm = Inr (Some (0, vm'), vm')" if "ids driver_drvrpc_resp (pages p vm) = m # ms"
    using answering_step [OF ok that] by auto
qed

interpretation notices: safe_drain "event_step pf p" "\<lambda>vm. event_contents devevt_queue (pages p vm)" "noticing pf p km dv s"
  for pf :: "'w platform" and p km dv s
proof unfold_locales
  fix vm vm' :: "'w vmm" and m ms r
  assume ok: "noticing pf p km dv s vm"
  then have inv: "sys_inv pf p (s\<lparr>host := vm\<rparr>)" using hostD(1) unfolding noticing_def by blast
  have ev: "event_ok devevt_queue (pages p vm)" using invD(2) [OF inv] by (simp add: pages_ok_def)
  show "\<exists>vm'. event_step pf p vm = Inr (None, vm') \<and> noticing pf p km dv s vm' \<and> event_contents devevt_queue (pages p vm') = []"
    if "event_contents devevt_queue (pages p vm) = []"
    using invD(1) [OF inv] events.recv_none [OF ev that, of Userspace] that ok
    by (simp add: event_step_def Let_def handles_ok_def set_iobuf_same)
  show "\<exists>rc. r = Some (rc, vm') \<and> noticing pf p km dv s vm' \<and> event_contents devevt_queue (pages p vm') = ms"
    if "event_contents devevt_queue (pages p vm) = m # ms" "event_step pf p vm = Inr (r, vm')"
    using noticing_step [OF ok that(1)] that(2) by auto
  show "\<exists>rc vm'. event_step pf p vm = Inr (Some (rc, vm'), vm')" if "event_contents devevt_queue (pages p vm) = m # ms"
    using noticing_step [OF ok that] by auto
qed

subsection \<open>Consequences of the invariant\<close>

text \<open>The slots of the messages in a list.\<close>

definition slots_of :: "rpcmsg_iobuf \<Rightarrow> nat list \<Rightarrow> nat set" where
  "slots_of mem L = (\<lambda>k. slot_of (msg_at mem k)) ` set L"

lemma awaited_flight: "sys_inv pf p s \<Longrightarrow> awaited p (host s) = slots_of (pages p (host s)) (flight (pages p (host s)) (km_held s) (dev_held s))"
  using invD(4) [of pf p s] by (simp add: tracks_def bij_betw_def slots_of_def)

lemma inj_image_append: "distinct (xs @ ys) \<Longrightarrow> inj_on f (set (xs @ ys)) \<Longrightarrow> f ` set xs = f ` set (xs @ ys) - f ` set ys"
  unfolding set_append by (subst inj_on_image_set_diff [symmetric]) auto

lemma answered_slots:
  assumes "sys_inv pf p s" "sys_inv pf p (s\<lparr>host := vm\<rparr>)" "answering pf p km dv s vm" "ids driver_drvrpc_resp (pages p vm) = []"
  shows "awaited p vm = awaited p (host s) - slots_of (pages p (host s)) (ids driver_drvrpc_resp (pages p (host s)))"
proof -
  let ?m = "pages p (host s)" and ?f = "\<lambda>k. slot_of (msg_at (pages p (host s)) k)"
  let ?L = "ids driver_drvrpc_req ?m @ km_held s @ ids device_drvrpc_req ?m @ dev_held s" and ?R = "ids driver_drvrpc_resp ?m"
  have L: "flight ?m (km_held s) (dev_held s) = ?L @ ?R" by (simp add: flight_def)
  have ne: "driver_drvrpc_req \<noteq> driver_drvrpc_resp" "device_drvrpc_req \<noteq> driver_drvrpc_resp" by (simp_all add: iobuf_ref_defs iobuf_layout_defs)
  have "flight (pages p vm) (km_held s) (dev_held s) = ?L"
    using assms(3,4) ne in_places unfolding answering_def flight_def by simp
  then have vm: "awaited p vm = ?f ` set ?L"
    using awaited_flight [OF assms(2)] assms(3) by (simp add: slots_of_def answering_def)
  have s: "awaited p (host s) = ?f ` set (?L @ ?R)" using awaited_flight [OF assms(1)] unfolding L slots_of_def .
  have "distinct (?L @ ?R)" "inj_on ?f (set (?L @ ?R))"
    using invD(4) [OF assms(1)] unfolding L tracks_def bij_betw_def by blast+
  then show ?thesis unfolding vm s slots_of_def by (rule inj_image_append)
qed

lemma serve_run:
  assumes "(serve_step pf p km dv ^^ n) s s'" "backend_handles km dv" "sys_inv pf p s"
  shows "sys_inv pf p s' \<and> work p s' + n \<le> work p s"
  using assms(1)
proof (induction n arbitrary: s')
  case 0
  then show ?case using assms(3) by simp
next
  case (Suc n)
  then obtain s1 where "(serve_step pf p km dv ^^ n) s s1" "serve_step pf p km dv s1 s'" by auto
  with Suc.IH [of s1] serve_served [OF _ assms(2), of pf p s1 s'] show ?case by (auto simp: served_def)
qed

lemma run_completes:
  assumes "reachable pf p km dv s" "backend_handles km dv"
  shows "\<exists>rc vm'. rpc_run pf p (host s) = Some (Inr (rc, vm')) \<and> reachable pf p km dv (s\<lparr>host := vm'\<rparr>) \<and>
    ids driver_drvrpc_resp (pages p vm') = [] \<and>
    awaited p vm' = awaited p (host s) - slots_of (pages p (host s)) (ids driver_drvrpc_resp (pages p (host s)))"
proof -
  have same: "s\<lparr>host := host s\<rparr> = s" by simp
  have "answering pf p km dv s (host s)" using assms by (simp add: answering_def same)
  from answers.drain_sure [OF this] obtain vm1 where v: "drain (resp_step pf p) 0 (host s) = Some (Inr (0, vm1))"
    "answering pf p km dv s vm1" "ids driver_drvrpc_resp (pages p vm1) = []" by blast
  have r: "reachable pf p km dv (s\<lparr>host := vm1\<rparr>)" using v(2) by (simp add: answering_def)
  then have "noticing pf p km dv (s\<lparr>host := vm1\<rparr>) vm1" using assms(2) by (simp add: noticing_def)
  from notices.drain_safe [OF this, of 0] obtain rc vm' where n: "drain (event_step pf p) 0 vm1 = Some (Inr (rc, vm'))"
    "noticing pf p km dv (s\<lparr>host := vm1\<rparr>) vm'" by blast
  have "rpc_run pf p (host s) = Some (Inr (rc, vm'))" using v(1) n(1) by (simp add: rpc_run_def)
  moreover have "ids driver_drvrpc_resp (pages p vm') = []" "awaited p vm' = awaited p vm1" "reachable pf p km dv (s\<lparr>host := vm'\<rparr>)"
    using n(2) v(3) in_places(3) by (simp_all add: noticing_def)
  moreover have "awaited p vm1 = awaited p (host s) - slots_of (pages p (host s)) (ids driver_drvrpc_resp (pages p (host s)))"
    using answered_slots [OF reachable_inv [OF assms] reachable_inv [OF r assms(2)] v(2,3)] .
  ultimately show ?thesis by auto
qed

subsection \<open>A system at boot\<close>

definition boot_system :: "unit system" where
  "boot_system = \<lparr>host = boot_vmm (), km_held = [], dev_held = []\<rparr>"

definition boot_km :: "(nat, unit) vso_rpc" where
  "boot_km = boot_rpc None 0"

definition boot_device :: "(nat, unit) vso_rpc" where
  "boot_device = (boot_rpc None 0)\<lparr>driver_rpc := \<lparr>request = device_drvrpc_req, response = device_drvrpc_resp, buffer_state = [0]\<rparr>\<rparr>"

lemma boot_backend: "backend_handles boot_km boot_device"
  by (simp add: backend_handles_def boot_km_def boot_device_def boot_rpc_def)

lemma boot_start: "sys_start p boot_system"
proof -
  let ?vm = "boot_vmm () :: unit vmm"
  have px: "proxies ?vm p = boot_proxy" by (simp add: boot_vmm_def)
  have io: "iobuf boot_proxy = boot_iobuf" by (simp add: boot_proxy_def)
  have q: "rpc_ok r boot_iobuf" "ids r boot_iobuf = []" if "r \<in> places" for r
    using that boot_queue [of r] by (auto simp: places_def iobuf_ref_defs iobuf_layout_defs ids_def rpc_contents_def queue_ids_def)
  have "handles_ok p ?vm"
    using boot_state by (simp add: handles_ok_def px) (simp add: boot_proxy_def boot_rpc_def num_ioacks)
  moreover have "devices_ok ?vm"
    using v2m_rpi4_ready_ok by (auto simp: devices_ok_def bus_ok_def boot_vmm_def PCI_NUM_PINS_def shared_line_ok_def)
  moreover have "awaited p ?vm = {}" by (auto simp: awaited_def px boot_proxy_def num_ioacks)
  ultimately show ?thesis
    using q in_places boot_refs boot_state(2) boot_natives_ok [of "()"]
    by (simp add: sys_start_def boot_system_def px io pages_ok_def flight_def) (simp add: boot_proxy_def boot_rpc_def)
qed

lemmas boot_reachable = reachable.start [OF boot_start]

lemma idle_vcpu: "vcpu_id (env idle_platform) (of_nat k) = of_nat k"
  by (simp add: idle_platform_def idle_env_def)

text \<open>The state after a fault of vCPU 3, and one in which its answer has arrived.\<close>

lemma busy_step: "\<exists>vm'. own_step idle_platform 0 boot_km boot_device boot_system (boot_system\<lparr>host := vm'\<rparr>) \<and> awaited 0 vm' = {3}"
proof -
  let ?s = boot_system
  have v: "unat (vcpu_id (env idle_platform) 3) < SEL4_MMIO_MAX_VCPU" "unat (vcpu_id (env idle_platform) 3) \<notin> awaited 0 (host ?s)"
    "awaited 0 (host ?s) = {}"
    using idle_vcpu [of 3] boot_start [of 0] by (simp_all add: SEL4_MMIO_MAX_VCPU_def sys_start_def Let_def)
  obtain vm' where f: "mmio_fault_handler idle_platform 0 3 0x70000040 4 (host ?s) = Inr (FAULT_HANDLED, vm')" "awaited 0 vm' = {3}"
    using inv_fault [OF start_inv [OF boot_start] v(1,2), of 4 "0x70000040"] v(3) idle_vcpu [of 3] by auto
  have "own_step idle_platform 0 boot_km boot_device ?s (?s\<lparr>host := vm'\<rparr>)"
    by (rule own_step.fault [OF v(1,2) _ f(1)]) simp
  with f(2) show ?thesis by blast
qed

lemma busy_reachable: "\<exists>s. reachable idle_platform 0 boot_km boot_device s \<and> awaited 0 (host s) = {3}"
proof -
  obtain vm' where v: "own_step idle_platform 0 boot_km boot_device boot_system (boot_system\<lparr>host := vm'\<rparr>)" "awaited 0 vm' = {3}"
    using busy_step by blast
  from reachable.step [OF boot_reachable sys_step.own [OF v(1)]] v(2) show ?thesis by (intro exI [of _ "boot_system\<lparr>host := vm'\<rparr>"]) simp
qed

lemma serve_waits:
  assumes "serve_step pf p km dv s s'" "sys_inv pf p s" "ids driver_drvrpc_resp (pages p (host s)) = []"
  shows "awaited p (host s') = awaited p (host s)"
  using assms(1) by cases (use complete_pending [OF assms(2)] assms(3) in \<open>auto simp: with_pages_def\<close>)

lemma answer_arrives:
  assumes "reachable pf p km dv s" "backend_handles km dv" "awaited p (host s) \<noteq> {}"
  shows "\<exists>s'. reachable pf p km dv s' \<and> awaited p (host s') = awaited p (host s) \<and> ids driver_drvrpc_resp (pages p (host s')) \<noteq> []"
  using assms(1,3)
proof (induction "work p s" arbitrary: s rule: less_induct)
  case less
  note inv = reachable_inv [OF less.prems(1) assms(2)]
  show ?case
  proof (cases "ids driver_drvrpc_resp (pages p (host s)) = []")
    case True
    have "flight (pages p (host s)) (km_held s) (dev_held s) \<noteq> []"
      using awaited_flight [OF inv] less.prems(2) by (auto simp: slots_of_def)
    from serve_enabled [OF assms(2) inv this] obtain s1 where s1: "serve_step pf p km dv s s1" by blast
    have "work p s1 < work p s" using serve_served [OF s1 assms(2) inv] by (simp add: served_def)
    from less.hyps [OF this reachable.step [OF less.prems(1) sys_step.own [OF own_step.serve [OF s1]]]] serve_waits [OF s1 inv True] less.prems(2) show ?thesis by auto
  qed (use less.prems in blast)
qed

subsection \<open>Properties\<close>

text \<open>
  C18. The state stays well formed under every step of the proxy and its backend, in whatever order: the
  handle of the proxy refers to its queues and has its doorbell and its table of slots, the four
  rings hold valid message numbers, the slots of native threads are their own, and the PCI bus, the MSI frame
  and the emulated devices are consistent.\<close>

theorem system_well_formed:
  assumes "reachable pf p km dv s" "backend_handles km dv"
  shows "handles_ok p (host s) \<and> pages_ok (pages p (host s)) \<and> natives_ok (host s) \<and> devices_ok (host s) \<and>
    (\<forall>s'. sys_step pf p km dv s s' \<longrightarrow> handles_ok p (host s') \<and> pages_ok (pages p (host s')) \<and> natives_ok (host s') \<and> devices_ok (host s'))"
proof -
  have "handles_ok p (host s) \<and> pages_ok (pages p (host s)) \<and> natives_ok (host s) \<and> devices_ok (host s)" if "reachable pf p km dv s" for s
    using invD(1-3,7) [OF reachable_inv [OF that assms(2)]] by blast
  then show ?thesis using assms(1) reachable.step [OF assms(1)] by blast
qed

theorem system_well_formed_witness:
  "\<exists>s. reachable idle_platform 0 boot_km boot_device s \<and> awaited 0 (host s) = {3} \<and> handles_ok 0 (host s) \<and> pages_ok (pages 0 (host s))"
proof -
  obtain s where "reachable idle_platform 0 boot_km boot_device s" "awaited 0 (host s) = {3}" using busy_reachable by blast
  with system_well_formed [OF this(1) boot_backend] show ?thesis by blast
qed

text \<open>
  C6. Where every message is: in any state that a proxy and its backend reach, the messages that the
  VMM has lent out are the ones in the three queues and in the hands of the kernel module and of the device,
  each in exactly one place, and their slots are, one for one, the slots in which a vCPU or a
  native thread waits.\<close>

theorem message_custody:
  assumes "reachable pf p km dv s" "backend_handles km dv"
  shows "distinct (flight (pages p (host s)) (km_held s) (dev_held s)) \<and>
    int ` set (flight (pages p (host s)) (km_held s) (dev_held s)) = lent (lending (host s) p) \<and>
    bij_betw (\<lambda>k. slot_of (msg_at (pages p (host s)) k)) (set (flight (pages p (host s)) (km_held s) (dev_held s))) (awaited p (host s)) \<and>
    (\<forall>i \<in> awaited p (host s). owner_ok pf (host s) i (ioacks (proxies (host s) p) ! i))"
  using reachable_inv [OF assms] by (auto simp: sys_inv_def Let_def tracks_def)

theorem message_custody_witness:
  "\<exists>s. reachable idle_platform 0 boot_km boot_device s \<and> card (lent (lending (host s) 0)) = 1 \<and>
    bij_betw (\<lambda>k. slot_of (msg_at (pages 0 (host s)) k)) (set (flight (pages 0 (host s)) (km_held s) (dev_held s))) {3}"
proof -
  obtain s where s: "reachable idle_platform 0 boot_km boot_device s" "awaited 0 (host s) = {3}" using busy_reachable by blast
  let ?L = "flight (pages 0 (host s)) (km_held s) (dev_held s)"
  have c: "int ` set ?L = lent (lending (host s) 0)" "bij_betw (\<lambda>k. slot_of (msg_at (pages 0 (host s)) k)) (set ?L) {3}"
    using message_custody [OF s(1) boot_backend] s(2) by auto
  have "card (set ?L) = 1" using bij_betw_same_card [OF c(2)] by simp
  then have "card (lent (lending (host s) 0)) = 1" unfolding c(1) [symmetric] by (simp add: card_image)
  with s(1) c(2) show ?thesis by blast
qed

text \<open>
  C9. No access is refused: in any state that a proxy and its backend reach, however many requests
  are under way, a fault of a vCPU that is not itself waiting is taken, and an access of a native
  thread that is not waiting and has or gets a slot starts.\<close>

theorem accesses_accepted:
  assumes "reachable pf p km dv s" "backend_handles km dv" "len \<le> 8"
  shows "(unat (vcpu_id (env pf) v) < SEL4_MMIO_MAX_VCPU \<and> unat (vcpu_id (env pf) v) \<notin> awaited p (host s) \<longrightarrow>
      (\<exists>vm'. mmio_fault_handler pf p v a len (host s) = Inr (FAULT_HANDLED, vm') \<and> reachable pf p km dv (s\<lparr>host := vm'\<rparr>) \<and>
        awaited p vm' = insert (unat (vcpu_id (env pf) v)) (awaited p (host s)))) \<and>
    ((slot (natives (host s) t) = 0 \<or> nat (slot (natives (host s) t)) \<notin> awaited p (host s)) \<and> fst (ioreq_native_slot pf t (host s)) \<noteq> -1 \<longrightarrow>
      (\<exists>vm'. ioreq_native_start pf t p sp dir a len v0 (host s) = Inr (0, vm') \<and> reachable pf p km dv (s\<lparr>host := vm'\<rparr>) \<and>
        awaited p vm' = insert (nat (fst (ioreq_native_slot pf t (host s)))) (awaited p (host s))))"
proof (intro conjI impI)
  note inv = reachable_inv [OF assms(1,2)]
  assume "unat (vcpu_id (env pf) v) < SEL4_MMIO_MAX_VCPU \<and> unat (vcpu_id (env pf) v) \<notin> awaited p (host s)"
  then have v: "unat (vcpu_id (env pf) v) < SEL4_MMIO_MAX_VCPU" "unat (vcpu_id (env pf) v) \<notin> awaited p (host s)" by blast+
  show "\<exists>vm'. mmio_fault_handler pf p v a len (host s) = Inr (FAULT_HANDLED, vm') \<and> reachable pf p km dv (s\<lparr>host := vm'\<rparr>) \<and>
      awaited p vm' = insert (unat (vcpu_id (env pf) v)) (awaited p (host s))"
    using inv_fault [OF inv v assms(3), of a] reachable.step [OF assms(1) sys_step.own [OF own_step.fault [OF v assms(3)]]] by blast
next
  note inv = reachable_inv [OF assms(1,2)]
  assume "(slot (natives (host s) t) = 0 \<or> nat (slot (natives (host s) t)) \<notin> awaited p (host s)) \<and> fst (ioreq_native_slot pf t (host s)) \<noteq> -1"
  then have t: "nat (slot (natives (host s) t)) \<notin> awaited p (host s) \<or> slot (natives (host s) t) = 0" "fst (ioreq_native_slot pf t (host s)) \<noteq> -1" by blast+
  obtain sl vm0 where sl: "ioreq_native_slot pf t (host s) = (sl, vm0)" by fastforce
  from inv_native [OF inv t(1) assms(3) sl, of sp dir a v0] t(2) sl
    reachable.step [OF assms(1) sys_step.own [OF own_step.native [OF t(1) assms(3)]]]
  show "\<exists>vm'. ioreq_native_start pf t p sp dir a len v0 (host s) = Inr (0, vm') \<and> reachable pf p km dv (s\<lparr>host := vm'\<rparr>) \<and>
      awaited p vm' = insert (nat (fst (ioreq_native_slot pf t (host s)))) (awaited p (host s))" by auto
qed

theorem accesses_accepted_witness:
  "\<exists>s vm'. reachable idle_platform 0 boot_km boot_device s \<and> awaited 0 (host s) = {3} \<and>
    mmio_fault_handler idle_platform 0 4 0x70000040 4 (host s) = Inr (FAULT_HANDLED, vm') \<and> awaited 0 vm' = {3, 4}"
proof -
  obtain s where s: "reachable idle_platform 0 boot_km boot_device s" "awaited 0 (host s) = {3}" using busy_reachable by blast
  have "unat (vcpu_id (env idle_platform) 4) = 4" using idle_vcpu [of 4] by simp
  then obtain vm' where "mmio_fault_handler idle_platform 0 4 0x70000040 4 (host s) = Inr (FAULT_HANDLED, vm')" "awaited 0 vm' = {4, 3}"
    using accesses_accepted [OF s(1) boot_backend, of 4 4 "0x70000040" 0 0 0 0] s(2) by (auto simp: SEL4_MMIO_MAX_VCPU_def)
  then show ?thesis using s by (intro exI [of _ s] exI [of _ vm']) auto
qed

text \<open>
  C7. The notification handler never aborts and never loses an answer: in any state that a proxy and its
  backend reach, \<open>rpc_run\<close> returns, every answer in the queue has completed its access, so
  that exactly its slot is free again, and the state is again a reachable one.\<close>

theorem rpc_run_completes:
  assumes "reachable pf p km dv s" "backend_handles km dv"
  shows "\<exists>rc vm'. rpc_run pf p (host s) = Some (Inr (rc, vm')) \<and> reachable pf p km dv (s\<lparr>host := vm'\<rparr>) \<and>
    ids driver_drvrpc_resp (pages p vm') = [] \<and>
    awaited p vm' = awaited p (host s) - slots_of (pages p (host s)) (ids driver_drvrpc_resp (pages p (host s)))"
  by (rule run_completes [OF assms])

theorem rpc_run_completes_witness:
  "\<exists>s rc vm'. reachable idle_platform 0 boot_km boot_device s \<and> awaited 0 (host s) = {3} \<and>
    rpc_run idle_platform 0 (host s) = Some (Inr (rc, vm')) \<and> awaited 0 vm' = {}"
proof -
  obtain s where s: "reachable idle_platform 0 boot_km boot_device s" "awaited 0 (host s) = {3}"
    "ids driver_drvrpc_resp (pages 0 (host s)) \<noteq> []"
    using answer_arrives [OF _ boot_backend] busy_reachable by force
  have "slots_of (pages 0 (host s)) (ids driver_drvrpc_resp (pages 0 (host s))) \<subseteq> {3}"
    "slots_of (pages 0 (host s)) (ids driver_drvrpc_resp (pages 0 (host s))) \<noteq> {}"
    using awaited_flight [OF reachable_inv [OF s(1) boot_backend]] s(2,3) by (auto simp: slots_of_def flight_def)
  then have "slots_of (pages 0 (host s)) (ids driver_drvrpc_resp (pages 0 (host s))) = {3}" by blast
  then show ?thesis using rpc_run_completes [OF s(1) boot_backend] s by auto
qed

text \<open>
  C8. Every request comes to its end: from any state that a proxy and its backend reach, taking,
  forwarding, answering and completing requests, in whatever order, goes on for at most five steps
  per waiting vCPU or thread, and it cannot stop before none of them waits any more.\<close>

theorem requests_come_to_end:
  assumes "reachable pf p km dv s" "backend_handles km dv" "(serve_step pf p km dv ^^ n) s s'"
  shows "n \<le> 5 * card (awaited p (host s)) \<and> ((\<exists>s''. serve_step pf p km dv s' s'') \<or> awaited p (host s') = {})"
proof -
  note inv = reachable_inv [OF assms(1,2)]
  note run = serve_run [OF assms(3,2) inv]
  have "n \<le> 5 * card (awaited p (host s))"
    using run work_le [of p s] tracks_length [OF invD(4) [OF inv]] by simp
  moreover have "awaited p (host s') = {}" if "flight (pages p (host s')) (km_held s') (dev_held s') = []"
    using awaited_flight [OF conjunct1 [OF run]] that by (simp add: slots_of_def)
  ultimately show ?thesis using serve_enabled [OF assms(2) conjunct1 [OF run]] by blast
qed

theorem requests_come_to_end_witness:
  "\<exists>s s'. reachable idle_platform 0 boot_km boot_device s \<and> awaited 0 (host s) = {3} \<and> serve_step idle_platform 0 boot_km boot_device s s' \<and>
    ((\<exists>s''. serve_step idle_platform 0 boot_km boot_device s' s'') \<or> awaited 0 (host s') = {})"
proof -
  obtain s where s: "reachable idle_platform 0 boot_km boot_device s" "awaited 0 (host s) = {3}" using busy_reachable by blast
  note inv = reachable_inv [OF s(1) boot_backend]
  have "flight (pages 0 (host s)) (km_held s) (dev_held s) \<noteq> []" using awaited_flight [OF inv] s(2) by (auto simp: slots_of_def)
  from serve_enabled [OF boot_backend inv this] obtain s' where s': "serve_step idle_platform 0 boot_km boot_device s s'" by blast
  then have "(serve_step idle_platform 0 boot_km boot_device ^^ 1) s s'" by auto
  from requests_come_to_end [OF s(1) boot_backend this] s s' show ?thesis by blast
qed

end
