(* ===== verification/Vm_Proxies.thy ===== *)
theory Vm_Proxies
  imports Vm_Progress
begin

text \<open>
  Several proxies in one VMM, each with its backend. They share the native threads, the PCI bus, the
  MSI frame and the tables of emulated devices; a call for one proxy leaves the others alone, so the
  guarantees hold for all of them at once.
\<close>

subsection \<open>What a call for one proxy leaves alone\<close>

text \<open>The other proxies, which interrupts the INTx pins are wired to, and the MSI frame.\<close>

definition leaves :: "proxy_ptr \<Rightarrow> 'w vmm \<Rightarrow> 'w vmm \<Rightarrow> bool" where
  "leaves q vm vm' \<longleftrightarrow> (\<forall>p. p \<noteq> q \<longrightarrow> proxies vm' p = proxies vm p) \<and> map sh_irq (pci_intx vm') = map sh_irq (pci_intx vm) \<and>
     irq_done vm' = irq_done vm \<and> v2m vm' = v2m vm"

lemma leaves_refl [simp]: "leaves q vm vm"
  by (simp add: leaves_def)

lemma leaves_trans: "leaves q vm vm1 \<Longrightarrow> leaves q vm1 vm2 \<Longrightarrow> leaves q vm vm2"
  by (simp add: leaves_def)

lemma leaves_set [simp]: "leaves q vm (set_proxy q px vm)" "leaves q vm (set_iobuf q mem vm)" "leaves q vm (set_buffer_state q st vm)"
  by (simp_all add: leaves_def set_iobuf_def set_buffer_state_def Let_def)

text \<open>Driving an INTx pin changes its sources and not its interrupt.\<close>

lemma shared_change_irq: "shared_irq_line_change e line source active w = Inr (rc, line', w') \<Longrightarrow> sh_irq line' = sh_irq line"
  by (auto simp: shared_irq_line_change_def Let_def andthen_eq_Inr split: if_splits prod.splits)

lemma intx_set_leaves:
  assumes "pcidev_intx_set pf q bdf level vm = Inr (rc, vm')"
  shows "leaves q vm vm'"
proof -
  have "map sh_irq ((pci_intx vm)[k := line']) = map sh_irq (pci_intx vm)"
    if "k < length (pci_intx vm)" "shared_irq_line_change e (pci_intx vm ! k) source level w = Inr (rc, line', w')" for k line' e source w rc w'
    using shared_change_irq [OF that(2)] that(1) by (simp add: map_update list_update_same_conv)
  then show ?thesis using assms
    by (auto simp: pcidev_intx_set_def leaves_def andthen_eq_Inr array_get_def split: if_splits option.splits)
qed

lemma pci_intx_leaves: "handle_pci_intx pf q bdf op vm = Inr (rc, vm') \<Longrightarrow> leaves q vm vm'"
  by (auto simp: handle_pci_intx_def andthen_eq_Inr split: if_splits dest!: intx_set_leaves intro: leaves_trans)

lemma register_leaves: "pcidev_register pf q bdf vm = (rc, vm') \<Longrightarrow> leaves q vm vm'"
  by (auto simp: pcidev_register_def leaves_def Let_def split: if_splits prod.splits)

lemma handle_pci_leaves: "handle_pci pf q op msg vm = Inr (rc, vm') \<Longrightarrow> leaves q vm vm'"
  by (auto simp: handle_pci_def andthen_def split: if_splits sum.splits option.splits prod.splits dest: pci_intx_leaves register_leaves)

lemma emudev_leaves:
  "emudev_irq_set pf q i op vm = Inr (rc, vm') \<Longrightarrow> leaves q vm vm'" "emudev_mmio_config pf q a n flags vm = (rc, vm') \<Longrightarrow> leaves q vm vm'"
  by (auto simp: emudev_irq_set_def emudev_irq_register_def drive_line_def leaves_def Let_def split: if_splits option.splits prod.splits)
    (auto simp: emudev_mmio_config_def leaves_def split: if_splits prod.splits)

lemma handle_emudev_leaves: "handle_emudev pf q op msg vm = Inr (rc, vm') \<Longrightarrow> leaves q vm vm'"
  by (auto simp: handle_emudev_def andthen_def split: if_splits sum.splits prod.splits dest: emudev_leaves)

text \<open>A handler that writes no proxy but the one it is called for.\<close>

locale private_handler =
  fixes handle :: "'w rpc_callback"
  assumes local_to: "handle pf q op msg vm = Inr (rc, vm') \<Longrightarrow> leaves q vm vm'"
begin

lemma chain_private:
  assumes "\<And>vm rc vm'. run_callbacks cbs pf q op msg vm = Inr (rc, vm') \<Longrightarrow> leaves q vm vm'"
    and "run_callbacks (handle # cbs) pf q op msg vm = Inr (rc, vm')"
  shows "leaves q vm vm'"
proof -
  from assms(2) obtain rc1 vm1 where h: "handle pf q op msg vm = Inr (rc1, vm1)"
    by (cases "handle pf q op msg vm") auto
  then have f: "leaves q vm vm1" by (rule local_to)
  show ?thesis
  proof (cases "rc1 = RPCMSG_RC_NONE")
    case True
    with assms(2) h have "run_callbacks cbs pf q op msg vm1 = Inr (rc, vm')" by simp
    with assms(1) f show ?thesis by (blast intro: leaves_trans)
  qed (use assms(2) h f in auto)
qed

end

lemma call_ioack_leaves: "call_ioack pf f ck data vm = Inr (rc, vm') \<Longrightarrow> leaves q vm vm'"
  by (cases "(pf, f, ck, data, vm)" rule: call_ioack.cases)
    (auto simp: ioack_native_read_def ioack_native_write_def ioack_vcpu_read_def ioack_vcpu_write_def Let_def leaves_def)

lemma ioreq_finish_private: "ioreq_finish pf q sl data vm = Inr (rc, vm') \<Longrightarrow> leaves q vm vm'"
  by (auto simp: ioreq_finish_def andthen_eq_Inr asserting_eq_Inr Let_def split: option.splits dest!: call_ioack_leaves [where q = q] elim: leaves_trans [OF _ leaves_set(1)])

interpretation mmio_private: private_handler handle_mmio
  by unfold_locales (auto simp: handle_mmio_def andthen_eq_Inr split: if_splits dest: ioreq_finish_private)

interpretation msi_private: private_handler handle_msi
  by unfold_locales (auto simp: handle_msi_def andthen_eq_Inr leaves_def)

interpretation pci_private: private_handler handle_pci
  by unfold_locales (rule handle_pci_leaves)

interpretation emudev_private: private_handler handle_emudev
  by unfold_locales (rule handle_emudev_leaves)

interpretation control_private: private_handler handle_control
  by unfold_locales (auto simp: handle_control_def Let_def leaves_def split: if_splits)

lemma rpc_process_private:
  assumes "rpc_process pf msg q vm = Inr (rc, vm')"
  shows "leaves q vm vm'"
proof -
  obtain rc1 where "run_callbacks rpc_callbacks pf q (QEMU_OP (mr0 msg)) msg vm = Inr (rc1, vm')"
    using assms by (auto simp: rpc_process_def andthen_eq_Inr split: if_splits)
  then show ?thesis unfolding rpc_callbacks_def
    by (elim mmio_private.chain_private [rotated] msi_private.chain_private [rotated] pci_private.chain_private [rotated]
        emudev_private.chain_private [rotated] control_private.chain_private [rotated]) simp
qed

lemma event_step_private: "event_step pf q vm = Inr (Some (rc, vm'), vm') \<Longrightarrow> leaves q vm vm'"
  by (auto simp: event_step_def Let_def andthen_eq_Inr split: if_splits option.splits dest!: rpc_process_private
      intro: leaves_trans [OF leaves_set(2)])

lemma resp_step_private: "resp_step pf q vm = Inr (Some (rc, vm'), vm') \<Longrightarrow> leaves q vm vm'"
  by (auto simp: resp_step_def Let_def andthen_eq_Inr split: if_splits option.splits dest!: rpc_process_private
      intro: leaves_trans [OF leaves_set(2)] leaves_trans [OF _ leaves_set(3)])

lemma ioreq_start_private:
  assumes "ioreq_start pf q sl rd wr ck sp dir off sz v0 vm = Inr (rc, vm')"
  shows "leaves q vm vm' \<and> natives vm' = natives vm \<and> free_native_slot vm' = free_native_slot vm"
  using assms by (auto simp: ioreq_start_def Let_def andthen_eq_Inr asserting_eq_Inr leaves_def split: if_splits)

text \<open>Every step of another proxy is one that this proxy's system admits.\<close>

lemma own_step_leaves:
  assumes "own_step pf q km dv s s'" "backend_handles km dv" "sys_inv pf q s"
  shows "leaves q (host s) (host s') \<and> free_native_slot (host s) \<le> free_native_slot (host s') \<and>
    (\<forall>t. slot (natives (host s) t) \<noteq> 0 \<longrightarrow> slot (natives (host s') t) = slot (natives (host s) t))"
  using assms(1)
proof cases
  case (fault v len a r vm')
  then show ?thesis by (auto simp: mmio_fault_handler_def Let_def andthen_eq_Inr case_prod_beta dest!: ioreq_start_private)
next
  case (native t len sp dir a v0 e vm')
  obtain sl vm0 where sl: "ioreq_native_slot pf t (host s) = (sl, vm0)" by fastforce
  note f = native_slot_frame [OF invD(3) [OF assms(3)] sl] and c = native_slot_cases [OF invD(3) [OF assms(3)] sl]
  have "leaves q vm0 vm' \<and> natives vm' = natives vm0 \<and> free_native_slot vm' = free_native_slot vm0"
    using native(4) sl by (auto simp: ioreq_native_start_def andthen_eq_Inr split: if_splits dest!: ioreq_start_private)
  moreover have "leaves q (host s) vm0"
    using sl by (auto simp: ioreq_native_slot_def leaves_def Let_def split: if_splits prod.splits)
  ultimately show ?thesis using native(1) f(1,2) leaves_trans by auto
next
  case serve
  then show ?thesis
  proof cases
    case (complete rc vm')
    obtain k ks where "ids driver_drvrpc_resp (pages q (host s)) = k # ks" using complete_pending [OF assms(3) complete(2)] by blast
    from inv_complete [OF assms(3) this] complete resp_step_private [OF complete(2)] show ?thesis by auto
  qed (simp_all add: with_pages_def)
next
  case (dev_event m op bd b e mem' b')
  then show ?thesis by (simp add: with_pages_def)
next
  case (notice rc vm')
  obtain m ms where "event_contents devevt_queue (pages q (host s)) = m # ms" using notice_pending [OF assms(3) notice(2)] by blast
  from inv_notice [OF assms(3) this] notice event_step_private [OF notice(2)] show ?thesis by auto
qed

lemma own_step_other:
  assumes "own_step pf q km dv s s'" "backend_handles km dv" "sys_inv pf q s" "p \<noteq> q" "host u = host s"
  shows "sys_step pf p km' dv' u (u\<lparr>host := host s'\<rparr>)"
proof (rule sys_step.other)
  note l = own_step_leaves [OF assms(1-3)] and i = own_inv [OF assms(1-3)]
  show "natives_ok (host s')" "devices_ok (host s')" using invD(3,7) [OF i] by auto
qed (use own_step_leaves [OF assms(1-3)] assms(4,5) in \<open>auto simp: leaves_def\<close>)

subsection \<open>All proxies of a VMM\<close>

text \<open>One VMM, and for every proxy what its kernel module and its device hold.\<close>

record 'w vmm_system =
  machine :: "'w vmm"
  km_of :: "proxy_ptr \<Rightarrow> nat list"
  dev_of :: "proxy_ptr \<Rightarrow> nat list"

definition view :: "proxy_ptr \<Rightarrow> 'w vmm_system \<Rightarrow> 'w system" where
  "view p S = \<lparr>host = machine S, km_held = km_of S p, dev_held = dev_of S p\<rparr>"

definition put :: "proxy_ptr \<Rightarrow> 'w system \<Rightarrow> 'w vmm_system \<Rightarrow> 'w vmm_system" where
  "put p s S = S\<lparr>machine := host s, km_of := (km_of S)(p := km_held s), dev_of := (dev_of S)(p := dev_held s)\<rparr>"

lemma view_put: "view q (put p s S) = (if q = p then s else (view q S)\<lparr>host := host s\<rparr>)"
  by (simp add: view_def put_def)

text \<open>\<open>hs\<close> gives the handles of the backend of each proxy.\<close>

inductive vmm_step :: "'w platform \<Rightarrow> proxy_ptr set \<Rightarrow> (proxy_ptr \<Rightarrow> ('c, 'b) vso_rpc \<times> ('c, 'b) vso_rpc) \<Rightarrow> 'w vmm_system \<Rightarrow> 'w vmm_system \<Rightarrow> bool"
  for pf :: "'w platform" and P :: "proxy_ptr set" and hs :: "proxy_ptr \<Rightarrow> ('c, 'b) vso_rpc \<times> ('c, 'b) vso_rpc" where
  step: "p \<in> P \<Longrightarrow> own_step pf p (fst (hs p)) (snd (hs p)) (view p S) s' \<Longrightarrow> vmm_step pf P hs S (put p s' S)"

definition vmm_start :: "proxy_ptr set \<Rightarrow> 'w vmm_system \<Rightarrow> bool" where
  "vmm_start P S \<longleftrightarrow> (\<forall>p \<in> P. sys_start p (view p S))"

lemma vmm_step_view:
  assumes "vmm_step pf P hs S S'" "\<forall>p \<in> P. backend_handles (fst (hs p)) (snd (hs p))" "\<forall>p \<in> P. sys_inv pf p (view p S)" "q \<in> P"
  shows "sys_step pf q (fst (hs q)) (snd (hs q)) (view q S) (view q S')"
  using assms(1)
proof cases
  case (step p s')
  show ?thesis
  proof (cases "q = p")
    case True
    with step show ?thesis by (simp add: view_put sys_step.own)
  next
    case False
    have "host (view q S) = host (view p S)" by (simp add: view_def)
    from own_step_other [OF step(3) _ _ False this] assms(2,3) step(2) have
      "sys_step pf q (fst (hs q)) (snd (hs q)) (view q S) ((view q S)\<lparr>host := host s'\<rparr>)" by blast
    with False step(1) show ?thesis by (simp add: view_put)
  qed
qed

lemma vmm_reaches:
  assumes "vmm_start P S0" "\<forall>p \<in> P. backend_handles (fst (hs p)) (snd (hs p))" "(vmm_step pf P hs)\<^sup>*\<^sup>* S0 S"
  shows "\<forall>p \<in> P. reachable pf p (fst (hs p)) (snd (hs p)) (view p S)"
  using assms(3)
proof (induction rule: rtranclp_induct)
  case base
  then show ?case using assms(1) by (auto simp: vmm_start_def intro: reachable.start)
next
  case (step S S')
  then have "\<forall>p \<in> P. sys_inv pf p (view p S)" using assms(2) reachable_inv by blast
  from vmm_step_view [OF step(2) assms(2) this] step.IH show ?case by (blast intro: reachable.step)
qed

subsection \<open>Properties\<close>

text \<open>
  C10. Proxies do not disturb each other: in a VMM with any set of proxies, after any sequence of calls by the VMM
  and all backends, every proxy is in a state of its own system, so that all guarantees for a proxy and its
  backend hold for each of them, and a call for one proxy leaves the slots, the pages and the handle of every other as they are.\<close>

theorem proxies_independent:
  assumes "vmm_start P S0" "\<forall>p \<in> P. backend_handles (fst (hs p)) (snd (hs p))" "(vmm_step pf P hs)\<^sup>*\<^sup>* S0 S"
  shows "\<forall>p \<in> P. reachable pf p (fst (hs p)) (snd (hs p)) (view p S) \<and>
    (\<forall>q \<in> P. \<forall>s'. q \<noteq> p \<and> own_step pf q (fst (hs q)) (snd (hs q)) (view q S) s' \<longrightarrow> proxies (host s') p = proxies (machine S) p)"
proof -
  note r = vmm_reaches [OF assms]
  have "proxies (host s') p = proxies (machine S) p"
    if "q \<in> P" "q \<noteq> p" "own_step pf q (fst (hs q)) (snd (hs q)) (view q S) s'" for p q s'
  proof -
    have "sys_inv pf q (view q S)" "backend_handles (fst (hs q)) (snd (hs q))" using r assms(2) that(1) reachable_inv by blast+
    from own_step_leaves [OF that(3) this(2,1)] that(2) show ?thesis by (auto simp: leaves_def view_def)
  qed
  with r show ?thesis by blast
qed

theorem proxies_independent_witness:
  "\<exists>S. reachable idle_platform 1 boot_km boot_device (view 1 S) \<and> awaited 0 (machine S) = {3} \<and> awaited 1 (machine S) = {}"
proof -
  let ?S = "\<lparr>machine = boot_vmm (), km_of = (\<lambda>_. []), dev_of = (\<lambda>_. [])\<rparr>" and ?hs = "\<lambda>_ :: proxy_ptr. (boot_km, boot_device)"
  have v: "view p ?S = boot_system" for p by (simp add: view_def boot_system_def)
  have start: "vmm_start {0, 1} ?S" using boot_start by (simp add: vmm_start_def v)
  have h: "\<forall>p \<in> {0, 1}. backend_handles (fst (?hs p)) (snd (?hs p))" using boot_backend by simp
  obtain vm' where b: "own_step idle_platform 0 boot_km boot_device boot_system (boot_system\<lparr>host := vm'\<rparr>)" "awaited 0 vm' = {3}"
    using busy_step by blast
  let ?S1 = "put 0 (boot_system\<lparr>host := vm'\<rparr>) ?S"
  have "vmm_step idle_platform {0, 1} ?hs ?S ?S1" using b(1) by (intro vmm_step.step) (simp_all add: v)
  then have r: "(vmm_step idle_platform {0, 1} ?hs)\<^sup>*\<^sup>* ?S ?S1" by (rule r_into_rtranclp)
  have m: "machine ?S1 = vm'" by (simp add: put_def)
  have "proxies vm' 1 = proxies (boot_vmm ()) 1"
    using proxies_independent [OF start h rtranclp.rtrancl_refl, of idle_platform] b(1) by (fastforce simp: v)
  then have "awaited 1 vm' = {}" using boot_start [of 1] by (simp add: awaited_def sys_start_def boot_system_def Let_def)
  with proxies_independent [OF start h r] b(2) m show ?thesis by (intro exI [of _ ?S1]) simp
qed

end
