(* ===== verification/Vm_Start.thy ===== *)
theory Vm_Start
  imports Boot Vm_Proxies
begin

text \<open>
  From start-up to service: the initialisation of a proxy ends in a state from which the guarantees
  of \<open>Vm_Progress\<close> hold, and the proxies of a VMM can be brought up one after the other while those
  that are up already serve their guests.
\<close>

text \<open>A proxy that has not been used: nothing lent, nobody waiting, and the queue of the device empty.\<close>

definition unused :: "proxy_ptr \<Rightarrow> 'w vmm \<Rightarrow> bool" where
  "unused p vm \<longleftrightarrow> rpc_ok device_drvrpc_req (pages p vm) \<and> rpc_contents device_drvrpc_req (pages p vm) = [] \<and>
     lent (lending vm p) = {} \<and> awaited p vm = {} \<and> length (ioacks (proxies vm p)) = NUM_IOACKS \<and>
     doorbell (rpc (proxies vm p)) \<noteq> None \<and> natives_ok vm \<and> length (pci_devs vm) \<le> PCI_NUM_AVAIL_DEVICES \<and>
     (irq_done vm \<longrightarrow> (\<forall>line \<in> set (pci_intx vm). shared_line_ok line))"

lemma prepared_start:
  assumes "bootable pf nl p vm" "unused p vm"
  shows "\<exists>vm5. (\<forall>run_fn. libsel4vm_io_proxy_init pf run_fn p vm =
      andthen (io_proxy_run run_fn p vm5) (\<lambda>(err, vm). if err \<noteq> 0 then Inr (-1, vm) else Inr (0, vm))) \<and>
    (\<forall>w. sys_start p \<lparr>host = vm5\<lparr>ext := w\<rparr>, km_held = [], dev_held = []\<rparr>)"
proof -
  note U = assms(2) [unfolded unused_def]
  let ?px = "proxies vm p"
  obtain vm5 mem where i: "\<forall>run_fn. libsel4vm_io_proxy_init pf run_fn p vm =
      andthen (io_proxy_run run_fn p vm5) (\<lambda>(err, vm). if err \<noteq> 0 then Inr (-1, vm) else Inr (0, vm))"
    and px: "proxies vm5 p = ?px\<lparr>iobuf := mem, rpc := (rpc ?px)\<lparr>driver_rpc := (driver_rpc (rpc ?px))\<lparr>
      request := driver_drvrpc_req, response := driver_drvrpc_resp\<rparr>, device_event := devevt_queue\<rparr>\<rparr>"
    and q: "rpc_ok driver_drvrpc_resp mem" "rpc_contents driver_drvrpc_resp mem = []" "rpc_ok driver_drvrpc_req mem" "rpc_contents driver_drvrpc_req mem = []"
      "rpc_ok device_drvrpc_req (iobuf ?px) \<longrightarrow> rpc_ok device_drvrpc_req mem" "rpc_contents device_drvrpc_req mem = rpc_contents device_drvrpc_req (iobuf ?px)"
      "event_ok devevt_queue mem" "event_contents devevt_queue mem = event_contents devevt_queue (iobuf ?px)"
    and bt: "booted pf p vm vm5"
    using boot_prepares [OF assms(1)] by (elim exE conjE) (rule that; assumption)
  note n = bt [unfolded booted_def]
  have lines: "\<forall>line \<in> set (pci_intx vm5). shared_line_ok line"
  proof (cases "irq_done vm")
    case True
    with U n show ?thesis by simp
  next
    case False
    with n show ?thesis by (simp add: shared_line_ok_def)
  qed
  have ok: "handles_ok p vm5" "natives_ok vm5" "devices_ok vm5" "awaited p vm5 = {}"
    using U n lines assms(1)
    by (simp_all add: handles_ok_def px natives_ok_def devices_ok_def bus_ok_def awaited_def bootable_def)
  have pg: "pages_ok mem" "flight mem [] [] = []" using q U by (auto simp: pages_ok_def places_def flight_def contents_ids)
  have ev: "\<forall>m \<in> set (event_contents devevt_queue mem). QEMU_OP (mr0 m) \<noteq> QEMU_OP_MMIO"
    using assms(1) unfolding q(8) by (auto simp: bootable_def QEMU_OP_START_VM_def QEMU_OP_MMIO_def)
  have "sys_start p \<lparr>host = vm5\<lparr>ext := w\<rparr>, km_held = [], dev_held = []\<rparr>" for w
    using ok pg ev U by (simp add: sys_start_def px handles_ok_def natives_ok_def devices_ok_def bus_ok_def awaited_def)
  with i show ?thesis by blast
qed

lemma boot_reaches:
  assumes "bootable pf nl p vm" "unused p vm" "backend_handles km dv" "libsel4vm_io_proxy_init pf (vm_io_proxy_run nl pf) p vm = Inr (0, vm')"
  shows "reachable pf p km dv \<lparr>host = vm', km_held = [], dev_held = []\<rparr> \<and> awaited p vm' = {}"
proof -
  obtain vm5 where v: "\<forall>run_fn. libsel4vm_io_proxy_init pf run_fn p vm =
      andthen (io_proxy_run run_fn p vm5) (\<lambda>(err, vm). if err \<noteq> 0 then Inr (-1, vm) else Inr (0, vm))"
    "\<forall>w. sys_start p \<lparr>host = vm5\<lparr>ext := w\<rparr>, km_held = [], dev_held = []\<rparr>"
    using prepared_start [OF assms(1,2)] by blast
  obtain w where w: "ntfn_recv_reg_callback nl p (ext vm5) = (0, w)" using assms(1) unfolding bootable_def by (metis prod.collapse)
  let ?s = "\<lparr>host = vm5\<lparr>ext := w\<rparr>, km_held = [], dev_held = []\<rparr>"
  have s: "sys_start p ?s" using v(2) by blast
  from run_completes [OF reachable.start [OF s] assms(3), of pf] obtain rc vm1 where
    r: "rpc_run pf p (vm5\<lparr>ext := w\<rparr>) = Some (Inr (rc, vm1))" "reachable pf p km dv \<lparr>host = vm1, km_held = [], dev_held = []\<rparr>"
      "awaited p vm1 \<subseteq> awaited p (host ?s)" by auto
  have "vm1 = vm'"
    using assms(4) r(1) w by (auto simp: v(1) io_proxy_run_def vm_io_proxy_run_def vm_ntfn_callback_def of_loop_def split: if_splits)
  with r s show ?thesis by (auto simp: sys_start_def Let_def)
qed


subsection \<open>The life of a VMM\<close>

text \<open>
  The proxies in \<open>Q\<close> are brought up in any order (\<open>boot\<close>); those that are up, \<open>P\<close>, serve (\<open>serve\<close>), and
  the backends of the others may leave start requests in their pages before that (\<open>early\<close>).
\<close>

definition startable :: "'w platform \<Rightarrow> 'w ntfn_lib \<Rightarrow> proxy_ptr \<Rightarrow> 'w vmm \<Rightarrow> bool" where
  "startable pf nl p vm \<longleftrightarrow> bootable pf nl p vm \<and> unused p vm"

inductive vmm_life ::
  "'w platform \<Rightarrow> 'w ntfn_lib \<Rightarrow> (proxy_ptr \<Rightarrow> ('c, 'b) vso_rpc \<times> ('c, 'b) vso_rpc) \<Rightarrow> proxy_ptr set \<Rightarrow> proxy_ptr set \<Rightarrow> 'w vmm_system \<Rightarrow> bool"
  for pf :: "'w platform" and nl :: "'w ntfn_lib" and hs :: "proxy_ptr \<Rightarrow> ('c, 'b) vso_rpc \<times> ('c, 'b) vso_rpc" and Q :: "proxy_ptr set" where
  power_on: "\<forall>p \<in> Q. startable pf nl p (machine S) \<Longrightarrow> vmm_life pf nl hs Q {} S"
| early: "\<lbrakk>vmm_life pf nl hs Q P S; p \<in> Q; p \<notin> P; startable pf nl p (set_iobuf p mem (machine S))\<rbrakk>
      \<Longrightarrow> vmm_life pf nl hs Q P (S\<lparr>machine := set_iobuf p mem (machine S)\<rparr>)"
| boot: "\<lbrakk>vmm_life pf nl hs Q P S; p \<in> Q; p \<notin> P; libsel4vm_io_proxy_init pf (vm_io_proxy_run nl pf) p (machine S) = Inr (0, vm')\<rbrakk>
      \<Longrightarrow> vmm_life pf nl hs Q (insert p P) (put p \<lparr>host = vm', km_held = [], dev_held = []\<rparr> S)"
| serve: "\<lbrakk>vmm_life pf nl hs Q P S; vmm_step pf P hs S S'\<rbrakk> \<Longrightarrow> vmm_life pf nl hs Q P S'"

text \<open>What a boot makes of the shared devices, and that it disturbs neither the proxies that are up nor those that are not.\<close>

lemma booted_devices:
  assumes "booted pf p vm vm'" "unused q vm"
  shows "devices_ok vm'" "natives_ok vm'"
proof -
  note b = assms(1) [unfolded booted_def] and u = assms(2) [unfolded unused_def]
  have "\<forall>line \<in> set (pci_intx vm'). shared_line_ok line"
  proof (cases "irq_done vm")
    case True
    then have "pci_intx vm' = pci_intx vm" "\<forall>line \<in> set (pci_intx vm). shared_line_ok line" using b u by blast+
    then show ?thesis by simp
  next
    case False
    then have "\<forall>line \<in> set (pci_intx vm'). sources line = 0" using b by blast
    then show ?thesis by (simp add: shared_line_ok_def)
  qed
  moreover have "length (pci_devs vm') \<le> PCI_NUM_AVAIL_DEVICES" using b u by metis
  ultimately show "devices_ok vm'" unfolding devices_ok_def bus_ok_def using b by blast
  have "natives vm' = natives vm" "free_native_slot vm' = free_native_slot vm" using b by blast+
  then show "natives_ok vm'" using u by (simp add: natives_ok_def)
qed

lemma startable_other:
  assumes "startable pf nl q vm" "proxies vm' q = proxies vm q" "natives_ok vm'" "devices_ok vm'" "irq_done vm' \<longrightarrow> intx_wired pf vm'"
  shows "startable pf nl q vm'"
  using assms by (simp add: startable_def bootable_def unused_def devices_ok_def bus_ok_def v2m_ok_def awaited_def)

lemma wired_leaves:
  assumes "leaves q vm vm'" "intx_wired pf vm" "length (pci_intx vm) = PCI_NUM_PINS"
  shows "intx_wired pf vm'"
proof -
  have m: "map sh_irq (pci_intx vm') = map sh_irq (pci_intx vm)" using assms(1) by (simp add: leaves_def)
  then have "sh_irq (pci_intx vm' ! k) = sh_irq (pci_intx vm ! k)" if "k < PCI_NUM_PINS" for k
    using that assms(3) by (metis length_map nth_map)
  then show ?thesis using assms(2) by (simp add: intx_wired_def)
qed

lemma reachable_other:
  assumes "reachable pf q km dv (view q S)" "proxies vm' q = proxies (machine S) q" "natives_ok vm'" "devices_ok vm'"
    "natives vm' = natives (machine S)" "free_native_slot vm' = free_native_slot (machine S)"
  shows "reachable pf q km dv ((view q S)\<lparr>host := vm'\<rparr>)"
  by (rule reachable.step [OF assms(1) sys_step.other]) (use assms in \<open>simp_all add: view_def\<close>)

lemma startable_set_iobuf:
  "q \<noteq> p \<Longrightarrow> startable pf nl q (set_iobuf p mem vm) = startable pf nl q vm"
  by (simp add: startable_def bootable_def unused_def set_iobuf_def awaited_def natives_ok_def intx_wired_def)

definition life_inv ::
  "'w platform \<Rightarrow> 'w ntfn_lib \<Rightarrow> (proxy_ptr \<Rightarrow> ('c, 'b) vso_rpc \<times> ('c, 'b) vso_rpc) \<Rightarrow> proxy_ptr set \<Rightarrow> proxy_ptr set \<Rightarrow> 'w vmm_system \<Rightarrow> bool" where
  "life_inv pf nl hs Q P S \<longleftrightarrow> P \<subseteq> Q \<and> (\<forall>p \<in> P. reachable pf p (fst (hs p)) (snd (hs p)) (view p S)) \<and>
     (\<forall>p \<in> Q - P. startable pf nl p (machine S))"

lemma life_early:
  assumes "life_inv pf nl hs Q P S" "p \<in> Q" "p \<notin> P" "startable pf nl p (set_iobuf p mem (machine S))" "\<forall>p \<in> Q. backend_handles (fst (hs p)) (snd (hs p))"
  shows "life_inv pf nl hs Q P (S\<lparr>machine := set_iobuf p mem (machine S)\<rparr>)"
proof -
  have "reachable pf q (fst (hs q)) (snd (hs q)) ((view q S)\<lparr>host := set_iobuf p mem (machine S)\<rparr>)" if q: "q \<in> P" for q
  proof (rule reachable_other)
    show r: "reachable pf q (fst (hs q)) (snd (hs q)) (view q S)" using assms(1) q by (simp add: life_inv_def)
    have "q \<in> Q" "q \<noteq> p" using assms(1,3) q unfolding life_inv_def by blast+
    then show "proxies (set_iobuf p mem (machine S)) q = proxies (machine S) q" by (simp add: set_iobuf_def)
    from reachable_inv [OF r] assms(5) \<open>q \<in> Q\<close> have "sys_inv pf q (view q S)" by blast
    from invD(3,7) [OF this] show "natives_ok (set_iobuf p mem (machine S))" "devices_ok (set_iobuf p mem (machine S))" by (simp_all add: view_def)
  qed simp_all
  moreover have "startable pf nl q (set_iobuf p mem (machine S))" if "q \<in> Q - P" for q
    using that assms(1,4) by (cases "q = p") (simp_all add: life_inv_def startable_set_iobuf)
  ultimately show ?thesis using assms(1) by (simp add: life_inv_def view_def)
qed

lemma life_boot:
  assumes "life_inv pf nl hs Q P S" "p \<in> Q" "p \<notin> P" "\<forall>p \<in> Q. backend_handles (fst (hs p)) (snd (hs p))"
    "libsel4vm_io_proxy_init pf (vm_io_proxy_run nl pf) p (machine S) = Inr (0, vm')"
  shows "life_inv pf nl hs Q (insert p P) (put p \<lparr>host = vm', km_held = [], dev_held = []\<rparr> S) \<and> booted pf p (machine S) vm' \<and> awaited p vm' = {}"
proof -
  have st: "bootable pf nl p (machine S)" "unused p (machine S)" using assms(1-3) by (simp_all add: life_inv_def startable_def)
  have bt: "booted pf p (machine S) vm'" using boot_succeeds [OF st(1)] assms(5) by auto
  note d = booted_devices [OF bt st(2)]
  have others: "proxies vm' q = proxies (machine S) q" if "q \<noteq> p" for q using bt that by (simp add: booted_def)
  have up: "reachable pf p (fst (hs p)) (snd (hs p)) \<lparr>host = vm', km_held = [], dev_held = []\<rparr> \<and> awaited p vm' = {}"
    using boot_reaches [OF st _ assms(5)] assms(2,4) by blast
  have "reachable pf q (fst (hs q)) (snd (hs q)) ((view q S)\<lparr>host := vm'\<rparr>)" if "q \<in> P" for q
    by (rule reachable_other) (use assms(1,3) that others [of q] d bt in \<open>auto simp: life_inv_def booted_def\<close>)
  then have "reachable pf q (fst (hs q)) (snd (hs q)) (view q (put p \<lparr>host = vm', km_held = [], dev_held = []\<rparr> S))" if "q \<in> insert p P" for q
    using that up by (auto simp: view_put)
  moreover have "startable pf nl q vm'" if "q \<in> Q - insert p P" for q
    by (rule startable_other [OF _ others d(2,1)]) (use assms(1) that bt in \<open>auto simp: life_inv_def booted_def\<close>)
  ultimately show ?thesis using assms(1,2) bt up by (simp add: life_inv_def put_def)
qed

lemma life_serve:
  assumes "life_inv pf nl hs Q P S" "vmm_step pf P hs S S'" "\<forall>p \<in> Q. backend_handles (fst (hs p)) (snd (hs p))"
  shows "life_inv pf nl hs Q P S'"
proof -
  have h: "\<forall>p \<in> P. backend_handles (fst (hs p)) (snd (hs p))" using assms(1,3) by (auto simp: life_inv_def)
  have inv: "\<forall>p \<in> P. sys_inv pf p (view p S)" using assms(1) h reachable_inv unfolding life_inv_def by blast
  have "reachable pf q (fst (hs q)) (snd (hs q)) (view q S')" if "q \<in> P" for q
    using vmm_step_view [OF assms(2) h inv that] assms(1) that reachable.step unfolding life_inv_def by blast
  moreover have "startable pf nl q (machine S')" if q: "q \<in> Q - P" for q
    using assms(2)
  proof cases
    case (step p s')
    have i: "backend_handles (fst (hs p)) (snd (hs p))" "sys_inv pf p (view p S)" using h inv step(2) by blast+
    have l: "leaves p (machine S) (host s')" using own_step_leaves [OF step(3) i] by (simp add: view_def)
    note n = invD(3,7) [OF own_inv [OF step(3) i]]
    have st: "startable pf nl q (machine S)" using assms(1) q by (simp add: life_inv_def)
    have "irq_done (host s') \<longrightarrow> intx_wired pf (host s')"
      using wired_leaves [OF l] l st by (simp add: leaves_def startable_def bootable_def)
    moreover have "proxies (host s') q = proxies (machine S) q" using l step(2) q by (auto simp: leaves_def)
    ultimately show ?thesis using startable_other [OF st _ n] step(1) by (simp add: put_def)
  qed
  ultimately show ?thesis using assms(1) by (simp add: life_inv_def)
qed

lemma life_keeps:
  assumes "vmm_life pf nl hs Q P S" "\<forall>p \<in> Q. backend_handles (fst (hs p)) (snd (hs p))"
  shows "life_inv pf nl hs Q P S"
  using assms(1)
proof induction
  case (power_on S)
  then show ?case by (simp add: life_inv_def)
next
  case (early P S p mem)
  then show ?case using life_early assms(2) by blast
next
  case (boot P S p vm')
  then show ?case using life_boot [OF _ _ _ assms(2)] by blast
next
  case (serve P S S')
  then show ?case using life_serve [OF _ _ assms(2)] by blast
qed

text \<open>Whenever nobody waits in the proxies that are up, the VMM is in a state from which \<open>Vm_Service\<close> traces its accesses.\<close>

lemma idle_starts:
  assumes "sys_inv pf p s" "awaited p (host s) = {}"
  shows "sys_start p s"
proof -
  note t = invD(4) [OF assms(1), unfolded assms(2)]
  have "flight (pages p (host s)) (km_held s) (dev_held s) = []" using tracks_length [OF t] by simp
  moreover from this have "lent (lending (host s) p) = {}" using t by (simp add: tracks_def)
  ultimately show ?thesis using invD [OF assms(1)] assms(2) by (simp add: sys_start_def Let_def)
qed

lemma life_start:
  assumes "vmm_life pf nl hs Q P S" "\<forall>p \<in> Q. backend_handles (fst (hs p)) (snd (hs p))" "\<forall>p \<in> P. awaited p (machine S) = {}"
  shows "vmm_start P S"
  unfolding vmm_start_def
proof
  fix p assume p: "p \<in> P"
  have "reachable pf p (fst (hs p)) (snd (hs p)) (view p S)" "p \<in> Q" using life_keeps [OF assms(1,2)] p unfolding life_inv_def by blast+
  then have "sys_inv pf p (view p S)" using assms(2) reachable_inv by blast
  then show "sys_start p (view p S)" by (rule idle_starts) (use assms(3) p in \<open>simp add: view_def\<close>)
qed

subsection \<open>Properties\<close>



end
