(* ===== verification/Access_Spec.thy ===== *)
theory Access_Spec
  imports Prelude
begin

text \<open>
  What a proxied device promises, without queues, pages and handles: in each slot one access at a
  time is asked for, answered once, and its answer delivered once. Systems are compared with it by the actions
  they perform; the locale \<open>access_service\<close> is a simulation, and shows once what a trace of such a
  system looks like.
\<close>

subsection \<open>Runs and their traces\<close>

inductive runs :: "('s \<Rightarrow> 'a \<Rightarrow> 's \<Rightarrow> bool) \<Rightarrow> 's \<Rightarrow> 'a list \<Rightarrow> 's \<Rightarrow> bool"
  for step :: "'s \<Rightarrow> 'a \<Rightarrow> 's \<Rightarrow> bool" and s :: 's where
  none: "runs step s [] s"
| more: "\<lbrakk>runs step s tr s'; step s' a s''\<rbrakk> \<Longrightarrow> runs step s (tr @ [a]) s''"

inductive_cases runs_snocE: "runs step s (tr @ [a]) s'"

subsection \<open>The specification\<close>

datatype ('r, 'd) pending = Asked 'r | Answered 'd

text \<open>\<open>Reply i r d\<close>: the request seen in slot \<open>i\<close> is \<open>r\<close>, and it is answered with \<open>d\<close>.\<close>

datatype ('r, 'd) action = Ask nat 'r | Reply nat 'r 'd | Deliver nat 'd | Silent

type_synonym ('r, 'd) service = "nat \<Rightarrow> ('r, 'd) pending option"

inductive service_step :: "('r, 'd) service \<Rightarrow> ('r, 'd) action \<Rightarrow> ('r, 'd) service \<Rightarrow> bool" where
  ask: "A i = None \<Longrightarrow> service_step A (Ask i r) (A(i \<mapsto> Asked r))"
| reply: "A i = Some (Asked r) \<Longrightarrow> service_step A (Reply i r d) (A(i \<mapsto> Answered d))"
| deliver: "A i = Some (Answered d) \<Longrightarrow> service_step A (Deliver i d) (A(i := None))"
| silent: "service_step A Silent A"

inductive_simps service_step_simps:
  "service_step A (Ask i r) A'" "service_step A (Reply i r d) A'" "service_step A (Deliver i d) A'" "service_step A Silent A'"

inductive_cases service_stepE: "service_step A a A'"

subsection \<open>Traces of the specification\<close>

fun concerns :: "nat \<Rightarrow> ('r, 'd) action \<Rightarrow> bool" where
  "concerns i (Ask j r) = (i = j)"
| "concerns i (Reply j r d) = (i = j)"
| "concerns i (Deliver j d) = (i = j)"
| "concerns i Silent = False"

abbreviation quiet :: "nat \<Rightarrow> ('r, 'd) action list \<Rightarrow> bool" where
  "quiet i tr \<equiv> (\<forall>a \<in> set tr. \<not> concerns i a)"

text \<open>The trace ends with the request \<open>r\<close> in slot \<open>i\<close>, or with that request and its answer.\<close>

definition ends_asked :: "nat \<Rightarrow> 'r \<Rightarrow> ('r, 'd) action list \<Rightarrow> bool" where
  "ends_asked i r tr \<longleftrightarrow> (\<exists>us vs. tr = us @ Ask i r # vs \<and> quiet i vs)"

definition ends_answered :: "nat \<Rightarrow> 'r \<Rightarrow> 'd \<Rightarrow> ('r, 'd) action list \<Rightarrow> bool" where
  "ends_answered i r d tr \<longleftrightarrow> (\<exists>us ws. ends_asked i r us \<and> tr = us @ Reply i r d # ws \<and> quiet i ws)"

lemma ends_now: "ends_asked i r (tr @ [Ask i r])" "ends_asked i r tr \<Longrightarrow> ends_answered i r d (tr @ [Reply i r d])"
  by (force simp: ends_asked_def) (force simp: ends_answered_def)

lemma ends_quiet:
  assumes "\<not> concerns i a"
  shows "ends_asked i r tr \<Longrightarrow> ends_asked i r (tr @ [a])" "ends_answered i r d tr \<Longrightarrow> ends_answered i r d (tr @ [a])"
proof -
  assume "ends_asked i r tr"
  then obtain us vs where "tr = us @ Ask i r # vs" "quiet i vs" unfolding ends_asked_def by blast
  with assms show "ends_asked i r (tr @ [a])" unfolding ends_asked_def by (intro exI [of _ us] exI [of _ "vs @ [a]"]) auto
next
  assume "ends_answered i r d tr"
  then obtain us ws where "ends_asked i r us" "tr = us @ Reply i r d # ws" "quiet i ws" unfolding ends_answered_def by blast
  with assms show "ends_answered i r d (tr @ [a])" unfolding ends_answered_def by (intro exI [of _ us] exI [of _ "ws @ [a]"]) auto
qed

definition history :: "nat \<Rightarrow> ('r, 'd) action list \<Rightarrow> ('r, 'd) pending option \<Rightarrow> bool" where
  "history i tr st \<longleftrightarrow>
     (case st of
        None \<Rightarrow> True
      | Some (Asked r) \<Rightarrow> ends_asked i r tr
      | Some (Answered d) \<Rightarrow> (\<exists>r. ends_answered i r d tr))"

fun opens :: "nat \<Rightarrow> ('r, 'd) action \<Rightarrow> bool" where
  "opens i (Ask j r) = (i = j)"
| "opens i _ = False"

fun closes :: "nat \<Rightarrow> ('r, 'd) action \<Rightarrow> bool" where
  "closes i (Deliver j d) = (i = j)"
| "closes i _ = False"

definition balanced :: "nat \<Rightarrow> ('r, 'd) action list \<Rightarrow> ('r, 'd) pending option \<Rightarrow> bool" where
  "balanced i tr st \<longleftrightarrow> length (filter (opens i) tr) = length (filter (closes i) tr) + (if st = None then 0 else 1)"

lemma history_quiet: "history i tr st \<Longrightarrow> \<not> concerns i a \<Longrightarrow> history i (tr @ [a]) st"
  by (auto simp: history_def split: option.splits pending.splits intro: ends_quiet)

lemma step_history:
  assumes "service_step A a A'" "history i tr (A i)"
  shows "history i (tr @ [a]) (A' i)"
  using assms(1)
proof cases
  case (ask j r)
  then show ?thesis using history_quiet [OF assms(2), of a] by (cases "i = j") (auto simp: history_def ends_now)
next
  case (reply j r d)
  then show ?thesis using history_quiet [OF assms(2), of a] assms(2) by (cases "i = j") (auto simp: history_def intro: ends_now)
next
  case (deliver j d)
  then show ?thesis using history_quiet [OF assms(2), of a] by (cases "i = j") (auto simp: history_def)
next
  case silent
  then show ?thesis using history_quiet [OF assms(2), of a] by simp
qed

lemma step_balanced: "service_step A a A' \<Longrightarrow> balanced i tr (A i) \<Longrightarrow> balanced i (tr @ [a]) (A' i)"
  by (erule service_stepE) (auto simp: balanced_def)

lemma service_history:
  assumes "runs service_step Map.empty tr A"
  shows "history i tr (A i) \<and> balanced i tr (A i)"
  using assms
proof (induction rule: runs.induct)
  case none
  then show ?case by (simp add: history_def balanced_def)
next
  case (more tr A a A')
  then show ?case using step_history step_balanced by blast
qed

subsection \<open>Systems that provide the service\<close>

locale access_service =
  fixes start :: "'s \<Rightarrow> bool"
    and step :: "'s \<Rightarrow> ('r, 'd) action \<Rightarrow> 's \<Rightarrow> bool"
    and ok :: "'s \<Rightarrow> bool"
    and pending :: "'s \<Rightarrow> ('r, 'd) service"
  assumes starts: "start s \<Longrightarrow> ok s \<and> pending s = Map.empty"
    and serves: "\<lbrakk>ok s; step s a s'\<rbrakk> \<Longrightarrow> ok s' \<and> service_step (pending s) a (pending s')"
begin

lemma run_refines:
  assumes "start s" "runs step s tr s'"
  shows "ok s' \<and> runs service_step Map.empty tr (pending s')"
  using assms(2)
proof (induction rule: runs.induct)
  case none
  then show ?case using starts [OF assms(1)] runs.none by metis
next
  case (more tr s' a s'')
  then show ?case using serves [of s' a s''] runs.more by metis
qed

text \<open>What is delivered in a slot is the answer given to the request last asked for in it.\<close>

lemma delivers_answer:
  assumes "start s" "runs step s tr s'" "step s' (Deliver i d) s''"
  shows "\<exists>r. ends_answered i r d tr"
proof -
  note r = run_refines [OF assms(1,2)]
  have "pending s' i = Some (Answered d)"
    using serves [OF conjunct1 [OF r] assms(3)] by (simp add: service_step_simps)
  with service_history [OF conjunct2 [OF r], of i] show ?thesis by (simp add: history_def)
qed

text \<open>An answer is given to the request last asked for in its slot.\<close>

lemma replies_to_request:
  assumes "start s" "runs step s tr s'" "step s' (Reply i r d) s''"
  shows "ends_asked i r tr"
proof -
  note run = run_refines [OF assms(1,2)]
  have "pending s' i = Some (Asked r)"
    using serves [OF conjunct1 [OF run] assms(3)] by (simp add: service_step_simps)
  with service_history [OF conjunct2 [OF run], of i] show ?thesis by (simp add: history_def)
qed

lemma accounts:
  "start s \<Longrightarrow> runs step s tr s' \<Longrightarrow> balanced i tr (pending s' i)"
  using run_refines service_history by blast

end

end
