(* ===== verification/Vm_Refinement.thy ===== *)
theory Vm_Refinement
  imports Vm_Proxies Access_Spec
begin

text \<open>
  A proxy and its backend provide the service of \<open>Access_Spec\<close>. The steps of \<open>Vm_System\<close> are labelled with what they do
  for an access; the messages under way, read as a table of slots, are the state of the service.
\<close>

subsection \<open>Tables\<close>

definition table :: "('k \<Rightarrow> nat) \<Rightarrow> ('k \<Rightarrow> 'v) \<Rightarrow> 'k list \<Rightarrow> nat \<Rightarrow> 'v option" where
  "table f g L = map_of (map (\<lambda>k. (f k, g k)) L)"

lemma table_none: "i \<notin> f ` set L \<Longrightarrow> table f g L i = None"
  by (simp add: table_def map_of_eq_None_iff image_image)

lemma table_dom: "dom (table f g L) = f ` set L"
  by (simp add: table_def dom_map_of_conv_image_fst image_image)

lemma table_some: "inj_on f (set L) \<Longrightarrow> k \<in> set L \<Longrightarrow> table f g L (f k) = Some (g k)"
proof (induction L)
  case (Cons j L)
  then show ?case by (cases "k = j") (auto simp: table_def inj_on_def)
qed simp

lemma table_eqI:
  assumes "inj_on f (set L)" "\<And>k. k \<in> set L \<Longrightarrow> m (f k) = Some (g k)" "\<And>i. i \<notin> f ` set L \<Longrightarrow> m i = None"
  shows "table f g L = m"
proof
  fix i
  show "table f g L i = m i"
  proof (cases "i \<in> f ` set L")
    case True
    then obtain k where "k \<in> set L" "i = f k" by blast
    then show ?thesis using table_some [OF assms(1)] assms(2) by simp
  qed (simp add: table_none assms(3))
qed

lemma table_move:
  assumes "inj_on f (set L)" "set L' = set L" "\<And>k. k \<in> set L \<Longrightarrow> f' k = f k \<and> g' k = g k"
  shows "table f' g' L' = table f g L"
proof (rule table_eqI)
  show "inj_on f' (set L')" using assms by (auto simp: inj_on_def)
  show "table f g L (f' k) = Some (g' k)" if "k \<in> set L'" for k using that assms table_some [OF assms(1), of k g] by simp
  show "table f g L i = None" if "i \<notin> f' ` set L'" for i using that assms by (intro table_none) (simp cong: image_cong)
qed

lemma table_add:
  assumes "inj_on f' (set L')" "set L' = insert k (set L)" "k \<notin> set L" "\<And>j. j \<in> set L \<Longrightarrow> f' j = f j \<and> g' j = g j"
  shows "table f' g' L' = (table f g L)(f' k \<mapsto> g' k)"
proof (rule table_eqI [OF assms(1)])
  have inj: "inj_on f (set L)" using inj_on_subset [OF assms(1), of "set L"] assms(2,4) by (auto cong: inj_on_cong)
  show "((table f g L)(f' k \<mapsto> g' k)) (f' j) = Some (g' j)" if "j \<in> set L'" for j
  proof (cases "j = k")
    case False
    then have "j \<in> set L" "f' j \<noteq> f' k" using that assms(1,2) by (auto simp: inj_on_def)
    then show ?thesis using assms(4) [of j] table_some [OF inj, of j g] by simp
  qed simp
  show "((table f g L)(f' k \<mapsto> g' k)) i = None" if "i \<notin> f' ` set L'" for i
    using that assms(2,4) table_none [of i f L g] by (auto simp: image_iff)
qed

lemma table_change:
  assumes "inj_on f (set L)" "set L' = set L" "k \<in> set L" "\<And>j. j \<in> set L \<Longrightarrow> f' j = f j" "\<And>j. j \<in> set L \<Longrightarrow> j \<noteq> k \<Longrightarrow> g' j = g j"
  shows "table f' g' L' = (table f g L)(f k \<mapsto> g' k)"
proof (rule table_eqI)
  show "inj_on f' (set L')" using assms(1,2,4) by (auto simp: inj_on_def)
  show "((table f g L)(f k \<mapsto> g' k)) (f' j) = Some (g' j)" if "j \<in> set L'" for j
    using that assms table_some [OF assms(1), of j g] by (cases "j = k") (auto simp: inj_on_def)
  show "((table f g L)(f k \<mapsto> g' k)) i = None" if "i \<notin> f' ` set L'" for i
    using that assms(2-4) table_none [of i f L g] by (auto simp: image_iff)
qed

lemma table_remove:
  assumes "inj_on f (set L)" "set L = insert k (set L')" "k \<notin> set L'" "\<And>j. j \<in> set L' \<Longrightarrow> f' j = f j \<and> g' j = g j"
  shows "table f' g' L' = (table f g L)(f k := None)"
proof (rule table_eqI)
  show "inj_on f' (set L')" using inj_on_subset [OF assms(1), of "set L'"] assms(2,4) by (auto cong: inj_on_cong)
  show "((table f g L)(f k := None)) (f' j) = Some (g' j)" if "j \<in> set L'" for j
    using that assms table_some [OF assms(1), of j g] by (auto simp: inj_on_def)
  show "((table f g L)(f k := None)) i = None" if "i \<notin> f' ` set L'" for i
    using that assms(2,4) table_none [of i f L g] by (auto simp: image_iff)
qed

subsection \<open>Accesses\<close>

text \<open>An access: the fields of a request message as the backend reads them.\<close>

record access =
  acc_dir :: seL4_Word
  acc_space :: seL4_Word
  acc_len :: seL4_Word
  acc_addr :: seL4_Word
  acc_value :: seL4_Word

definition seen_access :: "rpcmsg \<Rightarrow> access" where
  "seen_access m = \<lparr>acc_dir = mmio_direction (mr0 m), acc_space = mmio_addr_space (mr0 m), acc_len = mmio_length (mr0 m),
     acc_addr = mr1 m, acc_value = mr2 m\<rparr>"

text \<open>The access with the given parameters, and what of it fits into the fields of the message.\<close>

definition full_access :: "u32 \<Rightarrow> u32 \<Rightarrow> u64 \<Rightarrow> u64 \<Rightarrow> u64 \<Rightarrow> access" where
  "full_access dir sp a len v = \<lparr>acc_dir = ucast dir, acc_space = ucast sp, acc_len = len, acc_addr = a, acc_value = v\<rparr>"

definition wire_access :: "u32 \<Rightarrow> u32 \<Rightarrow> u64 \<Rightarrow> u64 \<Rightarrow> u64 \<Rightarrow> access" where
  "wire_access dir sp a len v =
     \<lparr>acc_dir = take_bit 1 (ucast dir), acc_space = take_bit 8 (ucast sp), acc_len = take_bit 4 len, acc_addr = a, acc_value = v\<rparr>"

lemma seen_request: "seen_access (request_msg dir sp sl a len v) = wire_access dir sp a len v"
  by (simp add: seen_access_def request_msg_def wire_access_def mmio_mr0_fields)

lemma take_bit_small: "unat w < 2 ^ n \<Longrightarrow> take_bit n w = w"
  by (simp add: word_unat_eq_iff unsigned_take_bit_eq take_bit_nat_eq_self)

lemma wire_exact:
  assumes "dir \<in> {SEL4_IO_DIR_READ, SEL4_IO_DIR_WRITE}" "sp \<le> AS_GLOBAL" "len \<le> 8"
  shows "wire_access dir sp a len v = full_access dir sp a len v"
proof -
  have "take_bit 1 (ucast dir :: seL4_Word) = ucast dir" using assms(1) by (auto simp: SEL4_IO_DIR_READ_def SEL4_IO_DIR_WRITE_def)
  moreover have "unat sp < 2 ^ 8" using assms(2) by (simp add: AS_GLOBAL_def MASK_def RPC_MR0_MMIO_ADDR_SPACE_WIDTH_def word_le_nat_alt)
  then have "take_bit 8 (ucast sp :: seL4_Word) = ucast sp" by (intro take_bit_small) (simp add: unsigned_ucast_eq take_bit_nat_eq_self)
  moreover have "unat len \<le> 8" using assms(3) by (simp add: word_le_nat_alt)
  then have "take_bit 4 len = len" by (intro take_bit_small) simp
  ultimately show ?thesis by (simp add: wire_access_def full_access_def)
qed

text \<open>The access that faulted: an exact copy of what the fault reports.\<close>

definition fault_access :: "'w platform \<Rightarrow> vcpu \<Rightarrow> u64 \<Rightarrow> u64 \<Rightarrow> 'w vmm \<Rightarrow> access" where
  "fault_access pf v a len vm =
     (if is_vcpu_read_fault (env pf) v (ext vm) then full_access SEL4_IO_DIR_READ AS_GLOBAL a len 0
      else full_access SEL4_IO_DIR_WRITE AS_GLOBAL a len
        (get_vcpu_fault_data (env pf) v (ext vm) AND drop_bit (fault_shift (env pf) v (ext vm)) (get_vcpu_fault_data_mask (env pf) v (ext vm))))"

lemma seen_fault: "len \<le> 8 \<Longrightarrow> seen_access (fault_request pf v a len vm) = fault_access pf v a len vm"
  by (simp add: fault_request_def fault_access_def seen_request wire_exact)

subsection \<open>Labelled steps\<close>

type_synonym label = "(access, seL4_Word) action"

text \<open>
  The rules of \<open>own_step\<close> and \<open>serve_step\<close> with what each does for an access: a fault or a native access asks, an answer of the
  kernel module or of the device replies to the request in the message it holds, the loop over the answers delivers
  the data of the message it takes. The other steps are silent.
\<close>

inductive own_act :: "'w platform \<Rightarrow> proxy_ptr \<Rightarrow> ('c, 'b) vso_rpc \<Rightarrow> ('c, 'b) vso_rpc \<Rightarrow> 'w system \<Rightarrow> label \<Rightarrow> 'w system \<Rightarrow> bool"
  for pf :: "'w platform" and p :: proxy_ptr and km dv :: "('c, 'b) vso_rpc" where
  fault: "\<lbrakk>unat (vcpu_id (env pf) v) < SEL4_MMIO_MAX_VCPU; unat (vcpu_id (env pf) v) \<notin> awaited p (host s); len \<le> 8;
      mmio_fault_handler pf p v a len (host s) = Inr (r, vm')\<rbrakk>
      \<Longrightarrow> own_act pf p km dv s (Ask (unat (vcpu_id (env pf) v)) (fault_access pf v a len (host s))) (s\<lparr>host := vm'\<rparr>)"
| native: "\<lbrakk>nat (slot (natives (host s) t)) \<notin> awaited p (host s) \<or> slot (natives (host s) t) = 0; len \<le> 8;
      ioreq_native_start pf t p sp dir a len v0 (host s) = Inr (e, vm'); fst (ioreq_native_slot pf t (host s)) = sl\<rbrakk>
      \<Longrightarrow> own_act pf p km dv s (if sl = -1 then Silent else Ask (nat sl) (wire_access dir sp a len v0)) (s\<lparr>host := vm'\<rparr>)"
| km_receive: "rpcmsg_receive bd (request (driver_rpc km)) (pages p (host s)) = Inr (Some (int k), mem')
      \<Longrightarrow> own_act pf p km dv s Silent ((with_pages p mem' s)\<lparr>km_held := km_held s @ [k]\<rparr>)"
| km_forward: "\<lbrakk>k \<in> set (km_held s); driver_rpc_request_fwd bd dv (pages p (host s)) (Some (int k)) = Inr (0, mem')\<rbrakk>
      \<Longrightarrow> own_act pf p km dv s Silent ((with_pages p mem' s)\<lparr>km_held := remove1 k (km_held s)\<rparr>)"
| km_answer: "\<lbrakk>k \<in> set (km_held s); driver_rpc_ack_mmio_finish bd km (pages p (host s)) b (Some (int k)) data = Inr (e, mem', b');
      m = msg_at (pages p (host s)) k\<rbrakk>
      \<Longrightarrow> own_act pf p km dv s (Reply (slot_of m) (seen_access m) data) ((with_pages p mem' s)\<lparr>km_held := remove1 k (km_held s)\<rparr>)"
| dev_receive: "rpcmsg_receive bd (request (driver_rpc dv)) (pages p (host s)) = Inr (Some (int k), mem')
      \<Longrightarrow> own_act pf p km dv s Silent ((with_pages p mem' s)\<lparr>dev_held := dev_held s @ [k]\<rparr>)"
| dev_answer: "\<lbrakk>k \<in> set (dev_held s); driver_rpc_ack_mmio_finish bd dv (pages p (host s)) b (Some (int k)) data = Inr (e, mem', b');
      m = msg_at (pages p (host s)) k\<rbrakk>
      \<Longrightarrow> own_act pf p km dv s (Reply (slot_of m) (seen_access m) data) ((with_pages p mem' s)\<lparr>dev_held := remove1 k (dev_held s)\<rparr>)"
| complete: "\<lbrakk>resp_step pf p (host s) = Inr (Some (rc, vm'), vm'); m = msg_at (pages p (host s)) k;
      rpcmsg_receive_response Userspace (resp_queue (host s) p) (pages p (host s)) = Inr (Some (int k), n, mem')\<rbrakk>
      \<Longrightarrow> own_act pf p km dv s (Deliver (slot_of m) (mr2 m)) (s\<lparr>host := vm'\<rparr>)"
| dev_event: "\<lbrakk>QEMU_OP (set_op (mr0 m) op) \<noteq> QEMU_OP_MMIO; device_event_tx bd dv (pages p (host s)) b op m = Inr (e, mem', b')\<rbrakk>
      \<Longrightarrow> own_act pf p km dv s Silent (with_pages p mem' s)"
| notice: "event_step pf p (host s) = Inr (Some (rc, vm'), vm') \<Longrightarrow> own_act pf p km dv s Silent (s\<lparr>host := vm'\<rparr>)"

text \<open>The labels change nothing: the steps are those of \<open>Vm_System\<close>.\<close>

lemma own_act_step: "own_act pf p km dv s a s' \<Longrightarrow> own_step pf p km dv s s'"
  by (erule own_act.cases) (auto intro: own_step.intros serve_step.intros)

lemma serve_act:
  assumes "serve_step pf p km dv s s'" "sys_inv pf p s"
  shows "\<exists>a. own_act pf p km dv s a s'"
  using assms(1)
proof cases
  case (complete rc vm')
  obtain k ks where k: "ids driver_drvrpc_resp (pages p (host s)) = k # ks" using complete_pending [OF assms(2) complete(2)] by blast
  have "resp_queue (host s) p = driver_drvrpc_resp" using invD(1) [OF assms(2)] by (simp add: handles_ok_def)
  then obtain mem' where "rpcmsg_receive_response Userspace (resp_queue (host s) p) (pages p (host s)) = Inr (Some (int k), Some (of_nat k), mem')"
    using page_dequeue [OF invD(2) [OF assms(2)] in_places(3) k, of Userspace] by auto
  from own_act.complete [OF complete(2) refl this] show ?thesis unfolding complete(1) by (rule exI)
qed (auto intro: own_act.intros)

lemma own_step_act:
  assumes "own_step pf p km dv s s'" "sys_inv pf p s"
  shows "\<exists>a. own_act pf p km dv s a s'"
  using assms(1)
proof cases
  case (native t len sp dir a v0 e vm')
  show ?thesis unfolding native(1) using own_act.native [OF native(2-4) refl] by (rule exI)
next
  case serve
  then show ?thesis by (rule serve_act [OF _ assms(2)])
qed (auto intro: own_act.intros)

subsection \<open>The pending accesses\<close>

abbreviation in_flight :: "proxy_ptr \<Rightarrow> 'w system \<Rightarrow> nat list" where
  "in_flight p s \<equiv> flight (pages p (host s)) (km_held s) (dev_held s)"

definition progress_of :: "rpcmsg_iobuf \<Rightarrow> nat \<Rightarrow> (access, seL4_Word) pending" where
  "progress_of mem k =
     (if k \<in> set (ids driver_drvrpc_resp mem) then Answered (mr2 (msg_at mem k)) else Asked (seen_access (msg_at mem k)))"

definition accesses :: "proxy_ptr \<Rightarrow> 'w system \<Rightarrow> (access, seL4_Word) service" where
  "accesses p s = table (\<lambda>k. slot_of (msg_at (pages p (host s)) k)) (progress_of (pages p (host s))) (in_flight p s)"

lemma flight_inj:
  assumes "sys_inv pf p s"
  shows "inj_on (\<lambda>k. slot_of (msg_at (pages p (host s)) k)) (set (in_flight p s))" "distinct (in_flight p s)"
  using invD(4) [OF assms] by (simp_all add: tracks_def bij_betw_def)

lemma accesses_at:
  assumes "sys_inv pf p s" "k \<in> set (in_flight p s)"
  shows "accesses p s (slot_of (msg_at (pages p (host s)) k)) = Some (progress_of (pages p (host s)) k)"
  unfolding accesses_def using table_some [OF flight_inj(1) [OF assms(1)] assms(2)] .

lemma accesses_dom: "sys_inv pf p s \<Longrightarrow> dom (accesses p s) = awaited p (host s)"
  by (simp add: awaited_flight accesses_def slots_of_def table_dom)

lemma accesses_start: "sys_start p s \<Longrightarrow> accesses p s = Map.empty"
  by (simp add: accesses_def table_def sys_start_def Let_def)

lemma silent_simulates:
  assumes "sys_inv pf p s" "set (in_flight p s') = set (in_flight p s)"
    "ids driver_drvrpc_resp (pages p (host s')) = ids driver_drvrpc_resp (pages p (host s))" "msg_at (pages p (host s')) = msg_at (pages p (host s))"
  shows "service_step (accesses p s) Silent (accesses p s')"
proof -
  have "accesses p s' = accesses p s" unfolding accesses_def
    by (rule table_move [OF flight_inj(1) [OF assms(1)] assms(2)]) (simp add: progress_of_def assms(3,4))
  then show ?thesis by (simp add: service_step_simps)
qed

lemma ask_simulates:
  assumes "sys_inv pf p s" "asked p s vm' m" "sys_inv pf p (s\<lparr>host := vm'\<rparr>)" "slot_of m \<notin> awaited p (host s)"
  shows "service_step (accesses p s) (Ask (slot_of m) (seen_access m)) (accesses p (s\<lparr>host := vm'\<rparr>))"
proof -
  let ?s = "s\<lparr>host := vm'\<rparr>" and ?m = "pages p (host s)" and ?m' = "pages p vm'"
  obtain k where k: "k \<notin> set (in_flight p s)" "moved driver_drvrpc_req (ids driver_drvrpc_req ?m @ [k]) ?m ?m'" "msg_at ?m' = (msg_at ?m)(k := m)"
    using assms(2) unfolding asked_def by blast
  note f = flight_moved [OF k(2) in_places(1)]
  have "table (\<lambda>k. slot_of (msg_at ?m' k)) (progress_of ?m') (flight ?m' (km_held s) (dev_held s)) =
      (accesses p s)(slot_of (msg_at ?m' k) \<mapsto> progress_of ?m' k)" unfolding accesses_def
  proof (rule table_add)
    show "inj_on (\<lambda>k. slot_of (msg_at ?m' k)) (set (flight ?m' (km_held s) (dev_held s)))" using flight_inj(1) [OF assms(3)] by simp
    show "slot_of (msg_at ?m' j) = slot_of (msg_at ?m j) \<and> progress_of ?m' j = progress_of ?m j" if "j \<in> set (in_flight p s)" for j
      using that k(1,3) f(3) by (auto simp: progress_of_def)
  qed (use k(1) f in \<open>auto simp: flight_def\<close>)
  moreover have "progress_of ?m' k = Asked (seen_access m)" using k(1,3) f(3) by (auto simp: progress_of_def flight_def)
  moreover have "accesses p s (slot_of m) = None" using accesses_dom [OF assms(1)] assms(4) by blast
  ultimately show ?thesis by (simp add: service_step_simps accesses_def k(3))
qed

lemma reply_simulates:
  assumes "sys_inv pf p s" "k \<in> set (km_held s) \<or> k \<in> set (dev_held s)" "set (in_flight p s') = set (in_flight p s)"
    "ids driver_drvrpc_resp (pages p (host s')) = ids driver_drvrpc_resp (pages p (host s)) @ [k]"
    "msg_at (pages p (host s')) = (msg_at (pages p (host s)))(k := m\<lparr>mr2 := data\<rparr>)" "m = msg_at (pages p (host s)) k"
  shows "service_step (accesses p s) (Reply (slot_of m) (seen_access m) data) (accesses p s')"
proof -
  have k: "k \<in> set (in_flight p s)" "k \<notin> set (ids driver_drvrpc_resp (pages p (host s)))"
    using assms(2) flight_inj(2) [OF assms(1)] by (auto simp: flight_def)
  have "accesses p s' = (accesses p s)(slot_of (msg_at (pages p (host s)) k) \<mapsto> progress_of (pages p (host s')) k)" unfolding accesses_def
    by (rule table_change [OF flight_inj(1) [OF assms(1)] assms(3) k(1)]) (auto simp: progress_of_def assms(4,5,6) slot_of_def)
  moreover have "progress_of (pages p (host s')) k = Answered data" by (simp add: progress_of_def assms(4,5))
  moreover have "accesses p s (slot_of m) = Some (Asked (seen_access m))"
    using accesses_at [OF assms(1) k(1)] k(2) by (simp add: progress_of_def assms(6))
  ultimately show ?thesis by (simp add: service_step_simps assms(6))
qed

lemma deliver_simulates:
  assumes "sys_inv pf p s" "ids driver_drvrpc_resp (pages p (host s)) = k # ks" "m = msg_at (pages p (host s)) k"
    "moved driver_drvrpc_resp ks (pages p (host s)) (pages p vm')" "msg_at (pages p vm') = msg_at (pages p (host s))"
  shows "service_step (accesses p s) (Deliver (slot_of m) (mr2 m)) (accesses p (s\<lparr>host := vm'\<rparr>))"
proof -
  let ?m = "pages p (host s)" and ?m' = "pages p vm'"
  note f = flight_moved [OF assms(4) in_places(3)] and d = flight_inj(2) [OF assms(1)]
  have k: "k \<in> set (in_flight p s)" using assms(2) by (simp add: flight_def)
  have L: "set (in_flight p s) = insert k (set (in_flight p (s\<lparr>host := vm'\<rparr>)))" "k \<notin> set (in_flight p (s\<lparr>host := vm'\<rparr>))"
    using f d assms(2) by (auto simp: flight_def)
  have "accesses p (s\<lparr>host := vm'\<rparr>) = (accesses p s)(slot_of (msg_at ?m k) := None)" unfolding accesses_def
    by (rule table_remove [OF flight_inj(1) [OF assms(1)] L]) (use L(2) f assms(2,5) in \<open>auto simp: progress_of_def\<close>)
  moreover have "accesses p s (slot_of m) = Some (Answered (mr2 m))"
    using accesses_at [OF assms(1) k] assms(2,3) by (simp add: progress_of_def)
  ultimately show ?thesis by (simp add: service_step_simps assms(3))
qed

text \<open>The answers of kernel module and device differ only in who held the message.\<close>

lemma answer_simulates:
  assumes "sys_inv pf p s" "k \<in> set (km_held s) \<or> k \<in> set (dev_held s)" "response (driver_rpc h) = driver_drvrpc_resp"
    "driver_rpc_ack_mmio_finish bd h (pages p (host s)) b (Some (int k)) data = Inr (e, mem', b')" "m = msg_at (pages p (host s)) k"
    "pages p (host s') = mem'" "mset (km_held s @ dev_held s) = add_mset k (mset (km_held s' @ dev_held s'))"
  shows "service_step (accesses p s) (Reply (slot_of m) (seen_access m) data) (accesses p s')"
proof -
  note a = answer_moved [OF invD(2) [OF assms(1)] assms(3) flight_room [OF assms(1,2) in_places(3)] assms(4)]
  note f = flight_moved [OF conjunct1 [OF a] in_places(3)]
  have "set (km_held s @ dev_held s) = insert k (set (km_held s' @ dev_held s'))" using assms(7) by (metis set_mset_add_mset_insert set_mset_mset)
  then have "set (in_flight p s') = set (in_flight p s)" using f by (auto simp: flight_def assms(6))
  from reply_simulates [OF assms(1,2) this _ _ assms(5), of data] f a show ?thesis by (simp add: assms(5,6))
qed

lemma held_remove1:
  "k \<in> set xs \<Longrightarrow> mset (xs @ ys) = add_mset k (mset (remove1 k xs @ ys))" "k \<in> set ys \<Longrightarrow> mset (xs @ ys) = add_mset k (mset (xs @ remove1 k ys))"
  using remove1_mset [of k xs] remove1_mset [of k ys] by simp_all

lemma pages_with [simp]: "pages p (host (with_pages p mem s)) = mem"
  by (simp add: with_pages_def set_iobuf_def)

lemma held_with [simp]: "km_held (with_pages p mem s) = km_held s" "dev_held (with_pages p mem s) = dev_held s"
  by (simp_all add: with_pages_def)

lemma flight_set:
  "set (flight mem km dv) = set (ids driver_drvrpc_req mem) \<union> set (ids device_drvrpc_req mem) \<union> set (ids driver_drvrpc_resp mem) \<union> set (km @ dv)"
  by (auto simp: flight_def)

lemma receive_simulates:
  assumes "sys_inv pf p s" "r \<in> places" "r \<noteq> driver_drvrpc_resp" "rpcmsg_receive bd r (pages p (host s)) = Inr (Some (int k), mem')" "pages p (host s') = mem'"
    "set (km_held s' @ dev_held s') = insert k (set (km_held s @ dev_held s))"
  shows "service_step (accesses p s) Silent (accesses p s')"
proof -
  from receive_head [OF invD(2) [OF assms(1)] assms(2,4)] obtain ks where
    k: "ids r (pages p (host s)) = k # ks" "moved r ks (pages p (host s)) mem'" "msg_at mem' = msg_at (pages p (host s))" by blast
  note f = flight_moved [OF k(2) assms(2)]
  have "r = driver_drvrpc_req \<or> r = device_drvrpc_req" using assms(2,3) by (auto simp: places_def)
  then have "set (in_flight p s') = set (in_flight p s)"
    unfolding flight_set assms(5,6) by (elim disjE) (use f k(1) in \<open>simp_all add: insert_commute\<close>)
  then show ?thesis using f(3) assms(3) k(3) by (intro silent_simulates [OF assms(1)]) (simp_all add: assms(5))
qed

lemma forward_simulates:
  assumes "sys_inv pf p s" "k \<in> set (km_held s)" "request (driver_rpc dv) = device_drvrpc_req"
    "driver_rpc_request_fwd bd dv (pages p (host s)) (Some (int k)) = Inr (e, mem')" "pages p (host s') = mem'"
    "km_held s' = remove1 k (km_held s)" "dev_held s' = dev_held s"
  shows "service_step (accesses p s) Silent (accesses p s')"
proof -
  let ?m = "pages p (host s)"
  obtain k: "moved device_drvrpc_req (ids device_drvrpc_req ?m @ [k]) ?m mem'" "msg_at mem' = msg_at ?m"
    using page_forward [of ?m dv k bd] invD(2) [OF assms(1)] flight_room [OF assms(1) disjI1 [OF assms(2)] in_places(2)] assms(3,4) by auto
  note f = flight_moved [OF k(1) in_places(2)]
  have "set (km_held s) = insert k (set (km_held s'))" using remove1_mset [OF assms(2)] assms(6) by (metis set_mset_add_mset_insert set_mset_mset)
  then have "set (in_flight p s') = set (in_flight p s)" using f by (auto simp: flight_def assms(5,7))
  then show ?thesis using f(3) k(2) by (intro silent_simulates [OF assms(1)]) (simp_all add: assms(5))
qed

lemma notice_simulates:
  assumes "sys_inv pf p s" "event_step pf p (host s) = Inr (Some (rc, vm'), vm')"
  shows "service_step (accesses p s) Silent (accesses p (s\<lparr>host := vm'\<rparr>))"
proof -
  obtain m ms where "event_contents devevt_queue (pages p (host s)) = m # ms" using notice_pending [OF assms] by blast
  from inv_notice [OF assms(1) this] assms(2) have
    "\<forall>r \<in> places. ids r (pages p vm') = ids r (pages p (host s))" "msg_at (pages p vm') = msg_at (pages p (host s))" by auto
  then show ?thesis by (intro silent_simulates [OF assms(1)]) (simp_all add: flight_def)
qed

lemma event_simulates:
  assumes "sys_inv pf p s" "device_event dv = devevt_queue" "device_event_tx bd dv (pages p (host s)) b op m = Inr (e, mem', b')"
  shows "service_step (accesses p s) Silent (accesses p (with_pages p mem' s))"
proof -
  obtain rc where "rpcmsg_event_tx bd devevt_queue (pages p (host s)) (m\<lparr>mr0 := set_op (mr0 m) op\<rparr>) = Inr (rc, mem')"
    using assms(2,3) by (auto simp: device_event_tx_def andthen_eq_Inr split: if_splits prod.splits)
  note t = page_event_tx [OF invD(2) [OF assms(1)] this]
  then show ?thesis by (intro silent_simulates [OF assms(1)]) (simp_all add: flight_def)
qed

lemma fault_simulates:
  assumes "sys_inv pf p s" "unat (vcpu_id (env pf) v) < SEL4_MMIO_MAX_VCPU" "unat (vcpu_id (env pf) v) \<notin> awaited p (host s)" "len \<le> 8"
    "mmio_fault_handler pf p v a len (host s) = Inr (r, vm')"
  shows "service_step (accesses p s) (Ask (unat (vcpu_id (env pf) v)) (fault_access pf v a len (host s))) (accesses p (s\<lparr>host := vm'\<rparr>))"
proof -
  have v: "unat (vcpu_id (env pf) v) < NUM_IOACKS" using assms(2) by (simp add: NUM_IOACKS_def)
  then have sl: "slot_of (fault_request pf v a len (host s)) = unat (vcpu_id (env pf) v)" by (simp add: fault_request_def request_message)
  have "sys_inv pf p (s\<lparr>host := vm'\<rparr>)" "asked p s vm' (fault_request pf v a len (host s))"
    using inv_fault [OF assms(1-4), of a] assms(5) by auto
  from ask_simulates [OF assms(1) this(2,1)] assms(3,4) show ?thesis unfolding sl by (simp add: seen_fault)
qed

lemma native_simulates:
  assumes "sys_inv pf p s" "nat (slot (natives (host s) t)) \<notin> awaited p (host s) \<or> slot (natives (host s) t) = 0" "len \<le> 8"
    "ioreq_native_start pf t p sp dir a len v0 (host s) = Inr (e, vm')" "fst (ioreq_native_slot pf t (host s)) = sl"
  shows "service_step (accesses p s) (if sl = -1 then Silent else Ask (nat sl) (wire_access dir sp a len v0)) (accesses p (s\<lparr>host := vm'\<rparr>))"
proof -
  obtain vm0 where sl: "ioreq_native_slot pf t (host s) = (sl, vm0)" using assms(5) by (cases "ioreq_native_slot pf t (host s)") auto
  have i: "sys_inv pf p (s\<lparr>host := vm'\<rparr>)"
    "if sl = -1 then proxies vm' = proxies (host s) else asked p s vm' (request_msg dir sp (word_of_int sl) a len v0)"
    using inv_native [OF assms(1-3) sl, of sp dir a v0] assms(4) by auto
  show ?thesis
  proof (cases "sl = -1")
    case True
    then have "accesses p (s\<lparr>host := vm'\<rparr>) = accesses p s" using i(2) by (simp add: accesses_def)
    with True show ?thesis by (simp add: service_step_simps)
  next
    case False
    from native_slot_free(2) [OF assms(1,2) sl False] have b: "nat sl \<notin> awaited p vm0" "16 \<le> sl" "sl < 32" by auto
    have w: "unat (word_of_int sl :: u32) = nat sl" using b(2,3) by (simp add: unat_eq_nat_uint uint_word_of_int)
    then have "slot_of (request_msg dir sp (word_of_int sl) a len v0) = nat sl" using b(2,3) by (subst request_message) (simp_all add: num_ioacks)
    moreover have "awaited p vm0 = awaited p (host s)" using native_slot_cases [OF invD(3) [OF assms(1)] sl] by (simp add: awaited_def)
    ultimately show ?thesis using ask_simulates [OF assms(1) _ i(1), of "request_msg dir sp (word_of_int sl) a len v0"] i(2) False b(1)
      by (simp add: seen_request)
  qed
qed

lemma complete_simulates:
  assumes "sys_inv pf p s" "resp_step pf p (host s) = Inr (Some (rc, vm'), vm')" "m = msg_at (pages p (host s)) k"
    "rpcmsg_receive_response Userspace (resp_queue (host s) p) (pages p (host s)) = Inr (Some (int k), n, mem')"
  shows "service_step (accesses p s) (Deliver (slot_of m) (mr2 m)) (accesses p (s\<lparr>host := vm'\<rparr>)) \<and> delivers pf p (slot_of m) (mr2 m) (host s) vm'"
proof -
  obtain j ks where j: "ids driver_drvrpc_resp (pages p (host s)) = j # ks" using complete_pending [OF assms(1,2)] by blast
  have "resp_queue (host s) p = driver_drvrpc_resp" using invD(1) [OF assms(1)] by (simp add: handles_ok_def)
  then have "j = k" using page_dequeue [OF invD(2) [OF assms(1)] in_places(3) j, of Userspace] assms(4) by auto
  then show ?thesis using inv_complete [OF assms(1) j] deliver_simulates [OF assms(1) j, of m vm'] assms(2,3) by auto
qed

lemma own_simulates:
  assumes "own_act pf p km dv s a s'" "backend_handles km dv" "sys_inv pf p s"
  shows "service_step (accesses p s) a (accesses p s')"
  using assms(1)
proof cases
  case (fault v len a r vm')
  then show ?thesis using fault_simulates [OF assms(3)] by blast
next
  case (native t len sp dir a v0 e vm' sl)
  then show ?thesis using native_simulates [OF assms(3) native(3,4,5,6)] by simp
next
  case (km_receive bd k mem')
  then show ?thesis using receive_simulates [OF assms(3) in_places(1) _ , of bd k mem' s'] assms(2) by (auto simp: backend_handles_def)
next
  case (km_forward k bd mem')
  then show ?thesis using forward_simulates [OF assms(3), of k dv bd 0 mem' s'] assms(2) by (simp add: backend_handles_def)
next
  case (km_answer k bd b data e mem' b' m)
  then show ?thesis using answer_simulates [OF assms(3) disjI1, of k km bd b data e mem' b' m s'] assms(2) held_remove1(1) [of k "km_held s"]
    by (simp add: backend_handles_def)
next
  case (dev_receive bd k mem')
  then show ?thesis using receive_simulates [OF assms(3) in_places(2) _ , of bd k mem' s'] assms(2) by (auto simp: backend_handles_def)
next
  case (dev_answer k bd b data e mem' b' m)
  then show ?thesis using answer_simulates [OF assms(3) disjI2, of k dv bd b data e mem' b' m s'] assms(2) held_remove1(2) [of k "dev_held s"]
    by (simp add: backend_handles_def)
next
  case (complete rc vm' m k n mem')
  then show ?thesis using complete_simulates [OF assms(3) complete(3,4,5)] by simp
next
  case (dev_event m op bd b e mem' b')
  then show ?thesis using event_simulates [OF assms(3), of dv bd b op m e mem' b'] assms(2) by (simp add: backend_handles_def)
next
  case (notice rc vm')
  then show ?thesis using notice_simulates [OF assms(3)] by simp
qed

end
