(* ===== verification/Vm_Service.thy ===== *)
theory Vm_Service
  imports Vm_Refinement
begin

text \<open>
  The whole VMM against the specification: every proxy of it, whatever the others do, provides the service of
  \<open>Access_Spec\<close> to its vCPUs and native threads.
\<close>

subsection \<open>The labelled steps of the VMM\<close>

type_synonym ('c, 'b) handles = "proxy_ptr \<Rightarrow> ('c, 'b) vso_rpc \<times> ('c, 'b) vso_rpc"

inductive vmm_act :: "'w platform \<Rightarrow> proxy_ptr set \<Rightarrow> ('c, 'b) handles \<Rightarrow> 'w vmm_system \<Rightarrow> proxy_ptr \<times> label \<Rightarrow> 'w vmm_system \<Rightarrow> bool"
  for pf :: "'w platform" and P :: "proxy_ptr set" and hs :: "('c, 'b) handles" where
  act: "p \<in> P \<Longrightarrow> own_act pf p (fst (hs p)) (snd (hs p)) (view p S) a s' \<Longrightarrow> vmm_act pf P hs S (p, a) (put p s' S)"

text \<open>A trace as one proxy sees it.\<close>

definition of_proxy :: "proxy_ptr \<Rightarrow> proxy_ptr \<times> label \<Rightarrow> label" where
  "of_proxy p l = (if fst l = p then snd l else Silent)"

definition vmm_inv :: "'w platform \<Rightarrow> proxy_ptr set \<Rightarrow> ('c, 'b) handles \<Rightarrow> 'w vmm_system \<Rightarrow> bool" where
  "vmm_inv pf P hs S \<longleftrightarrow> (\<forall>p \<in> P. backend_handles (fst (hs p)) (snd (hs p)) \<and> sys_inv pf p (view p S))"

lemma vmm_act_step: "vmm_act pf P hs S l S' \<Longrightarrow> vmm_step pf P hs S S'"
  by (auto elim!: vmm_act.cases intro!: vmm_step.step intro: own_act_step)

lemma vmm_step_act:
  assumes "vmm_step pf P hs S S'" "vmm_inv pf P hs S"
  shows "\<exists>l. vmm_act pf P hs S l S'"
  using assms(1)
proof cases
  case (step p s')
  then obtain a where "own_act pf p (fst (hs p)) (snd (hs p)) (view p S) a s'"
    using own_step_act assms(2) unfolding vmm_inv_def by blast
  from vmm_act.act [of p P pf hs S a s', OF step(2) this] show ?thesis unfolding step(1) by (rule exI)
qed

lemma vmm_act_inv:
  assumes "vmm_act pf P hs S l S'" "vmm_inv pf P hs S"
  shows "vmm_inv pf P hs S'"
  using vmm_step_view [OF vmm_act_step [OF assms(1)]] step_inv assms(2) unfolding vmm_inv_def by blast

lemma vmm_start_inv: "vmm_start P S \<Longrightarrow> \<forall>p \<in> P. backend_handles (fst (hs p)) (snd (hs p)) \<Longrightarrow> vmm_inv pf P hs S"
  by (simp add: vmm_start_def vmm_inv_def start_inv)

lemma other_accesses: "proxies vm' p = proxies (host s) p \<Longrightarrow> accesses p (s\<lparr>host := vm'\<rparr>) = accesses p s"
  by (simp add: accesses_def)

lemma vmm_simulates:
  assumes "vmm_act pf P hs S l S'" "vmm_inv pf P hs S" "q \<in> P"
  shows "service_step (accesses q (view q S)) (of_proxy q l) (accesses q (view q S'))"
  using assms(1)
proof cases
  case (act p a s')
  have i: "backend_handles (fst (hs p)) (snd (hs p))" "sys_inv pf p (view p S)" using assms(2) act(3) unfolding vmm_inv_def by blast+
  show ?thesis
  proof (cases "q = p")
    case True
    with act own_simulates [OF act(4) i] show ?thesis by (simp add: view_put of_proxy_def)
  next
    case False
    have "proxies (host s') q = proxies (host (view q S)) q"
      using own_step_leaves [OF own_act_step [OF act(4)] i] False by (simp add: leaves_def view_def)
    then have "accesses q (view q S') = accesses q (view q S)" using False act(2) by (simp add: view_put other_accesses)
    with False act(1) show ?thesis by (simp add: of_proxy_def service_step_simps)
  qed
qed

text \<open>Every proxy of the VMM provides the service.\<close>

definition seen_by :: "proxy_ptr \<Rightarrow> ('s \<Rightarrow> proxy_ptr \<times> label \<Rightarrow> 's \<Rightarrow> bool) \<Rightarrow> 's \<Rightarrow> label \<Rightarrow> 's \<Rightarrow> bool" where
  "seen_by p step S a S' \<longleftrightarrow> (\<exists>l. step S l S' \<and> a = of_proxy p l)"

lemma runs_seen: "runs step S tr S' \<Longrightarrow> runs (seen_by p step) S (map (of_proxy p) tr) S'"
proof (induction rule: runs.induct)
  case (more tr S' l S'')
  then have "seen_by p step S' (of_proxy p l) S''" unfolding seen_by_def by blast
  from runs.more [OF more.IH this] show ?case by simp
qed (simp add: runs.none)

definition service_start :: "proxy_ptr \<Rightarrow> proxy_ptr set \<Rightarrow> ('c, 'b) handles \<Rightarrow> 'w vmm_system \<Rightarrow> bool" where
  "service_start p P hs S \<longleftrightarrow> p \<in> P \<and> vmm_start P S \<and> (\<forall>q \<in> P. backend_handles (fst (hs q)) (snd (hs q)))"

interpretation proxied: access_service "service_start p P hs" "seen_by p (vmm_act pf P hs)" "\<lambda>S. p \<in> P \<and> vmm_inv pf P hs S" "\<lambda>S. accesses p (view p S)"
  for pf :: "'w platform" and p P hs
proof unfold_locales
  fix S S' :: "'w vmm_system" and a
  show "(p \<in> P \<and> vmm_inv pf P hs S) \<and> accesses p (view p S) = Map.empty" if "service_start p P hs S"
    using that vmm_start_inv [of P S hs pf] by (auto simp: service_start_def vmm_start_def accesses_start)
  show "(p \<in> P \<and> vmm_inv pf P hs S') \<and> service_step (accesses p (view p S)) a (accesses p (view p S'))"
    if "p \<in> P \<and> vmm_inv pf P hs S" "seen_by p (vmm_act pf P hs) S a S'"
    using that vmm_act_inv vmm_simulates unfolding seen_by_def by blast
qed

lemma vmm_traced:
  assumes "(vmm_step pf P hs)\<^sup>*\<^sup>* S0 S" "vmm_inv pf P hs S0"
  shows "\<exists>tr. runs (vmm_act pf P hs) S0 tr S \<and> vmm_inv pf P hs S"
  using assms(1)
proof (induction rule: rtranclp_induct)
  case base
  from runs.none [of "vmm_act pf P hs" S0] assms(2) show ?case by (intro exI conjI)
next
  case (step S S')
  then obtain tr where tr: "runs (vmm_act pf P hs) S0 tr S" "vmm_inv pf P hs S" by blast
  obtain l where l: "vmm_act pf P hs S l S'" using vmm_step_act [OF step(2) tr(2)] by (rule exE)
  show ?case using runs.more [OF tr(1) l] vmm_act_inv [OF l tr(2)] by (intro exI conjI)
qed

lemma vmm_run_steps: "runs (vmm_act pf P hs) S0 tr S \<Longrightarrow> (vmm_step pf P hs)\<^sup>*\<^sup>* S0 S"
  by (induction rule: runs.induct) (auto intro: rtranclp.rtrancl_into_rtrancl vmm_act_step)

lemma delivered_effect:
  assumes "own_act pf p km dv s (Deliver i d) s'" "sys_inv pf p s"
  shows "delivers pf p i d (host s) (host s')"
  using assms(1)
proof cases
  case (complete rc vm' m k n mem')
  then show ?thesis using complete_simulates [OF assms(2) complete(4,5,6)] by simp
qed (simp_all split: if_splits)

subsection \<open>Configuration space\<close>

text \<open>
  A thread that reads a register of a PCI device asks, in its slot, for a read of that width in the space of the device's slot
  at the backend; what is delivered in the slot is what the read returns, cut to its width.
\<close>

lemma config_read_asks:
  assumes "nat (slot (natives (host s) t)) \<notin> awaited p (host s) \<or> slot (natives (host s) t) = 0" "dev_proxy d = p" "sz \<le> 8"
    "pci_cfg_read pf t d off sz (host s) = Inr (out, vm')" "fst (ioreq_native_slot pf t (host s)) \<noteq> -1"
  shows "own_act pf p km dv s (Ask (nat (fst (ioreq_native_slot pf t (host s))))
      (full_access SEL4_IO_DIR_READ (PCI_SLOT (backend_devfn d)) (ucast off) sz 0)) (s\<lparr>host := vm'\<rparr>)"
proof -
  obtain e where r: "ioreq_native_start pf t p (PCI_SLOT (backend_devfn d)) SEL4_IO_DIR_READ (ucast off) sz 0 (host s) = Inr (e, vm')"
    using assms(2,4) by (auto simp: pci_cfg_read_def pci_cfg_start_def AS_PCIDEV_def andthen_eq_Inr)
  have "unat (PCI_SLOT (backend_devfn d)) \<le> 255" using slot_less [of "backend_devfn d"] by simp
  then have "PCI_SLOT (backend_devfn d) \<le> AS_GLOBAL"
    by (simp add: AS_GLOBAL_def MASK_def RPC_MR0_MMIO_ADDR_SPACE_WIDTH_def word_le_nat_alt)
  then show ?thesis using own_act.native [OF assms(1,3) r refl] assms(3,5) by (simp add: wire_exact)
qed

lemma config_read_value:
  assumes "own_act pf p km dv s (Deliver i x) s'" "sys_inv pf p s"
    "ioacks (proxies (host s) p) ! i = \<lparr>callback = Some Ioack_native_read, ack_data = Some (Native_data t)\<rparr>"
  shows "pci_cfg_read8_end t (Waiting 0) (host s') = ucast x \<and> pci_cfg_read16_end t (Waiting 0) (host s') = ucast x \<and>
    pci_cfg_read32_end t (Waiting 0) (host s') = ucast x"
  using delivered_effect [OF assms(1,2)] assms(3)
  by (simp add: delivers_def pci_cfg_read8_end_def pci_cfg_read16_end_def pci_cfg_read32_end_def pci_cfg_value_def
      ioreq_native_end_def ioreq_native_wait_def)

subsection \<open>A run at boot\<close>

text \<open>The kernel module takes the request at the head of the queue and answers it.\<close>

lemma km_serves:
  assumes "sys_inv pf p s" "backend_handles km dv" "ids driver_drvrpc_req (pages p (host s)) = k # ks" "km_held s = []"
  shows "\<exists>s1 s2. own_act pf p km dv s Silent s1 \<and> own_act pf p km dv s1 (Reply (slot_of (msg_at (pages p (host s)) k)) (seen_access (msg_at (pages p (host s)) k)) d) s2"
proof -
  obtain mem1 where r: "rpcmsg_receive Linux_kernel (request (driver_rpc km)) (pages p (host s)) = Inr (Some (int k), mem1)" "msg_at mem1 = msg_at (pages p (host s))"
    using page_dequeue [OF invD(2) [OF assms(1)] in_places(1) assms(3), of Linux_kernel] assms(2) by (auto simp: backend_handles_def)
  define s1 where "s1 = (with_pages p mem1 s)\<lparr>km_held := km_held s @ [k]\<rparr>"
  have a: "own_act pf p km dv s Silent s1" unfolding s1_def by (rule own_act.km_receive [OF r(1)])
  have k: "k \<in> set (km_held s1)" by (simp add: s1_def)
  have i: "sys_inv pf p s1" using own_inv [OF own_act_step [OF a] assms(2,1)] .
  obtain e mem2 b where "driver_rpc_ack_mmio_finish Linux_kernel km (pages p (host s1)) undefined (Some (int k)) d = Inr (e, mem2, b)"
    using page_ack [OF invD(2) [OF i], of km k Linux_kernel undefined d] flight_room [OF i disjI1 [OF k] in_places(3)] assms(2)
    by (auto simp: case_prod_beta backend_handles_def)
  from own_act.km_answer [OF k this refl] have
    "\<exists>s2. own_act pf p km dv s1 (Reply (slot_of (msg_at (pages p (host s1)) k)) (seen_access (msg_at (pages p (host s1)) k)) d) s2" by blast
  moreover have "msg_at (pages p (host s1)) = msg_at (pages p (host s))" by (simp add: s1_def r(2))
  ultimately show ?thesis using a by auto
qed

text \<open>An answer that is alone in the queue can be delivered.\<close>

lemma answer_delivered:
  assumes "sys_inv pf p s" "accesses p s = [i \<mapsto> Answered d]"
  shows "\<exists>s'. own_act pf p km dv s (Deliver i d) s'"
proof -
  let ?m = "pages p (host s)"
  have at: "slot_of (msg_at ?m k) = i" "progress_of ?m k = Answered d" if "k \<in> set (in_flight p s)" for k
    using accesses_at [OF assms(1) that] assms(2) by (auto split: if_splits)
  have "i \<in> slots_of ?m (in_flight p s)" using accesses_dom [OF assms(1)] assms(2) unfolding awaited_flight [OF assms(1)] by auto
  then obtain k where "k \<in> set (in_flight p s)" by (auto simp: slots_of_def)
  from at(2) [OF this] obtain j ks where j: "ids driver_drvrpc_resp ?m = j # ks"
    by (cases "ids driver_drvrpc_resp ?m") (auto simp: progress_of_def)
  then have J: "j \<in> set (in_flight p s)" by (simp add: flight_def)
  from at [OF J] j have m: "slot_of (msg_at ?m j) = i" "mr2 (msg_at ?m j) = d" by (simp_all add: progress_of_def)
  obtain vm' where v: "resp_step pf p (host s) = Inr (Some (0, vm'), vm')" using inv_complete [OF assms(1) j] by blast
  have "resp_queue (host s) p = driver_drvrpc_resp" using invD(1) [OF assms(1)] by (simp add: handles_ok_def)
  then obtain mem' where "rpcmsg_receive_response Userspace (resp_queue (host s) p) ?m = Inr (Some (int j), Some (of_nat j), mem')"
    using page_dequeue [OF invD(2) [OF assms(1)] in_places(3) j, of Userspace] by auto
  from own_act.complete [OF v refl this, of km dv] show ?thesis unfolding m by (rule exI)
qed

text \<open>A read by vCPU 3 of a VMM with one proxy, answered by the kernel module with 42.\<close>

definition boot_vmm_system :: "unit vmm_system" where
  "boot_vmm_system = \<lparr>machine = boot_vmm (), km_of = (\<lambda>_. []), dev_of = (\<lambda>_. [])\<rparr>"

definition boot_handles :: "(nat, unit) handles" where
  "boot_handles p = (boot_km, boot_device)"

lemma boot_vmm_start: "view p boot_vmm_system = boot_system" "vmm_start P boot_vmm_system"
  "\<forall>p \<in> P. backend_handles (fst (boot_handles p)) (snd (boot_handles p))"
proof -
  show v: "view p boot_vmm_system = boot_system" for p by (simp add: view_def boot_vmm_system_def boot_system_def)
  show "vmm_start P boot_vmm_system" using boot_start by (simp add: vmm_start_def v)
qed (use boot_backend in \<open>simp add: boot_handles_def\<close>)

lemma boot_fault:
  "\<exists>s. own_act idle_platform 0 boot_km boot_device boot_system (Ask 3 (fault_access idle_platform 3 0x70000040 4 (host boot_system))) s \<and>
    km_held s = [] \<and> (\<exists>k. ids driver_drvrpc_req (pages 0 (host s)) = [k] \<and> slot_of (msg_at (pages 0 (host s)) k) = 3)"
proof -
  let ?s = boot_system
  have v: "unat (vcpu_id (env idle_platform) 3) = 3" "unat (vcpu_id (env idle_platform) 3) < SEL4_MMIO_MAX_VCPU"
    "unat (vcpu_id (env idle_platform) 3) \<notin> awaited 0 (host ?s)"
    using idle_vcpu [of 3] boot_start [of 0] by (simp_all add: SEL4_MMIO_MAX_VCPU_def sys_start_def Let_def)
  obtain vm' where f: "mmio_fault_handler idle_platform 0 3 0x70000040 4 (host ?s) = Inr (FAULT_HANDLED, vm')"
    "asked 0 ?s vm' (fault_request idle_platform 3 0x70000040 4 (host ?s))"
    using inv_fault [OF start_inv [OF boot_start] v(2,3), of 4 "0x70000040"] by auto
  have a: "own_act idle_platform 0 boot_km boot_device ?s (Ask 3 (fault_access idle_platform 3 0x70000040 4 (host ?s))) (?s\<lparr>host := vm'\<rparr>)"
    using own_act.fault [OF v(2,3) _ f(1)] v(1) by simp
  have "in_flight 0 ?s = []" using boot_start [of 0] by (simp add: sys_start_def Let_def)
  then have "ids driver_drvrpc_req (pages 0 (host ?s)) = []" by (simp add: flight_def)
  with f(2) obtain k where k: "ids driver_drvrpc_req (pages 0 vm') = [k]" "msg_at (pages 0 vm') k = fault_request idle_platform 3 0x70000040 4 (host ?s)"
    unfolding asked_def by (auto dest: movedD(2))
  have "slot_of (msg_at (pages 0 vm') k) = 3" using v(1) unfolding k(2) fault_request_def by (simp add: request_message num_ioacks)
  with a k(1) show ?thesis by (intro exI [of _ "?s\<lparr>host := vm'\<rparr>"]) (simp add: boot_system_def)
qed

lemma boot_run:
  "\<exists>r S. runs (vmm_act idle_platform {0} boot_handles) boot_vmm_system [(0, Ask 3 r), (0, Silent), (0, Reply 3 r 42)] S \<and>
    accesses 0 (view 0 S) = [3 \<mapsto> Answered 42]"
proof -
  let ?step = "own_act idle_platform 0 boot_km boot_device" and ?act = "vmm_act idle_platform {0} boot_handles" and ?S = boot_vmm_system
  obtain r s k where s: "?step boot_system (Ask 3 r) s" "km_held s = []" "ids driver_drvrpc_req (pages 0 (host s)) = [k]" "slot_of (msg_at (pages 0 (host s)) k) = 3"
    using boot_fault by blast
  have i0: "sys_inv idle_platform 0 boot_system" by (rule start_inv [OF boot_start])
  note i1 = own_inv [OF own_act_step [OF s(1)] boot_backend i0]
  obtain s1 s2 q where s2: "?step s Silent s1" "?step s1 (Reply 3 q 42) s2"
    using km_serves [OF i1 boot_backend s(3,2), of 42] unfolding s(4) by blast
  note i2 = own_inv [OF own_act_step [OF s2(1)] boot_backend i1]
  note sim = own_simulates [OF s(1) boot_backend i0] own_simulates [OF s2(1) boot_backend i1] own_simulates [OF s2(2) boot_backend i2]
  have "accesses 0 boot_system = Map.empty" by (rule accesses_start [OF boot_start])
  with sim have q: "q = r" "accesses 0 s2 = [3 \<mapsto> Answered 42]" by (simp_all add: service_step_simps)
  have more: "runs ?act ?S (tr @ [(0, a)]) (put 0 s' S)" if "runs ?act ?S tr S" "?step (view 0 S) a s'" for tr S a s'
    by (rule runs.more [where step = ?act, OF that(1)]) (use that(2) vmm_act.act [of 0 "{0}" idle_platform boot_handles S a s'] in \<open>simp add: boot_handles_def\<close>)
  have v: "view 0 (put 0 s' S) = s'" for s' and S :: "unit vmm_system" by (simp add: view_put)
  have "runs ?act ?S [(0, Ask 3 r)] (put 0 s ?S)" using more [OF runs.none, of "Ask 3 r" s] s(1) by (simp add: boot_vmm_start)
  from more [OF this, of Silent s1] s2(1) have "runs ?act ?S [(0, Ask 3 r), (0, Silent)] (put 0 s1 (put 0 s ?S))" by (simp add: v)
  from more [OF this, of "Reply 3 r 42" s2] s2(2) q have
    "runs ?act ?S [(0, Ask 3 r), (0, Silent), (0, Reply 3 r 42)] (put 0 s2 (put 0 s1 (put 0 s ?S)))" by (simp add: v)
  with q(2) show ?thesis by (metis v)
qed

subsection \<open>Properties\<close>

text \<open>
  C2. The VMM implements the specification of register accesses. In a VMM with any set of proxies, every sequence of calls by
  the VMM and all backends has a trace of labels, and with every trace of it each proxy behaves as the
  specified service does: starting with no access pending, in each slot an access is asked for only when none is pending, answered
  once, by an answer to that very request, and delivered once with the data of that answer. The
  pending accesses are those of the vCPUs and native threads that wait.\<close>

theorem vmm_refines_service:
  assumes "vmm_start P S0" "\<forall>p \<in> P. backend_handles (fst (hs p)) (snd (hs p))" "(vmm_step pf P hs)\<^sup>*\<^sup>* S0 S"
  shows "(\<exists>tr. runs (vmm_act pf P hs) S0 tr S) \<and>
    (\<forall>tr. runs (vmm_act pf P hs) S0 tr S \<longrightarrow> (\<forall>p \<in> P. runs service_step Map.empty (map (of_proxy p) tr) (accesses p (view p S)))) \<and>
    (\<forall>p \<in> P. dom (accesses p (view p S)) = awaited p (machine S))"
proof (intro conjI ballI allI impI)
  note i0 = vmm_start_inv [OF assms(1,2), of pf]
  from vmm_traced [OF assms(3) i0] obtain tr where tr: "runs (vmm_act pf P hs) S0 tr S" "vmm_inv pf P hs S" by blast
  from tr(1) show "\<exists>tr. runs (vmm_act pf P hs) S0 tr S" by (rule exI)
  show "runs service_step Map.empty (map (of_proxy p) tr) (accesses p (view p S))" if "runs (vmm_act pf P hs) S0 tr S" "p \<in> P" for p tr
    using proxied.run_refines [OF _ runs_seen [OF that(1)]] assms(1,2) that(2) unfolding service_start_def by blast
  show "dom (accesses p (view p S)) = awaited p (machine S)" if "p \<in> P" for p
    using accesses_dom [of pf p "view p S"] tr(2) that by (simp add: vmm_inv_def view_def)
qed

theorem vmm_refines_service_witness:
  "\<exists>r S. runs (vmm_act idle_platform {0} boot_handles) boot_vmm_system [(0, Ask 3 r), (0, Silent), (0, Reply 3 r 42)] S \<and>
    runs service_step Map.empty [Ask 3 r, Silent, Reply 3 r 42] [3 \<mapsto> Answered (42 :: seL4_Word)] \<and> awaited 0 (machine S) = {3}"
proof -
  obtain r S where S: "runs (vmm_act idle_platform {0} boot_handles) boot_vmm_system [(0, Ask 3 r), (0, Silent), (0, Reply 3 r 42)] S"
    "accesses 0 (view 0 S) = [3 \<mapsto> Answered 42]" using boot_run by blast
  have "runs service_step Map.empty (map (of_proxy 0) [(0, Ask 3 r), (0, Silent), (0, Reply 3 r 42)]) (accesses 0 (view 0 S))"
    "dom (accesses 0 (view 0 S)) = awaited 0 (machine S)"
    using vmm_refines_service [OF boot_vmm_start(2,3) vmm_run_steps [OF S(1)]] S(1) by blast+
  with S show ?thesis by (intro exI [of _ r] exI [of _ S]) (simp add: of_proxy_def)
qed

text \<open>
  C1. Each waiter gets the answer to its own request. Whenever the VMM completes an access in slot \<open>i\<close> of a proxy with data \<open>d\<close>,
  the vCPU with that number or the native thread that owns the slot gets \<open>d\<close> and goes on, and no other vCPU or thread sees anything;
  the last things that happened in that slot are the request and then the backend's answer \<open>d\<close> to exactly that request, each once;
  and in every slot of the proxy the accesses that were started are the completed ones and at most one more, the one that is pending.\<close>

theorem waiter_gets_own_answer:
  assumes "vmm_start P S0" "\<forall>p \<in> P. backend_handles (fst (hs p)) (snd (hs p))" "runs (vmm_act pf P hs) S0 tr S" "p \<in> P"
    "own_act pf p (fst (hs p)) (snd (hs p)) (view p S) (Deliver i d) s'"
  shows "delivers pf p i d (machine S) (host s') \<and> (\<exists>r. ends_answered i r d (map (of_proxy p) tr)) \<and>
    (\<forall>j. balanced j (map (of_proxy p) tr) (accesses p (view p S) j))"
proof (intro conjI allI)
  have st: "service_start p P hs S0" using assms(1,2,4) by (simp add: service_start_def)
  note run = runs_seen [OF assms(3), of p]
  have i: "sys_inv pf p (view p S)" using proxied.run_refines [OF st run] assms(4) by (simp add: vmm_inv_def)
  show "delivers pf p i d (machine S) (host s')" using delivered_effect [OF assms(5) i] by (simp add: view_def)
  have "seen_by p (vmm_act pf P hs) S (Deliver i d) (put p s' S)"
    using vmm_act.act [of p P pf hs S "Deliver i d" s'] assms(4,5) by (force simp: seen_by_def of_proxy_def)
  from proxied.delivers_answer [OF st run this] show "\<exists>r. ends_answered i r d (map (of_proxy p) tr)" .
  show "balanced j (map (of_proxy p) tr) (accesses p (view p S) j)" for j by (rule proxied.accounts [OF st run])
qed

theorem waiter_gets_own_answer_witness:
  "\<exists>r S s'. runs (vmm_act idle_platform {0} boot_handles) boot_vmm_system [(0, Ask 3 r), (0, Silent), (0, Reply 3 r 42)] S \<and>
    own_act idle_platform 0 boot_km boot_device (view 0 S) (Deliver 3 42) s' \<and> delivers idle_platform 0 3 42 (machine S) (host s')"
proof -
  obtain r S where S: "runs (vmm_act idle_platform {0} boot_handles) boot_vmm_system [(0, Ask 3 r), (0, Silent), (0, Reply 3 r 42)] S"
    "accesses 0 (view 0 S) = [3 \<mapsto> Answered 42]" using boot_run by blast
  have "vmm_inv idle_platform {0} boot_handles S"
    using vmm_traced [OF vmm_run_steps [OF S(1)]] vmm_start_inv [OF boot_vmm_start(2,3)] by blast
  then obtain s' where s': "own_act idle_platform 0 boot_km boot_device (view 0 S) (Deliver 3 42) s'"
    using answer_delivered [OF _ S(2)] unfolding vmm_inv_def by blast
  have "delivers idle_platform 0 3 42 (machine S) (host s')"
    using waiter_gets_own_answer [OF boot_vmm_start(2,3) S(1), of 0 3 42 s'] s' by (simp add: boot_handles_def)
  with S(1) s' show ?thesis by blast
qed

end
