(* ===== verification/Spec2Isabelle.thy ===== *)
theory Spec2Isabelle
  imports Rpc_Races Lend_Races Trace Vm_Races Vm_Start Vm_Service
begin

text \<open>
  Verification of the seL4 virtio VM extensions (\<open>virtioso-camkes-vm\<close>).

  \<^bold>\<open>The program.\<close> A virtual machine monitor (VMM) runs a guest whose devices live in another
  virtual machine, the backend (a QEMU process and a kernel module). Guest and backend share two
  pages that hold tables of messages and rings of message numbers. A guest access to a device page
  faults; the VMM turns the fault into a request on a ring, the backend answers on another ring,
  and the answer completes the fault. The backend also sends events: set an interrupt, register a
  PCI device, reserve a region, start the VM. Around that, the VMM emulates interrupt lines, an MSI
  frame and PCI configuration space, and generates nodes of the guest's device tree at boot.

  \<^bold>\<open>The parts and the theories.\<close>

  \<^item> \<open>Prelude\<close>: machine types, outcomes of C code that can abort (\<open>res\<close>), arrays, residues.
  \<^item> \<open>Fifo\<close>, \<open>Slot_Pool\<close>: the contracts of a bounded queue and of a pool of slots, as locales; runs of
    a queue simulate a list, several lent slots are distinct.
  \<^item> \<open>Bitmap\<close>: the bitmap of lent slots, \<open>include/sel4/rpc_queue.h\<close> lines 41 to 98.
  \<^item> \<open>Rpc_Queue\<close>: the ring with its 32-bit counters, lines 100 to 354: acquire, commit, enqueue,
    dequeue. The two loops are partial functions, so a loop that spins has no value. Lemmas: on a
    settled queue each operation returns in one pass and is a push or a pop.
  \<^item> \<open>Rpc_Concurrent\<close>, \<open>Rpc_Races\<close>: the same ring used by any number of producers and consumers at
    once, one shared access per step, with an invariant proved by rule induction over all
    interleavings; from it follow exclusive access to the ring's slots, delivery of what was
    enqueued, the windows of the counters, the refinement to the sequential ring when no operation is
    under way, and the equality of a lone run with the sequential definition.
  \<^item> \<open>Rpc_Messages\<close>: events, requests, replies and lending of slots, lines 356 to 631. Event and
    request queues interpret the queue locale, the bitmap interprets the pool locale.
  \<^item> \<open>Lend_Races\<close>: lending slots in two steps, look and set, from several threads: safe with one lender, not
    with two.
  \<^item> \<open>Rpc_Protocol\<close>, \<open>Rpc_Requests\<close>: \<open>include/sel4/rpc.h\<close>: register fields (a locale of disjoint bit
    fields, interpreted for every pair), operations, handles, initialisation; what a
    request overwrites, also when the queue is full, and what happens without a free slot.
  \<^item> \<open>Sel4vm\<close>: the parameters that stand for libsel4vm, libsel4vmmplatsupport and libsel4sync.
  \<^item> \<open>Irq_Lines\<close>: \<open>src/irq_line.c\<close> and \<open>src/shared_irq_line.c\<close>; the shared line refines a set of
    active sources for the sources below 32, and is undefined for those from 32 to 63.
  \<^item> \<open>Gicv2m\<close>: \<open>src/gicv2m.c\<close>, \<open>src/msi.c\<close> and \<open>src/plat/*/msi.c\<close>: which ranges the frame accepts, wrap-around
    included, which interrupts it claims and what a write to its doorbell does.
  \<^item> \<open>Reservations\<close>: \<open>src/list.c\<close>, \<open>src/irq_reservations.c\<close>, \<open>src/mmio_reservations.c\<close>; both tables
    interpret one locale of keyed lists.
  \<^item> \<open>Vmm_State\<close>: the state of the VMM as one record, and the proxies of the backends.
  \<^item> \<open>Io_Proxy\<close>: \<open>src/io_proxy.c\<close> and the vCPU callbacks of \<open>src/libsel4vm_glue.c\<close>.
  \<^item> \<open>Emulated_Device\<close>: \<open>src/emulated_device.c\<close>.
  \<^item> \<open>Pci_Bus\<close>: the PCI part of \<open>src/libsel4vm_glue.c\<close>, \<open>include/tii/pci.h\<close>: registration, the lines devices
    drive, and the registers from which the guest learns their numbers.
  \<^item> \<open>Vm_Glue\<close>: the dispatcher, the loop over both queues and the start-up of a proxy. Every handler
    interprets the locale \<open>rpc_handler\<close>; routing follows from the contracts.
  \<^item> \<open>Vm_Run\<close>: the composition: round trips of guest and native accesses, termination of
    \<open>rpc_run\<close> (a locale of draining loops, interpreted for both queues), slots, and errors.
  \<^item> \<open>Rpc_Pages\<close>: what each operation does to the two shared pages as a whole: which queue holds which
    message numbers, and that the other queues and messages stay.
  \<^item> \<open>Vm_System\<close>, \<open>Vm_Guarantees\<close>, \<open>Vm_Progress\<close>: a proxy and its backend as one transition system. A step is
    one call: a fault, a native access, receiving, forwarding, answering, completing, sending or handling an event,
    in any order. The invariant says where each message is and who waits for it; it is kept by every step
    (the handlers through the locale \<open>steady_handler\<close>, the two loops through \<open>safe_drain\<close> and \<open>sure_drain\<close>). From it:
    the state stays well formed, no access is refused, \<open>rpc_run\<close> never aborts, every request comes to its end.
  \<^item> \<open>Vm_Races\<close>: two calls of \<open>src/io_proxy.c\<close> split where another thread may run in between, and what then goes wrong.
  \<^item> \<open>Vm_Proxies\<close>: any number of such proxies in one VMM; a call for one leaves the others alone (the handlers
    through the locale \<open>private_handler\<close>), so each has the guarantees.
  \<^item> \<open>Access_Spec\<close>: the abstract specification of the whole: a table of pending accesses, with labelled steps
    for asking, answering and delivering. The locale \<open>access_service\<close> is a simulation by a system with such labels; it gives
    inclusion of traces, and from the traces of the specification what must have happened before an answer is delivered.
  \<^item> \<open>Vm_Refinement\<close>, \<open>Vm_Service\<close>: the steps of the system with labels (the same steps, each with what it does for an access), the
    messages under way read as that table, and the simulation, first for one proxy and then for a VMM with any set of
    them, which interprets the locale.
  \<^item> \<open>Vm_Start\<close>: the start-up of a proxy leads to a state of that system, and the proxies of a VMM can be brought up one
    after the other while those that are up serve (\<open>vmm_life\<close>).
  \<^item> \<open>Fdt\<close>: \<open>src/fdt.c\<close>, \<open>src/guest_linux.c\<close>, \<open>src/plat/rpi4/fdt.c\<close> over a record of libfdt functions.
  \<^item> \<open>Camkes_Modules\<close>: the modules under \<open>src/camkes/modules\<close> and \<open>src/ram_dataport.c\<close>.
  \<^item> \<open>Trace\<close>: \<open>src/camkes/modules/trace.c\<close>: the names of trace points, the buffers the kernel, the VMM and
    the guest share, the control of the kernel's log.
  \<^item> \<open>Virtio_Templates\<close>: the functions of \<open>templates/*.template.c\<close>, over the list of connections that
    the template engine unrolls: notification handlers and static proxies of the driver VM,
    cross-VM connections and command line of the device VM.
  \<^item> \<open>Boot\<close>: the steps of a proxy's start-up, each shown to succeed on libraries that grant what is
    asked, up to the first run of the template's handler. The property of the whole is below.

  \<^bold>\<open>State and errors.\<close> Structures are records with the fields of the source; pointers to messages
  are offsets into their table, pointers to proxies and threads are numbers. The shared pages are
  a value that the operations return updated. A failed assertion, a fatal log message
  (\<open>ZF_LOGF\<close>, after which the code says that it does not return), a null or out-of-bounds access, a
  shift that is too wide and a loop that spins are values of \<open>fault\<close>; integer error codes stay integers.

  \<^bold>\<open>Code outside the repository\<close> is a parameter: functions over a world that the model never looks
  into. What a property needs of them is a named hypothesis (\<open>keeps_levels\<close>, \<open>counts_edges\<close>,
  \<open>lists_ok\<close>, \<open>grants\<close>, \<open>boots\<close>, \<open>records_maps\<close>, \<open>maps_frames\<close>, \<open>never_short\<close>, \<open>keeps_world\<close>), and its witness gives a concrete world in which it holds.
  Waiting on a semaphore ends a definition: the part before it and the part after it are separate,
  since other threads run in between.

  \<^bold>\<open>Bounds.\<close> Counters are 32-bit words and wrap. The interleaved model admits any number of threads;
  its runs exclude only that one thread sleeps between a load and its compare-and-swap while
  \<open>2 ^ 32\<close> other operations complete. Loops are partial functions or structural recursion; no fuel is used.
  The system of a proxy and its backend takes calls as atomic; inside the calls, \<open>Rpc_Concurrent\<close> and \<open>Lend_Races\<close>
  justify that for the rings and for one lender, and \<open>Lend_Races\<close> and \<open>Vm_Races\<close> show where the code does not.
  The system assumes that a vCPU or thread waits for its answer before its next access, that the backend answers only requests
  it has received and does not send events with the code of an answer; \<open>Vm_Run\<close> shows what a backend that breaks this causes.

  \<^bold>\<open>Not modelled.\<close> Weak memory order (accesses are sequentially consistent). Logging. The layout of structures in bytes,
  which the compiler chooses.
  The order in which \<open>DEFINE_MODULE\<close> registers modules, and the component descriptions and build macros
  under \<open>configurations/\<close> and \<open>apps/\<close>: input of the CAmkES build.
\<close>



end
